(* ===== verification/Prelude.thy ===== *)
theory Prelude
  imports Main "HOL-Library.Word" "HOL-Library.Monad_Syntax"
begin

unbundle bit_operations_syntax

text \<open>
  Shared vocabulary: Go byte slices, Go's run-time panics, the arithmetic of Go's 64-bit
  \<open>int\<close>, slice expressions and \<open>bytes.IndexByte\<close>. Only the language and its standard library are
  modelled here; the repository's own code starts in the other theories.
\<close>

named_theorems go_simps \<open>evaluation rules for Go's slices and integers\<close>

section \<open>Bytes and panics\<close>

type_synonym byte = "8 word"
type_synonym bytes = "byte list"

text \<open>
  A Go function that may panic (slice bounds, division by zero, nil interface) or may fail to
  return has a result in \<open>'a go\<close>: \<open>Ret v\<close> when it returns \<open>v\<close>, \<open>Panic\<close> when it does not
  return normally. Error values are never mapped to \<open>Panic\<close>; they are ordinary results.
\<close>

type_synonym 'a go = "'a option"

abbreviation (input) Ret :: "'a \<Rightarrow> 'a go" where "Ret \<equiv> Some"
abbreviation (input) Panic :: "'a go" where "Panic \<equiv> None"

section \<open>Go's int\<close>

text \<open>
  \<open>int\<close> is 64 bits wide on the platforms the program supports. \<open>go_int\<close> is the value a
  mathematical integer has after wrapping; sums of configured or received values go through
  it. Lengths of slices in memory are below \<open>2 ^ 63\<close> and are used as they are.
\<close>

definition go_int :: "int \<Rightarrow> int" where
  "go_int x = signed_take_bit 63 x"

lemma go_int_id: "- (2 ^ 63) \<le> x \<Longrightarrow> x < 2 ^ 63 \<Longrightarrow> go_int x = x"
  by (simp add: go_int_def signed_take_bit_int_eq_self)

lemma go_int_less: "go_int x < 2 ^ 63"
  unfolding go_int_def by (rule signed_take_bit_int_less_exp)

lemma sint64_uint: "uint (w :: 64 word) < 2 ^ 63 \<Longrightarrow> sint w = uint w"
proof -
  assume "uint w < 2 ^ 63"
  moreover have "- (2 ^ 63) \<le> uint w" by (rule order_trans [OF _ uint_ge_0]) simp
  ultimately show ?thesis by (simp add: sint_uint signed_take_bit_int_eq_self)
qed

section \<open>Slices\<close>

text \<open>\<open>s[n:]\<close> and \<open>s[:n]\<close>. The code never re-slices beyond the length of a slice, so the
  upper bound is the length (Go would allow the capacity).\<close>

definition slice_from :: "'a list \<Rightarrow> int \<Rightarrow> 'a list go" where
  "slice_from s n = (if 0 \<le> n \<and> n \<le> int (length s) then Ret (drop (nat n) s) else Panic)"

definition slice_to :: "'a list \<Rightarrow> int \<Rightarrow> 'a list go" where
  "slice_to s n = (if 0 \<le> n \<and> n \<le> int (length s) then Ret (take (nat n) s) else Panic)"

lemma slice_from_Ret [go_simps]:
  "0 \<le> n \<Longrightarrow> n \<le> int (length s) \<Longrightarrow> slice_from s n = Ret (drop (nat n) s)"
  by (simp add: slice_from_def)

lemma slice_to_Ret [go_simps]:
  "0 \<le> n \<Longrightarrow> n \<le> int (length s) \<Longrightarrow> slice_to s n = Ret (take (nat n) s)"
  by (simp add: slice_to_def)

text \<open>\<open>bytes.IndexByte(s, b)\<close>: the first index of \<open>b\<close>, or -1.\<close>

definition IndexByte :: "bytes \<Rightarrow> byte \<Rightarrow> int" where
  "IndexByte s b = (if b \<in> set s then int (length (takeWhile (\<lambda>x. x \<noteq> b) s)) else - 1)"

lemma length_takeWhile_mem: "b \<in> set s \<Longrightarrow> length (takeWhile (\<lambda>x. x \<noteq> b) s) < length s"
  by (induction s) auto

lemma IndexByte_absent [go_simps]: "b \<notin> set s \<Longrightarrow> IndexByte s b = - 1"
  by (simp add: IndexByte_def)

lemma IndexByte_present [go_simps]:
  "b \<in> set s \<Longrightarrow> IndexByte s b = int (length (takeWhile (\<lambda>x. x \<noteq> b) s))"
  by (simp add: IndexByte_def)

lemma take_length_takeWhile [simp]: "take (length (takeWhile P s)) s = takeWhile P s"
  by (metis takeWhile_eq_take)

lemma takeWhile_delim [simp]:
  "b \<notin> set f \<Longrightarrow> takeWhile (\<lambda>x. x \<noteq> b) (f @ b # r) = f"
  by (induction f) auto

lemma takeWhile_mem_append [simp]:
  "b \<in> set s \<Longrightarrow> takeWhile (\<lambda>x. x \<noteq> b) (s @ t) = takeWhile (\<lambda>x. x \<noteq> b) s"
  by (induction s) auto

end
