(* ===== verification/Kernel.thy ===== *)
theory Kernel
  imports Prelude
begin

text \<open>
  The operating system as the program sees it. The system calls of \<open>golang.org/x/sys/unix\<close> are
  not part of the repository: they are the record \<open>sys\<close> of functions over an unknown kernel
  state \<open>'k\<close>, an argument of every definition that makes a call. A \<open>world\<close> holds the kernel
  state and the \<open>trace\<close> of what the program has done so far, in order; the wrappers below make a
  call and record it. \<open>sys_ok\<close> is the documented behaviour some theorems rely on.
\<close>

datatype errno = EAGAIN | EINTR | Errno nat

text \<open>Socket addresses: four or sixteen address bytes and a port, or another family.\<close>

datatype sockaddr =
    SockaddrInet4 bytes int
  | SockaddrInet6 bytes int
  | SockaddrOther string

record 'k sys =
  k_read :: "int \<Rightarrow> nat \<Rightarrow> 'k \<Rightarrow> (errno + bytes) \<times> 'k"
  k_write :: "int \<Rightarrow> bytes \<Rightarrow> 'k \<Rightarrow> (errno + nat) \<times> 'k"
  k_close :: "int \<Rightarrow> 'k \<Rightarrow> errno option \<times> 'k"
  k_shutdown_wr :: "int \<Rightarrow> 'k \<Rightarrow> errno option \<times> 'k"
  k_set_nonblock :: "int \<Rightarrow> 'k \<Rightarrow> errno option \<times> 'k"
  k_accept :: "int \<Rightarrow> 'k \<Rightarrow> (errno + int \<times> sockaddr) \<times> 'k"
  k_epoll_create :: "'k \<Rightarrow> (errno + int) \<times> 'k"
  k_eventfd :: "'k \<Rightarrow> (errno + int) \<times> 'k"
  k_epoll_ctl :: "int \<Rightarrow> int \<Rightarrow> int \<Rightarrow> 32 word \<Rightarrow> 'k \<Rightarrow> errno option \<times> 'k"
  k_epoll_wait :: "int \<Rightarrow> nat \<Rightarrow> int \<Rightarrow> 'k \<Rightarrow> (errno + (32 word \<times> int) list) \<times> 'k"
  k_now :: "'k \<Rightarrow> int"

text \<open>
  What the program did, oldest first. Connections are named by a number. \<open>EffSubmit i d\<close> notes
  that \<open>d\<close> was handed to the \<open>write\<close> method of connection \<open>i\<close>; it changes nothing.
\<close>

datatype effect =
    EffRead int "errno + bytes"
  | EffWrite int bytes "errno + nat"
  | EffClose int
  | EffShutdown int
  | EffCtl int int int "32 word" "errno option"
  | EffMessage nat bytes
  | EffSubmit nat bytes
  | EffWriteComplete nat
  | EffConnectClose nat
  | EffConnect nat
  | EffPutBuffers nat
  | EffAfterFunc nat int

record 'k world =
  kern :: 'k
  trace :: "effect list"

definition emit :: "effect \<Rightarrow> ('k, 'z) world_scheme \<Rightarrow> ('k, 'z) world_scheme" where
  "emit e w = w\<lparr>trace := trace w @ [e]\<rparr>"

definition sys_read ::
  "'k sys \<Rightarrow> int \<Rightarrow> nat \<Rightarrow> ('k, 'z) world_scheme \<Rightarrow> (errno + bytes) \<times> ('k, 'z) world_scheme" where
  "sys_read S fd n w = (case k_read S fd n (kern w) of
     (r, k) \<Rightarrow> (r, emit (EffRead fd r) (w\<lparr>kern := k\<rparr>)))"

definition sys_write ::
  "'k sys \<Rightarrow> int \<Rightarrow> bytes \<Rightarrow> ('k, 'z) world_scheme \<Rightarrow> (errno + nat) \<times> ('k, 'z) world_scheme" where
  "sys_write S fd d w = (case k_write S fd d (kern w) of
     (r, k) \<Rightarrow> (r, emit (EffWrite fd d r) (w\<lparr>kern := k\<rparr>)))"

definition sys_close ::
  "'k sys \<Rightarrow> int \<Rightarrow> ('k, 'z) world_scheme \<Rightarrow> errno option \<times> ('k, 'z) world_scheme" where
  "sys_close S fd w = (case k_close S fd (kern w) of
     (r, k) \<Rightarrow> (r, emit (EffClose fd) (w\<lparr>kern := k\<rparr>)))"

definition sys_shutdown_wr ::
  "'k sys \<Rightarrow> int \<Rightarrow> ('k, 'z) world_scheme \<Rightarrow> errno option \<times> ('k, 'z) world_scheme" where
  "sys_shutdown_wr S fd w = (case k_shutdown_wr S fd (kern w) of
     (r, k) \<Rightarrow> (r, emit (EffShutdown fd) (w\<lparr>kern := k\<rparr>)))"

definition sys_set_nonblock ::
  "'k sys \<Rightarrow> int \<Rightarrow> ('k, 'z) world_scheme \<Rightarrow> errno option \<times> ('k, 'z) world_scheme" where
  "sys_set_nonblock S fd w = (case k_set_nonblock S fd (kern w) of
     (r, k) \<Rightarrow> (r, w\<lparr>kern := k\<rparr>))"

definition sys_epoll_ctl ::
  "'k sys \<Rightarrow> int \<Rightarrow> int \<Rightarrow> int \<Rightarrow> 32 word \<Rightarrow> ('k, 'z) world_scheme \<Rightarrow>
     errno option \<times> ('k, 'z) world_scheme" where
  "sys_epoll_ctl S epfd op fd ev w = (case k_epoll_ctl S epfd op fd ev (kern w) of
     (r, k) \<Rightarrow> (r, emit (EffCtl epfd op fd ev r) (w\<lparr>kern := k\<rparr>)))"

lemmas sys_defs = sys_read_def sys_write_def sys_close_def sys_shutdown_wr_def
  sys_set_nonblock_def sys_epoll_ctl_def

text \<open>\<open>read\<close> gives at most the bytes asked for; \<open>write\<close> takes at most the bytes offered.\<close>

definition sys_ok :: "'k sys \<Rightarrow> bool" where
  "sys_ok S \<longleftrightarrow>
     (\<forall>fd n k bs k'. k_read S fd n k = (Inr bs, k') \<longrightarrow> length bs \<le> n) \<and>
     (\<forall>fd d k n k'. k_write S fd d k = (Inr n, k') \<longrightarrow> n \<le> length d)"

lemma trace_emit [simp]: "trace (emit e w) = trace w @ [e]"
  by (simp add: emit_def)

lemma kern_emit [simp]: "kern (emit e w) = kern w"
  by (simp add: emit_def)

lemma sys_write_le: "sys_ok S \<Longrightarrow> sys_write S fd d w = (Inr n, w') \<Longrightarrow> n \<le> length d"
  by (simp add: sys_ok_def sys_write_def split: prod.splits) blast

lemma sys_read_le: "sys_ok S \<Longrightarrow> sys_read S fd n w = (Inr bs, w') \<Longrightarrow> length bs \<le> n"
  by (simp add: sys_ok_def sys_read_def split: prod.splits) blast

lemma sys_write_trace: "sys_write S fd d w = (r, w') \<Longrightarrow> trace w' = trace w @ [EffWrite fd d r]"
  by (auto simp: sys_write_def split: prod.splits)

lemma sys_read_trace: "sys_read S fd n w = (r, w') \<Longrightarrow> trace w' = trace w @ [EffRead fd r]"
  by (auto simp: sys_read_def split: prod.splits)

lemma sys_close_trace: "sys_close S fd w = (r, w') \<Longrightarrow> trace w' = trace w @ [EffClose fd]"
  by (auto simp: sys_close_def split: prod.splits)

lemma sys_shutdown_trace: "sys_shutdown_wr S fd w = (r, w') \<Longrightarrow> trace w' = trace w @ [EffShutdown fd]"
  by (auto simp: sys_shutdown_wr_def split: prod.splits)

lemma sys_epoll_ctl_trace:
  "sys_epoll_ctl S epfd op fd ev w = (r, w') \<Longrightarrow> trace w' = trace w @ [EffCtl epfd op fd ev r]"
  by (auto simp: sys_epoll_ctl_def split: prod.splits)

lemmas sys_traces = sys_write_trace sys_read_trace sys_close_trace sys_shutdown_trace
  sys_epoll_ctl_trace

text \<open>What a trace says about one descriptor and one connection.\<close>

fun received1 :: "int \<Rightarrow> effect \<Rightarrow> bytes" where
  "received1 fd (EffRead fd' (Inr bs)) = (if fd' = fd then bs else [])"
| "received1 fd _ = []"

fun sent1 :: "int \<Rightarrow> effect \<Rightarrow> bytes" where
  "sent1 fd (EffWrite fd' d (Inr n)) = (if fd' = fd then take n d else [])"
| "sent1 fd _ = []"

fun delivered1 :: "nat \<Rightarrow> effect \<Rightarrow> bytes list" where
  "delivered1 i (EffMessage j f) = (if j = i then [f] else [])"
| "delivered1 i _ = []"

fun submitted1 :: "nat \<Rightarrow> effect \<Rightarrow> bytes" where
  "submitted1 i (EffSubmit j d) = (if j = i then d else [])"
| "submitted1 i _ = []"

fun closes1 :: "int \<Rightarrow> effect \<Rightarrow> nat" where
  "closes1 fd (EffClose fd') = (if fd' = fd then 1 else 0)"
| "closes1 fd _ = 0"

fun goodbyes1 :: "nat \<Rightarrow> effect \<Rightarrow> effect list" where
  "goodbyes1 i (EffConnectClose j) = (if j = i then [EffConnectClose j] else [])"
| "goodbyes1 i (EffPutBuffers j) = (if j = i then [EffPutBuffers j] else [])"
| "goodbyes1 i _ = []"

definition received :: "int \<Rightarrow> effect list \<Rightarrow> bytes" where
  "received fd es = concat (map (received1 fd) es)"

definition sent :: "int \<Rightarrow> effect list \<Rightarrow> bytes" where
  "sent fd es = concat (map (sent1 fd) es)"

definition delivered :: "nat \<Rightarrow> effect list \<Rightarrow> bytes list" where
  "delivered i es = concat (map (delivered1 i) es)"

definition submitted :: "nat \<Rightarrow> effect list \<Rightarrow> bytes" where
  "submitted i es = concat (map (submitted1 i) es)"

definition closes :: "int \<Rightarrow> effect list \<Rightarrow> nat" where
  "closes fd es = sum_list (map (closes1 fd) es)"

definition goodbyes :: "nat \<Rightarrow> effect list \<Rightarrow> effect list" where
  "goodbyes i es = concat (map (goodbyes1 i) es)"

lemma goodbyes_simps [simp]:
  "goodbyes i [] = []" "goodbyes i (e # es) = goodbyes1 i e @ goodbyes i es"
  "goodbyes i (es @ fs) = goodbyes i es @ goodbyes i fs"
  by (simp_all add: goodbyes_def)

lemma submitted_simps [simp]:
  "submitted i [] = []" "submitted i (e # es) = submitted1 i e @ submitted i es"
  "submitted i (es @ fs) = submitted i es @ submitted i fs"
  by (simp_all add: submitted_def)

lemma closes_simps [simp]:
  "closes fd [] = 0" "closes fd (e # es) = closes1 fd e + closes fd es"
  "closes fd (es @ fs) = closes fd es + closes fd fs"
  by (simp_all add: closes_def)

lemma received_append [simp]: "received fd (es @ fs) = received fd es @ received fd fs"
  by (simp add: received_def)

lemma sent_append [simp]: "sent fd (es @ fs) = sent fd es @ sent fd fs"
  by (simp add: sent_def)

lemma delivered_append [simp]: "delivered i (es @ fs) = delivered i es @ delivered i fs"
  by (simp add: delivered_def)

lemma received_simps [simp]: "received fd [] = []" "received fd (e # es) = received1 fd e @ received fd es"
  by (simp_all add: received_def)

lemma sent_simps [simp]: "sent fd [] = []" "sent fd (e # es) = sent1 fd e @ sent fd es"
  by (simp_all add: sent_def)

lemma delivered_simps [simp]:
  "delivered i [] = []" "delivered i (e # es) = delivered1 i e @ delivered i es"
  by (simp_all add: delivered_def)

end
