(* ===== verification/Multiplex.thy ===== *)
theory Multiplex
  imports Kernel
begin

unbundle bit_operations_syntax

text \<open>
  \<open>net/multiplex/epoll.go\<close> (the Linux build) and the event types of \<open>net/protocol/protocol.go\<close>:
  the translation of the program's event masks to epoll's and back, the calls that add, modify
  and remove a descriptor, and the wait loop that hands each reported event to a handler.
\<close>

section \<open>Event masks\<close>

type_synonym EventType = "32 word"

definition EventRead :: EventType where "EventRead = 0x1"
definition EventWrite :: EventType where "EventWrite = 0x2"
definition EventErr :: EventType where "EventErr = 0x80"
definition EventClose :: EventType where "EventClose = 0x100"
definition EventNone :: EventType where "EventNone = 0"

definition WaitEventsNumber :: nat where "WaitEventsNumber = 1024"
definition PollTimeMs :: int where "PollTimeMs = 3000"

text \<open>Linux's values, from \<open>golang.org/x/sys/unix\<close>.\<close>

definition EPOLLIN :: "32 word" where "EPOLLIN = 0x1"
definition EPOLLPRI :: "32 word" where "EPOLLPRI = 0x2"
definition EPOLLOUT :: "32 word" where "EPOLLOUT = 0x4"
definition EPOLLERR :: "32 word" where "EPOLLERR = 0x8"
definition EPOLLRDHUP :: "32 word" where "EPOLLRDHUP = 0x2000"
definition POLLIN :: "32 word" where "POLLIN = 0x1"
definition POLLHUP :: "32 word" where "POLLHUP = 0x10"

definition EPOLL_CTL_ADD :: int where "EPOLL_CTL_ADD = 1"
definition EPOLL_CTL_DEL :: int where "EPOLL_CTL_DEL = 2"
definition EPOLL_CTL_MOD :: int where "EPOLL_CTL_MOD = 3"

definition readEvent_mask :: "32 word" where "readEvent_mask = EPOLLIN OR EPOLLPRI"
definition writeEvent_mask :: "32 word" where "writeEvent_mask = EPOLLOUT"
definition errEvent_mask :: "32 word" where "errEvent_mask = EPOLLERR"
definition nonEvent_mask :: "32 word" where "nonEvent_mask = 0"

lemmas mask_defs = EventRead_def EventWrite_def EventErr_def EventClose_def EventNone_def
  EPOLLIN_def EPOLLPRI_def EPOLLOUT_def EPOLLERR_def EPOLLRDHUP_def POLLIN_def POLLHUP_def
  readEvent_mask_def writeEvent_mask_def errEvent_mask_def nonEvent_mask_def

definition GetEpollEventsFromIOEvent :: "EventType \<Rightarrow> 32 word" where
  "GetEpollEventsFromIOEvent eventType =
     (let e0 = nonEvent_mask;
          e1 = (if eventType AND EventErr > 0 then e0 OR errEvent_mask else e0);
          e2 = (if eventType AND EventRead > 0 then e1 OR readEvent_mask else e1)
      in if eventType AND EventWrite > 0 then e2 OR writeEvent_mask else e2)"

text \<open>The body of the loop over the reported events: epoll's mask to the program's.\<close>

definition ioevent_of_epoll :: "32 word \<Rightarrow> EventType" where
  "ioevent_of_epoll ev =
     (let r0 = 0;
          r1 = (if ev AND POLLHUP \<noteq> 0 \<and> ev AND POLLIN = 0 then r0 OR EventClose else r0);
          r2 = (if ev AND EPOLLERR \<noteq> 0 then r1 OR EventErr else r1);
          r3 = (if ev AND (EPOLLIN OR EPOLLPRI OR EPOLLRDHUP) \<noteq> 0 then r2 OR EventRead else r2)
      in if ev AND EPOLLOUT \<noteq> 0 then r3 OR EventWrite else r3)"

section \<open>The multiplexer\<close>

text \<open>\<open>waitEvents\<close> is only used as a buffer of a certain length.\<close>

record Multiplex =
  mx_fd :: int
  mx_wakeEventFd :: int
  mx_waitEvents_len :: nat

definition newWakeFd ::
  "'k sys \<Rightarrow> int \<Rightarrow> ('k, 'z) world_scheme \<Rightarrow> (errno + int) \<times> ('k, 'z) world_scheme" where
  "newWakeFd S epollFd w =
     (case k_eventfd S (kern w) of
        (Inl e, k) \<Rightarrow> (Inl e, w\<lparr>kern := k\<rparr>)
      | (Inr wakeEventFd, k) \<Rightarrow>
          (case sys_epoll_ctl S epollFd EPOLL_CTL_ADD wakeEventFd EPOLLIN (w\<lparr>kern := k\<rparr>) of
             (Some err, w) \<Rightarrow>
               (let (_, w) = sys_close S epollFd w; (_, w) = sys_close S wakeEventFd w
                in (Inl err, w))
           | (None, w) \<Rightarrow> (Inr wakeEventFd, w)))"

definition Multiplex_New ::
  "'k sys \<Rightarrow> ('k, 'z) world_scheme \<Rightarrow> (errno + Multiplex) \<times> ('k, 'z) world_scheme" where
  "Multiplex_New S w =
     (case k_epoll_create S (kern w) of
        (Inl e, k) \<Rightarrow> (Inl e, w\<lparr>kern := k\<rparr>)
      | (Inr fd, k) \<Rightarrow>
          (case newWakeFd S fd (w\<lparr>kern := k\<rparr>) of
             (Inl err, w) \<Rightarrow> (Inl err, w)
           | (Inr wakeEventFd, w) \<Rightarrow>
               (Inr \<lparr>mx_fd = fd, mx_wakeEventFd = wakeEventFd,
                     mx_waitEvents_len = WaitEventsNumber\<rparr>, w)))"

definition Multiplex_Close ::
  "'k sys \<Rightarrow> Multiplex \<Rightarrow> ('k, 'z) world_scheme \<Rightarrow> ('k, 'z) world_scheme" where
  "Multiplex_Close S m w = snd (sys_close S (mx_wakeEventFd m) (snd (sys_close S (mx_fd m) w)))"

definition epollCtrl ::
  "'k sys \<Rightarrow> Multiplex \<Rightarrow> int \<Rightarrow> int \<Rightarrow> EventType \<Rightarrow> ('k, 'z) world_scheme \<Rightarrow>
     errno option \<times> ('k, 'z) world_scheme" where
  "epollCtrl S m op fd eventType w =
     sys_epoll_ctl S (mx_fd m) op fd (GetEpollEventsFromIOEvent eventType) w"

definition Multiplex_AddEvent ::
  "'k sys \<Rightarrow> Multiplex \<Rightarrow> int \<Rightarrow> EventType \<Rightarrow> EventType \<Rightarrow> ('k, 'z) world_scheme \<Rightarrow>
     errno option \<times> ('k, 'z) world_scheme" where
  "Multiplex_AddEvent S m fd eventState oldEventState w = epollCtrl S m EPOLL_CTL_ADD fd eventState w"

definition Multiplex_RemoveEvent ::
  "'k sys \<Rightarrow> Multiplex \<Rightarrow> int \<Rightarrow> EventType \<Rightarrow> ('k, 'z) world_scheme \<Rightarrow>
     errno option \<times> ('k, 'z) world_scheme" where
  "Multiplex_RemoveEvent S m fd oldEventState w = epollCtrl S m EPOLL_CTL_DEL fd EventNone w"

definition RemoveEventFd ::
  "'k sys \<Rightarrow> Multiplex \<Rightarrow> int \<Rightarrow> ('k, 'z) world_scheme \<Rightarrow> errno option \<times> ('k, 'z) world_scheme" where
  "RemoveEventFd S m fd w = epollCtrl S m EPOLL_CTL_DEL fd EventNone w"

definition Multiplex_ModifyEvent ::
  "'k sys \<Rightarrow> Multiplex \<Rightarrow> int \<Rightarrow> EventType \<Rightarrow> EventType \<Rightarrow> ('k, 'z) world_scheme \<Rightarrow>
     errno option \<times> ('k, 'z) world_scheme" where
  "Multiplex_ModifyEvent S m fd eventState oldEventState w =
     epollCtrl S m EPOLL_CTL_MOD fd eventState w"

definition wakeBytes :: bytes where "wakeBytes = [1, 0, 0, 0, 0, 0, 0, 0]"

definition Multiplex_Wake ::
  "'k sys \<Rightarrow> Multiplex \<Rightarrow> ('k, 'z) world_scheme \<Rightarrow> errno option \<times> ('k, 'z) world_scheme" where
  "Multiplex_Wake S m w = (case sys_write S (mx_wakeEventFd m) wakeBytes w of
     (Inl e, w) \<Rightarrow> (Some e, w) | (Inr _, w) \<Rightarrow> (None, w))"

definition wakeHandlerRead ::
  "'k sys \<Rightarrow> Multiplex \<Rightarrow> ('k, 'z) world_scheme \<Rightarrow> ('k, 'z) world_scheme" where
  "wakeHandlerRead S m w = snd (sys_read S (mx_wakeEventFd m) 8 w)"

text \<open>
  \<open>WaitEvent\<close>: the handler \<open>h\<close> is \<open>embedHandler\<close>, called with the descriptor and the program's
  mask, or with \<open>-1\<close> after a wake-up. The second component is the multiplexer with the buffer
  doubled when it was full.
\<close>

fun wait_loop ::
  "'k sys \<Rightarrow> Multiplex \<Rightarrow> (int \<Rightarrow> EventType \<Rightarrow> ('k, 'z) world_scheme \<Rightarrow> ('k, 'z) world_scheme go) \<Rightarrow>
     (32 word \<times> int) list \<Rightarrow> ('k, 'z) world_scheme \<Rightarrow> ('k, 'z) world_scheme go" where
  "wait_loop S m h [] w = Ret w"
| "wait_loop S m h ((ev, fd) # evs) w =
     (if fd \<noteq> mx_wakeEventFd m then do {
        w \<leftarrow> h fd (ioevent_of_epoll ev) w;
        wait_loop S m h evs w
      } else do {
        w \<leftarrow> h (- 1) 0 (wakeHandlerRead S m w);
        wait_loop S m h evs w
      })"

definition WaitEvent ::
  "'k sys \<Rightarrow> Multiplex \<Rightarrow> (int \<Rightarrow> EventType \<Rightarrow> ('k, 'z) world_scheme \<Rightarrow> ('k, 'z) world_scheme go) \<Rightarrow>
     int \<Rightarrow> ('k, 'z) world_scheme \<Rightarrow> (Multiplex \<times> ('k, 'z) world_scheme) go" where
  "WaitEvent S m h timeMs w =
     (case k_epoll_wait S (mx_fd m) (mx_waitEvents_len m) timeMs (kern w) of
        (Inl e, k) \<Rightarrow> Ret (m, w\<lparr>kern := k\<rparr>)
      | (Inr evs, k) \<Rightarrow> do {
          w \<leftarrow> wait_loop S m h evs (w\<lparr>kern := k\<rparr>);
          Ret (if length evs = mx_waitEvents_len m
               then m\<lparr>mx_waitEvents_len := length evs * 2\<rparr> else m, w)
        })"

section \<open>The masks bit by bit\<close>

lemma mask_bits: "EventRead = 2 ^ 0" "EventWrite = 2 ^ 1" "EventErr = 2 ^ 7" "EventClose = 2 ^ 8"
  "EventNone = 0"
  by (simp_all add: mask_defs)

lemma and_bit_pos: "(e AND 2 ^ n > 0) = bit e n" for e :: "'a::len word"
  by (simp add: word_gt_0 and_exp_eq_0_iff_not_bit)

lemma bit_pow_word: "bit (2 ^ k :: 32 word) n \<longleftrightarrow> n = k" if "k < 32"
  using that by (auto simp: bit_exp_iff)

lemma bit_masks:
  "bit EventRead n \<longleftrightarrow> n = 0" "bit EventWrite n \<longleftrightarrow> n = 1" "bit EventErr n \<longleftrightarrow> n = 7"
  "bit EventClose n \<longleftrightarrow> n = 8" "bit EPOLLIN n \<longleftrightarrow> n = 0" "bit EPOLLPRI n \<longleftrightarrow> n = 1"
  "bit EPOLLOUT n \<longleftrightarrow> n = 2" "bit EPOLLERR n \<longleftrightarrow> n = 3" "bit EPOLLRDHUP n \<longleftrightarrow> n = 13"
  "bit nonEvent_mask n = False"
  using bit_pow_word [of 0 n] bit_pow_word [of 1 n] bit_pow_word [of 2 n] bit_pow_word [of 3 n]
    bit_pow_word [of 7 n] bit_pow_word [of 8 n] bit_pow_word [of 13 n]
  by (simp_all add: mask_defs)

lemma epoll_tests:
  "ev AND POLLHUP = 0 \<longleftrightarrow> \<not> bit ev 4" "ev AND POLLIN = 0 \<longleftrightarrow> \<not> bit ev 0"
  "ev AND EPOLLERR = 0 \<longleftrightarrow> \<not> bit ev 3" "ev AND EPOLLOUT = 0 \<longleftrightarrow> \<not> bit ev 2"
  "ev AND (EPOLLIN OR EPOLLPRI OR EPOLLRDHUP) = 0 \<longleftrightarrow> \<not> (bit ev 0 \<or> bit ev 1 \<or> bit ev 13)"
proof -
  have masks: "POLLHUP = 2 ^ 4" "POLLIN = 2 ^ 0" "EPOLLERR = 2 ^ 3" "EPOLLOUT = 2 ^ 2"
    "EPOLLIN = 2 ^ 0" "EPOLLPRI = 2 ^ 1" "EPOLLRDHUP = 2 ^ 13" by (simp_all add: mask_defs)
  show "ev AND POLLHUP = 0 \<longleftrightarrow> \<not> bit ev 4" "ev AND POLLIN = 0 \<longleftrightarrow> \<not> bit ev 0"
    "ev AND EPOLLERR = 0 \<longleftrightarrow> \<not> bit ev 3" "ev AND EPOLLOUT = 0 \<longleftrightarrow> \<not> bit ev 2"
    unfolding masks and_exp_eq_0_iff_not_bit by rule+
  show "ev AND (EPOLLIN OR EPOLLPRI OR EPOLLRDHUP) = 0 \<longleftrightarrow> \<not> (bit ev 0 \<or> bit ev 1 \<or> bit ev 13)"
    unfolding bit.conj_disj_distrib or_eq_0_iff masks and_exp_eq_0_iff_not_bit by simp
qed

lemma event_tests:
  "e AND EventErr > 0 \<longleftrightarrow> bit e 7" "e AND EventRead > 0 \<longleftrightarrow> bit e 0" "e AND EventWrite > 0 \<longleftrightarrow> bit e 1"
  unfolding mask_bits and_bit_pos by rule+

lemma bit_epoll_of_event:
  "bit (GetEpollEventsFromIOEvent e) n \<longleftrightarrow>
     (n = 3 \<and> bit e 7) \<or> (n \<in> {0, 1} \<and> bit e 0) \<or> (n = 2 \<and> bit e 1)"
  unfolding GetEpollEventsFromIOEvent_def Let_def event_tests
  by (auto simp: bit_or_iff readEvent_mask_def writeEvent_mask_def errEvent_mask_def bit_masks)

lemma bit_event_of_epoll:
  "bit (ioevent_of_epoll ev) n \<longleftrightarrow>
     (n = 8 \<and> bit ev 4 \<and> \<not> bit ev 0) \<or> (n = 7 \<and> bit ev 3) \<or>
     (n = 0 \<and> (bit ev 0 \<or> bit ev 1 \<or> bit ev 13)) \<or> (n = 1 \<and> bit ev 2)"
  unfolding ioevent_of_epoll_def Let_def epoll_tests by (auto simp: bit_or_iff bit_masks)

text \<open>What was asked for comes back: the kernel's report of a mask is the program's own mask.\<close>

lemma event_epoll_event:
  "ioevent_of_epoll (GetEpollEventsFromIOEvent e) = e AND (EventRead OR EventWrite OR EventErr)"
  by (rule bit_word_eqI)
     (auto simp: bit_event_of_epoll bit_epoll_of_event bit_and_iff bit_or_iff bit_masks)

end
