(* ===== verification/Event.thy ===== *)
theory Event
  imports Multiplex
begin

unbundle bit_operations_syntax

text \<open>
  \<open>net/event_loop/event.go\<close> and \<open>event_ctrl.go\<close>: an \<open>Event\<close> is a descriptor with the mask the
  program wants (\<open>events\<close>), the mask before the last change (\<open>oldEvents\<close>) and four handlers; the
  event controller maps descriptors to events and passes changes to the multiplexer. Closures
  are named by the constructors of \<open>handler\<close> and \<open>task\<close>, pointers to events by \<open>eventptr\<close>. The
  loop-owned part of the state is a \<open>loop\<close>, a world with the fields of \<open>EventLoop\<close> and
  \<open>EventCtrl\<close>.
\<close>

section \<open>Closures and pointers\<close>

text \<open>Handlers set on events: the acceptor's, and the four methods of connection \<open>i\<close>.\<close>

datatype handler =
    AcceptHandle | ReadHandler nat | WriteHandler nat | ErrHandler nat | CloseHandler nat

text \<open>
  Functions handed to \<open>RunInLoop\<close>: \<open>Close\<close> and \<open>WriteInSelfLoop\<close> of connection \<open>i\<close>, the closure
  of \<open>newConnected\<close> for connection \<open>i\<close>, and the one of \<open>Accept.Close\<close>.
\<close>

datatype task =
    TaskCloseEvent nat | TaskWrite nat bytes | TaskConnected nat | TaskAcceptClose

text \<open>The connection a closure is a method of, or captures.\<close>

fun handler_conn :: "handler \<Rightarrow> nat option" where
  "handler_conn AcceptHandle = None"
| "handler_conn (ReadHandler i) = Some i"
| "handler_conn (WriteHandler i) = Some i"
| "handler_conn (ErrHandler i) = Some i"
| "handler_conn (CloseHandler i) = Some i"

fun task_conn :: "task \<Rightarrow> nat option" where
  "task_conn (TaskCloseEvent i) = Some i"
| "task_conn (TaskWrite i b) = Some i"
| "task_conn (TaskConnected i) = Some i"
| "task_conn TaskAcceptClose = None"

datatype eventptr = AcceptorEvent | ConnEvent nat

record Event =
  eventFd :: int
  eventAddr :: eventptr
  events :: EventType
  oldEvents :: EventType
  readHandle :: "handler option"
  writeHandle :: "handler option"
  errorHandle :: "handler option"
  closeHandle :: "handler option"

record 'k loop = "'k world" +
  SequenceID :: int
  eventPool :: "int \<rightharpoonup> eventptr"
  multi :: Multiplex
  loopFunctions :: "task list"
  running :: "32 word"

definition NewEvent :: "eventptr \<Rightarrow> int \<Rightarrow> Event" where
  "NewEvent p fd =
     \<lparr>eventFd = fd, eventAddr = p, events = 0, oldEvents = 0, readHandle = None,
      writeHandle = None, errorHandle = None, closeHandle = None\<rparr>"

text \<open>The accessors of an event.\<close>

definition GetFd :: "Event \<Rightarrow> int" where
  "GetFd e = eventFd e"

definition GetEvents :: "Event \<Rightarrow> EventType" where
  "GetEvents e = events e"

definition GetOldEvents :: "Event \<Rightarrow> EventType" where
  "GetOldEvents e = oldEvents e"

definition SetReadFunc :: "handler \<Rightarrow> Event \<Rightarrow> Event" where
  "SetReadFunc f e = e\<lparr>readHandle := Some f\<rparr>"

definition SetWriteFunc :: "handler \<Rightarrow> Event \<Rightarrow> Event" where
  "SetWriteFunc f e = e\<lparr>writeHandle := Some f\<rparr>"

definition SetErrorFunc :: "handler \<Rightarrow> Event \<Rightarrow> Event" where
  "SetErrorFunc f e = e\<lparr>errorHandle := Some f\<rparr>"

definition SetCloseFunc :: "handler \<Rightarrow> Event \<Rightarrow> Event" where
  "SetCloseFunc f e = e\<lparr>closeHandle := Some f\<rparr>"

lemmas event_access [simp] =
  GetFd_def GetEvents_def GetOldEvents_def SetReadFunc_def SetWriteFunc_def SetErrorFunc_def SetCloseFunc_def

section \<open>The event controller\<close>

definition EventCtrl_Stop :: "'k sys \<Rightarrow> ('k, 'z) loop_scheme \<Rightarrow> ('k, 'z) loop_scheme" where
  "EventCtrl_Stop S w = Multiplex_Close S (multi w) w"

definition EventCtrl_wake ::
  "'k sys \<Rightarrow> ('k, 'z) loop_scheme \<Rightarrow> errno option \<times> ('k, 'z) loop_scheme" where
  "EventCtrl_wake S w = Multiplex_Wake S (multi w) w"

definition EventCtrl_addEvent ::
  "'k sys \<Rightarrow> Event \<Rightarrow> ('k, 'z) loop_scheme \<Rightarrow> errno option \<times> ('k, 'z) loop_scheme" where
  "EventCtrl_addEvent S e w =
     Multiplex_AddEvent S (multi w) (GetFd e) (GetEvents e) (GetOldEvents e)
       (w\<lparr>eventPool := (eventPool w)(GetFd e \<mapsto> eventAddr e)\<rparr>)"

definition EventCtrl_removeEvent ::
  "'k sys \<Rightarrow> Event \<Rightarrow> ('k, 'z) loop_scheme \<Rightarrow> errno option \<times> ('k, 'z) loop_scheme" where
  "EventCtrl_removeEvent S e w =
     Multiplex_RemoveEvent S (multi w) (GetFd e) (GetOldEvents e)
       (if eventPool w (GetFd e) \<noteq> None
        then w\<lparr>eventPool := (eventPool w)(GetFd e := None)\<rparr> else w)"

definition EventCtrl_modifyEvent ::
  "'k sys \<Rightarrow> Event \<Rightarrow> ('k, 'z) loop_scheme \<Rightarrow> errno option \<times> ('k, 'z) loop_scheme" where
  "EventCtrl_modifyEvent S e w =
     Multiplex_ModifyEvent S (multi w) (GetFd e) (GetEvents e) (GetOldEvents e) w"

text \<open>The loop (\<open>event_loop.go\<close>) passes on to its controller.\<close>

definition EventLoop_addEvent ::
  "'k sys \<Rightarrow> Event \<Rightarrow> ('k, 'z) loop_scheme \<Rightarrow> errno option \<times> ('k, 'z) loop_scheme" where
  "EventLoop_addEvent S e w = EventCtrl_addEvent S e w"

definition EventLoop_removeEvent ::
  "'k sys \<Rightarrow> Event \<Rightarrow> ('k, 'z) loop_scheme \<Rightarrow> errno option \<times> ('k, 'z) loop_scheme" where
  "EventLoop_removeEvent S e w = EventCtrl_removeEvent S e w"

definition EventLoop_modifyEvent ::
  "'k sys \<Rightarrow> Event \<Rightarrow> ('k, 'z) loop_scheme \<Rightarrow> errno option \<times> ('k, 'z) loop_scheme" where
  "EventLoop_modifyEvent S e w = EventCtrl_modifyEvent S e w"

lemmas loop_event_defs [simp] = EventLoop_addEvent_def EventLoop_removeEvent_def EventLoop_modifyEvent_def

section \<open>Operations of an event\<close>

definition Register ::
  "'k sys \<Rightarrow> Event \<Rightarrow> ('k, 'z) loop_scheme \<Rightarrow> errno option \<times> ('k, 'z) loop_scheme" where
  "Register S e w = EventLoop_addEvent S e w"

definition UnRegister ::
  "'k sys \<Rightarrow> Event \<Rightarrow> ('k, 'z) loop_scheme \<Rightarrow> errno option \<times> ('k, 'z) loop_scheme" where
  "UnRegister S e w = EventLoop_removeEvent S e w"

text \<open>\<open>update\<close>, then the changed event is returned with the error and the world.\<close>

definition Event_update ::
  "'k sys \<Rightarrow> Event \<Rightarrow> ('k, 'z) loop_scheme \<Rightarrow> errno option \<times> Event \<times> ('k, 'z) loop_scheme" where
  "Event_update S e w = (case EventLoop_modifyEvent S e w of (err, w) \<Rightarrow> (err, e, w))"

definition set_mask :: "EventType \<Rightarrow> bool \<Rightarrow> Event \<Rightarrow> Event" where
  "set_mask bits isEnable e =
     e\<lparr>oldEvents := events e,
       events := (if isEnable then events e OR bits else events e AND NOT bits)\<rparr>"

definition EnableReading ::
  "'k sys \<Rightarrow> bool \<Rightarrow> Event \<Rightarrow> ('k, 'z) loop_scheme \<Rightarrow>
     errno option \<times> Event \<times> ('k, 'z) loop_scheme" where
  "EnableReading S isEnable e w = Event_update S (set_mask EventRead isEnable e) w"

definition EnableWriting ::
  "'k sys \<Rightarrow> bool \<Rightarrow> Event \<Rightarrow> ('k, 'z) loop_scheme \<Rightarrow>
     errno option \<times> Event \<times> ('k, 'z) loop_scheme" where
  "EnableWriting S isEnable e w = Event_update S (set_mask EventWrite isEnable e) w"

definition EnableErrorEvent ::
  "'k sys \<Rightarrow> bool \<Rightarrow> Event \<Rightarrow> ('k, 'z) loop_scheme \<Rightarrow>
     errno option \<times> Event \<times> ('k, 'z) loop_scheme" where
  "EnableErrorEvent S isEnable e w = Event_update S (set_mask EventErr isEnable e) w"

definition DisableAll ::
  "'k sys \<Rightarrow> Event \<Rightarrow> ('k, 'z) loop_scheme \<Rightarrow> errno option \<times> Event \<times> ('k, 'z) loop_scheme" where
  "DisableAll S e w = Event_update S (e\<lparr>oldEvents := events e, events := EventNone\<rparr>) w"

definition IsWriting :: "Event \<Rightarrow> bool" where
  "IsWriting e = (if events e AND EventWrite = EventNone then False else True)"

definition IsReading :: "Event \<Rightarrow> bool" where
  "IsReading e = (if events e AND EventRead = EventNone then False else True)"

text \<open>\<open>HandleEvent\<close>: the closure it calls, if it calls one.\<close>

definition HandleEvent :: "Event \<Rightarrow> EventType \<Rightarrow> handler option" where
  "HandleEvent e revents =
     (if revents AND EventClose \<noteq> EventNone then closeHandle e
      else if revents AND EventErr \<noteq> EventNone then errorHandle e
      else if revents AND EventWrite \<noteq> EventNone then writeHandle e
      else if revents AND EventRead \<noteq> EventNone then readHandle e
      else None)"

text \<open>
  \<open>handlerEventWrap\<close>: \<open>deref\<close> reads the event a pointer points to, \<open>run\<close> runs a closure.
\<close>

definition handlerEventWrap ::
  "(eventptr \<Rightarrow> ('k, 'z) loop_scheme \<Rightarrow> Event option) \<Rightarrow>
   (handler \<Rightarrow> ('k, 'z) loop_scheme \<Rightarrow> ('k, 'z) loop_scheme go) \<Rightarrow>
     int \<Rightarrow> EventType \<Rightarrow> ('k, 'z) loop_scheme \<Rightarrow> ('k, 'z) loop_scheme go" where
  "handlerEventWrap deref run fd eventType w =
     (if fd \<noteq> - 1 then
        (case Option.bind (eventPool w fd) (\<lambda>p. deref p w) of
           None \<Rightarrow> Ret w
         | Some e \<Rightarrow> (case HandleEvent e eventType of None \<Rightarrow> Ret w | Some f \<Rightarrow> run f w))
      else Ret w)"

section \<open>Lemmas\<close>

lemma set_mask_simps [simp]:
  "eventFd (set_mask b x e) = eventFd e" "eventAddr (set_mask b x e) = eventAddr e"
  "oldEvents (set_mask b x e) = events e"
  "readHandle (set_mask b x e) = readHandle e" "writeHandle (set_mask b x e) = writeHandle e"
  "errorHandle (set_mask b x e) = errorHandle e" "closeHandle (set_mask b x e) = closeHandle e"
  by (simp_all add: set_mask_def)

lemma events_set_mask:
  "events (set_mask b x e) = (if x then events e OR b else events e AND NOT b)"
  by (simp add: set_mask_def)

lemmas event_op_defs = EnableReading_def EnableWriting_def EnableErrorEvent_def DisableAll_def

end
