(* ===== verification/EventLoop.thy ===== *)
theory EventLoop
  imports Event
begin

text \<open>
  \<open>net/event_loop/event_loop.go\<close>: the queue of functions handed to a loop from other
  goroutines, one pass of the loop and \<open>Run\<close>. \<open>protocol.Bool\<close> is a 32-bit word that is 1 for true.
  \<open>Stop\<close> and the interleavings of the loop's goroutine with its callers are in \<open>LoopProtocol\<close>.
\<close>

section \<open>Atomic variables (\<open>net/protocol/bool.go\<close>)\<close>

definition Bool_Set :: "bool \<Rightarrow> 32 word \<Rightarrow> bool \<times> 32 word" where
  "Bool_Set b a = (let newV = (if b then 1 else 0) in (a = 1, newV))"

definition Bool_Get :: "32 word \<Rightarrow> bool" where
  "Bool_Get a = (a = 1)"

definition Int64_Add :: "64 word \<Rightarrow> 64 word \<Rightarrow> 64 word \<times> 64 word" where
  "Int64_Add i a = (a + i, a + i)"

definition Int64_Swap :: "64 word \<Rightarrow> 64 word \<Rightarrow> 64 word \<times> 64 word" where
  "Int64_Swap i a = (a, i)"

definition Int64_Get :: "64 word \<Rightarrow> 64 word" where
  "Int64_Get a = a"

lemma Bool_Get_Set [simp]: "Bool_Get (snd (Bool_Set b a)) = b"
  by (simp add: Bool_Get_def Bool_Set_def)

lemma Bool_Set_old [simp]: "fst (Bool_Set b a) = Bool_Get a"
  by (simp add: Bool_Get_def Bool_Set_def)

section \<open>Creation, the function queue, one pass\<close>

definition NewEventCtrl ::
  "'k sys \<Rightarrow> ('k, 'z) world_scheme \<Rightarrow>
     (errno + Multiplex \<times> (int \<rightharpoonup> eventptr)) \<times> ('k, 'z) world_scheme" where
  "NewEventCtrl S w = (case Multiplex_New S w of
     (Inl err, w) \<Rightarrow> (Inl err, w)
   | (Inr m, w) \<Rightarrow> (Inr (m, Map.empty), w))"

definition EventLoop_New :: "'k sys \<Rightarrow> int \<Rightarrow> 'k world \<Rightarrow> (errno + 'k loop) \<times> 'k world" where
  "EventLoop_New S sequenceID w = (case NewEventCtrl S w of
     (Inl err, w) \<Rightarrow> (Inl err, w)
   | (Inr (m, pool), w) \<Rightarrow>
       (Inr \<lparr>kern = kern w, trace = trace w, SequenceID = sequenceID, eventPool = pool,
             multi = m, loopFunctions = [], running = 0\<rparr>, w))"

definition EventLoop_wake ::
  "'k sys \<Rightarrow> ('k, 'z) loop_scheme \<Rightarrow> errno option \<times> ('k, 'z) loop_scheme" where
  "EventLoop_wake S w = EventCtrl_wake S w"

lemmas wake_defs [simp] = EventLoop_wake_def EventCtrl_wake_def EventCtrl_Stop_def

definition RunInLoop :: "'k sys \<Rightarrow> task \<Rightarrow> ('k, 'z) loop_scheme \<Rightarrow> ('k, 'z) loop_scheme" where
  "RunInLoop S f w =
     snd (EventLoop_wake S (w\<lparr>loopFunctions := loopFunctions w @ [f]\<rparr>))"

fun run_functions ::
  "(task \<Rightarrow> ('k, 'z) loop_scheme \<Rightarrow> ('k, 'z) loop_scheme go) \<Rightarrow> task list \<Rightarrow>
     ('k, 'z) loop_scheme \<Rightarrow> ('k, 'z) loop_scheme go" where
  "run_functions exec [] w = Ret w"
| "run_functions exec (f # fs) w = do { w \<leftarrow> exec f w; run_functions exec fs w }"

definition runAllFunctionInLoop ::
  "(task \<Rightarrow> ('k, 'z) loop_scheme \<Rightarrow> ('k, 'z) loop_scheme go) \<Rightarrow>
     ('k, 'z) loop_scheme \<Rightarrow> ('k, 'z) loop_scheme go" where
  "runAllFunctionInLoop exec w = run_functions exec (loopFunctions w) (w\<lparr>loopFunctions := []\<rparr>)"

definition waitAndRunHandle ::
  "'k sys \<Rightarrow> (eventptr \<Rightarrow> ('k, 'z) loop_scheme \<Rightarrow> Event option) \<Rightarrow>
   (handler \<Rightarrow> ('k, 'z) loop_scheme \<Rightarrow> ('k, 'z) loop_scheme go) \<Rightarrow>
     int \<Rightarrow> ('k, 'z) loop_scheme \<Rightarrow> ('k, 'z) loop_scheme go" where
  "waitAndRunHandle S deref run PollMs w = do {
     (m, w) \<leftarrow> WaitEvent S (multi w) (handlerEventWrap deref run) PollMs w;
     Ret (w\<lparr>multi := m\<rparr>)
   }"

text \<open>
  One pass of \<open>Run\<close>: wait and run handlers, run the queued functions, and whether to go on;
  \<open>Run\<close> repeats it and has no result while it goes on for ever.
\<close>

definition Run_pass ::
  "'k sys \<Rightarrow> (eventptr \<Rightarrow> ('k, 'z) loop_scheme \<Rightarrow> Event option) \<Rightarrow>
   (handler \<Rightarrow> ('k, 'z) loop_scheme \<Rightarrow> ('k, 'z) loop_scheme go) \<Rightarrow>
   (task \<Rightarrow> ('k, 'z) loop_scheme \<Rightarrow> ('k, 'z) loop_scheme go) \<Rightarrow>
     ('k, 'z) loop_scheme \<Rightarrow> (bool \<times> ('k, 'z) loop_scheme) go" where
  "Run_pass S deref run exec w = do {
     w \<leftarrow> waitAndRunHandle S deref run PollTimeMs w;
     w \<leftarrow> runAllFunctionInLoop exec w;
     Ret (Bool_Get (running w), w)
   }"

partial_function (option) Run_loop ::
  "'k sys \<Rightarrow> (eventptr \<Rightarrow> ('k, 'z) loop_scheme \<Rightarrow> Event option) \<Rightarrow>
   (handler \<Rightarrow> ('k, 'z) loop_scheme \<Rightarrow> ('k, 'z) loop_scheme go) \<Rightarrow>
   (task \<Rightarrow> ('k, 'z) loop_scheme \<Rightarrow> ('k, 'z) loop_scheme go) \<Rightarrow>
     ('k, 'z) loop_scheme \<Rightarrow> ('k, 'z) loop_scheme go" where
  "Run_loop S deref run exec w =
     Option.bind (Run_pass S deref run exec w)
       (\<lambda>(go_on, w). if go_on then Run_loop S deref run exec w else Ret w)"

definition Run ::
  "'k sys \<Rightarrow> (eventptr \<Rightarrow> ('k, 'z) loop_scheme \<Rightarrow> Event option) \<Rightarrow>
   (handler \<Rightarrow> ('k, 'z) loop_scheme \<Rightarrow> ('k, 'z) loop_scheme go) \<Rightarrow>
   (task \<Rightarrow> ('k, 'z) loop_scheme \<Rightarrow> ('k, 'z) loop_scheme go) \<Rightarrow>
     ('k, 'z) loop_scheme \<Rightarrow> ('k, 'z) loop_scheme go" where
  "Run S deref run exec w =
     Run_loop S deref run exec (w\<lparr>running := snd (Bool_Set True (running w))\<rparr>)"

section \<open>Lemmas\<close>

lemma loopFunctions_world [simp]:
  "loopFunctions (kern_update f w) = loopFunctions w"
  "loopFunctions (emit e w) = loopFunctions w"
  by (simp_all add: emit_def)

lemma loopFunctions_RunInLoop [simp]: "loopFunctions (RunInLoop S f w) = loopFunctions w @ [f]"
  by (auto simp: RunInLoop_def Multiplex_Wake_def sys_write_def split: prod.splits sum.splits)

end
