(* ===== verification/Binary.thy ===== *)
theory Binary
  imports Prelude
begin

unbundle bit_operations_syntax

text \<open>
  The part of Go's \<open>encoding/binary\<close> the codecs use: \<open>LittleEndian\<close> and \<open>BigEndian\<close> with
  \<open>PutUint16/32/64\<close> and \<open>Uint16/32/64\<close>, and the round trip between them. \<open>put_le n v\<close> are
  the \<open>n\<close> low bytes of \<open>v\<close>, least significant first; \<open>get_le\<close> reads such bytes back.
\<close>

datatype byte_order = LittleEndian | BigEndian

definition put_le :: "nat \<Rightarrow> 'a::len word \<Rightarrow> bytes" where
  "put_le n v = map (\<lambda>i. ucast (drop_bit (8 * i) v)) [0..<n]"

fun get_le :: "bytes \<Rightarrow> 'a::len word" where
  "get_le [] = 0"
| "get_le (b # bs) = ucast b OR push_bit 8 (get_le bs)"

definition PutUint :: "byte_order \<Rightarrow> nat \<Rightarrow> 'a::len word \<Rightarrow> bytes" where
  "PutUint bo n v = (case bo of LittleEndian \<Rightarrow> put_le n v | BigEndian \<Rightarrow> rev (put_le n v))"

definition Uint :: "byte_order \<Rightarrow> bytes \<Rightarrow> 'a::len word" where
  "Uint bo b = (case bo of LittleEndian \<Rightarrow> get_le b | BigEndian \<Rightarrow> get_le (rev b))"

lemma length_put_le [simp]: "length (put_le n v) = n"
  by (simp add: put_le_def)

lemma length_PutUint [simp]: "length (PutUint bo n v) = n"
  by (simp add: PutUint_def split: byte_order.splits)

lemma nth_put_le [simp]: "i < n \<Longrightarrow> put_le n v ! i = ucast (drop_bit (8 * i) v)"
  by (simp add: put_le_def)

lemma bit_get_le:
  "bit (get_le bs :: 'a::len word) i \<longleftrightarrow>
     i < LENGTH('a) \<and> i < 8 * length bs \<and> bit (bs ! (i div 8)) (i mod 8)"
proof (induction bs arbitrary: i)
  case Nil
  then show ?case by simp
next
  case (Cons b bs)
  show ?case
  proof (cases "i < 8")
    case True
    then show ?thesis
      by (auto simp: bit_or_iff bit_push_bit_iff bit_ucast_iff)
  next
    case False
    then obtain j where j: "i = j + 8" by (metis le_Suc_ex add.commute not_less)
    then have idx: "i div 8 = Suc (j div 8)" "i mod 8 = j mod 8" by simp_all
    have "\<not> bit b (j + 8)" using bit_imp_le_length [of b "j + 8"] by auto
    then have "bit (get_le (b # bs) :: 'a word) i \<longleftrightarrow> i < LENGTH('a) \<and> bit (get_le bs :: 'a word) j"
      using j by (auto simp: bit_or_iff bit_push_bit_iff bit_ucast_iff)
    also have "\<dots> \<longleftrightarrow> i < LENGTH('a) \<and> i < 8 * length (b # bs) \<and> bit ((b # bs) ! (i div 8)) (i mod 8)"
      unfolding idx Cons.IH [of j] using j by auto
    finally show ?thesis .
  qed
qed

text \<open>Reading back \<open>n\<close> bytes of \<open>v\<close> gives the low \<open>8 n\<close> bits of \<open>v\<close>.\<close>

lemma get_put_le: "(get_le (put_le n v) :: 'a::len word) = take_bit (8 * n) v"
proof (rule bit_word_eqI)
  fix i
  assume i: "i < LENGTH('a)"
  have "i div 8 < n \<longleftrightarrow> i < 8 * n" by auto
  moreover have "8 * (i div 8) + i mod 8 = i" by simp
  ultimately show "bit (get_le (put_le n v) :: 'a word) i \<longleftrightarrow> bit (take_bit (8 * n) v) i"
    using i by (auto simp: bit_get_le bit_take_bit_iff bit_ucast_iff bit_drop_bit_eq)
qed

lemma Uint_PutUint: "(Uint bo (PutUint bo n v) :: 'a::len word) = take_bit (8 * n) v"
  by (cases bo) (simp_all add: Uint_def PutUint_def get_put_le)

lemma uint_Uint_PutUint:
  assumes "0 \<le> L" "L < 2 ^ (8 * n)" "8 * n \<le> LENGTH('a)"
  shows "uint (Uint bo (PutUint bo n (word_of_int L :: 'a::len word)) :: 'a word) = L"
proof -
  have "uint (take_bit (8 * n) (word_of_int L :: 'a word)) = take_bit (8 * n) (take_bit LENGTH('a) L)"
    by (simp add: unsigned_take_bit_eq uint_word_of_int_eq)
  also have "\<dots> = take_bit (8 * n) L" using assms(3) by (simp add: min_absorb1)
  also have "\<dots> = L" using assms by (simp add: take_bit_int_eq_self)
  finally show ?thesis by (simp add: Uint_PutUint)
qed

end
