(* ===== verification/Codec.thy ===== *)
theory Codec
  imports Binary
begin

unbundle bit_operations_syntax

text \<open>
  The frame codecs of \<open>net/protocol/codec.go\<close> over the \<open>Conn\<close> interface, and the error
  values of \<open>net/protocol/errors.go\<close>. A Go result \<open>([]byte, error)\<close> is \<open>Inl err\<close>, or \<open>Inr f\<close>
  with \<open>f = None\<close> for the nil slice. \<open>Panic\<close> is a run-time panic of the codec.
\<close>

section \<open>Errors\<close>

text \<open>The last four are the anonymous \<open>errors.New\<close> and \<open>fmt.Errorf\<close> values of codec.go.\<close>

datatype go_error =
    ErrProtocolNotSupported | errServerShutdown | errInvalidFixedLength | errUnexpectedEOF
  | errDelimiterNotFound | ErrCRLFNotFound | errUnsupportedLength | errTooLessLength
  | errZeroOrNegative | errExceedingBuffer
  | errDoesNotFit string int

section \<open>The connection a codec decodes from\<close>

record 'c Conn =
  Conn_Read :: "'c \<Rightarrow> (bytes \<times> 'c) go"
  Conn_ResetBuffer :: "'c \<Rightarrow> 'c go"
  Conn_ReadN :: "int \<Rightarrow> 'c \<Rightarrow> ((int \<times> bytes) \<times> 'c) go"
  Conn_ShiftN :: "int \<Rightarrow> 'c \<Rightarrow> (int \<times> 'c) go"
  Conn_BufferLength :: "'c \<Rightarrow> int"

type_synonym 'c decoded = "((go_error + bytes option) \<times> 'c) go"

definition CRLFByte :: byte where "CRLFByte = 10"

section \<open>Codec configurations and dynamic types\<close>

record EncoderConfig =
  ec_ByteOrder :: "byte_order option"
  ec_LengthFieldLength :: int
  ec_LengthAdjustment :: int
  ec_LengthIncludesLengthFieldLength :: bool

record DecoderConfig =
  dc_ByteOrder :: "byte_order option"
  dc_LengthFieldOffset :: int
  dc_LengthFieldLength :: int
  dc_LengthAdjustment :: int
  dc_InitialBytesToStrip :: int

text \<open>The dynamic types behind \<open>ICodec\<close>; the constructors are the \<open>New...Codec\<close> functions.\<close>

datatype ICodec =
    BuiltInFrameCodec
  | LineBasedFrameCodec
  | DelimiterBasedFrameCodec byte
  | FixedLengthFrameCodec int
  | LengthFieldBasedFrameCodec EncoderConfig DecoderConfig

section \<open>Built-in, line, delimiter and fixed-length codecs\<close>

definition BuiltInFrameCodec_Encode :: "bytes \<Rightarrow> (go_error + bytes) go" where
  "BuiltInFrameCodec_Encode buf = Ret (Inr buf)"

definition BuiltInFrameCodec_Decode :: "'c Conn \<Rightarrow> 'c \<Rightarrow> 'c decoded" where
  "BuiltInFrameCodec_Decode I c = do {
     (buf, c) \<leftarrow> Conn_Read I c;
     c \<leftarrow> Conn_ResetBuffer I c;
     Ret (Inr (if length buf = 0 then None else Some buf), c)
   }"

definition LineBasedFrameCodec_Encode :: "bytes \<Rightarrow> (go_error + bytes) go" where
  "LineBasedFrameCodec_Encode buf = Ret (Inr (buf @ [CRLFByte]))"

definition LineBasedFrameCodec_Decode :: "'c Conn \<Rightarrow> 'c \<Rightarrow> 'c decoded" where
  "LineBasedFrameCodec_Decode I c = do {
     (buf, c) \<leftarrow> Conn_Read I c;
     let idx = IndexByte buf CRLFByte;
     if idx = - 1 then Ret (Inl ErrCRLFNotFound, c)
     else do {
       (_, c) \<leftarrow> Conn_ShiftN I (idx + 1) c;
       f \<leftarrow> slice_to buf idx;
       Ret (Inr (Some f), c)
     }
   }"

definition DelimiterBasedFrameCodec_Encode :: "byte \<Rightarrow> bytes \<Rightarrow> (go_error + bytes) go" where
  "DelimiterBasedFrameCodec_Encode d buf = Ret (Inr (buf @ [d]))"

definition DelimiterBasedFrameCodec_Decode :: "byte \<Rightarrow> 'c Conn \<Rightarrow> 'c \<Rightarrow> 'c decoded" where
  "DelimiterBasedFrameCodec_Decode d I c = do {
     (buf, c) \<leftarrow> Conn_Read I c;
     let idx = IndexByte buf d;
     if idx = - 1 then Ret (Inl errDelimiterNotFound, c)
     else do {
       (_, c) \<leftarrow> Conn_ShiftN I (idx + 1) c;
       f \<leftarrow> slice_to buf idx;
       Ret (Inr (Some f), c)
     }
   }"

text \<open>\<open>len(buf)\<close> modulo a zero frame length is an integer division by zero.\<close>

definition FixedLengthFrameCodec_Encode :: "int \<Rightarrow> bytes \<Rightarrow> (go_error + bytes) go" where
  "FixedLengthFrameCodec_Encode frameLength buf =
     (if frameLength = 0 then Panic
      else if int (length buf) mod frameLength \<noteq> 0 then Ret (Inl errInvalidFixedLength)
      else Ret (Inr buf))"

definition FixedLengthFrameCodec_Decode :: "int \<Rightarrow> 'c Conn \<Rightarrow> 'c \<Rightarrow> 'c decoded" where
  "FixedLengthFrameCodec_Decode frameLength I c = do {
     ((size, buf), c) \<leftarrow> Conn_ReadN I frameLength c;
     if size = 0 then Ret (Inl errUnexpectedEOF, c)
     else do {
       (_, c) \<leftarrow> Conn_ShiftN I size c;
       Ret (Inr (Some buf), c)
     }
   }"

section \<open>The length field codec\<close>

text \<open>\<open>byteOrder == binary.LittleEndian\<close> is false for a nil byte order.\<close>

definition writeUint24 :: "byte_order option \<Rightarrow> int \<Rightarrow> bytes" where
  "writeUint24 byteOrder v =
     (if byteOrder = Some LittleEndian
      then [word_of_int v, word_of_int (drop_bit 8 v), word_of_int (drop_bit 16 v)]
      else [word_of_int (drop_bit 16 v), word_of_int (drop_bit 8 v), word_of_int v])"

definition readUint24 :: "byte_order option \<Rightarrow> bytes \<Rightarrow> 64 word" where
  "readUint24 byteOrder b =
     (if byteOrder = Some LittleEndian
      then ucast (b ! 0) OR push_bit 8 (ucast (b ! 1)) OR push_bit 16 (ucast (b ! 2))
      else ucast (b ! 2) OR push_bit 8 (ucast (b ! 1)) OR push_bit 16 (ucast (b ! 0)))"

text \<open>A method call on a nil \<open>binary.ByteOrder\<close> is a nil dereference.\<close>

definition order_PutUint :: "byte_order option \<Rightarrow> nat \<Rightarrow> 'a::len word \<Rightarrow> bytes go" where
  "order_PutUint bo n v = (case bo of None \<Rightarrow> Panic | Some bo \<Rightarrow> Ret (PutUint bo n v))"

definition order_Uint :: "byte_order option \<Rightarrow> bytes \<Rightarrow> 'a::len word go" where
  "order_Uint bo b = (case bo of None \<Rightarrow> Panic | Some bo \<Rightarrow> Ret (Uint bo b))"

definition LengthFieldBasedFrameCodec_Encode ::
  "EncoderConfig \<Rightarrow> bytes \<Rightarrow> (go_error + bytes) go" where
  "LengthFieldBasedFrameCodec_Encode ec buf =
     (let l0 = go_int (int (length buf) + ec_LengthAdjustment ec);
          len = (if ec_LengthIncludesLengthFieldLength ec
                 then go_int (l0 + ec_LengthFieldLength ec) else l0)
      in if len < 0 then Ret (Inl errTooLessLength)
         else if ec_LengthFieldLength ec = 1 then
           if len \<ge> 256 then Ret (Inl (errDoesNotFit ''byte'' len))
           else Ret (Inr ([word_of_int len] @ buf))
         else if ec_LengthFieldLength ec = 2 then
           if len \<ge> 65536 then Ret (Inl (errDoesNotFit ''short integer'' len))
           else do {
             out \<leftarrow> order_PutUint (ec_ByteOrder ec) 2 (word_of_int len :: 16 word);
             Ret (Inr (out @ buf))
           }
         else if ec_LengthFieldLength ec = 3 then
           if len \<ge> 16777216 then Ret (Inl (errDoesNotFit ''medium integer'' len))
           else Ret (Inr (writeUint24 (ec_ByteOrder ec) len @ buf))
         else if ec_LengthFieldLength ec = 4 then do {
           out \<leftarrow> order_PutUint (ec_ByteOrder ec) 4 (word_of_int len :: 32 word);
           Ret (Inr (out @ buf))
         }
         else if ec_LengthFieldLength ec = 8 then do {
           out \<leftarrow> order_PutUint (ec_ByteOrder ec) 8 (word_of_int len :: 64 word);
           Ret (Inr (out @ buf))
         }
         else Ret (Inl errUnsupportedLength))"

text \<open>\<open>innerBuffer.readN\<close>: the bytes read and the rest, or an error and the buffer unchanged.\<close>

definition innerBuffer_readN :: "int \<Rightarrow> bytes \<Rightarrow> (go_error + bytes) \<times> bytes" where
  "innerBuffer_readN n in_b =
     (if n \<le> 0 then (Inl errZeroOrNegative, in_b)
      else if n > int (length in_b) then (Inl errExceedingBuffer, in_b)
      else (Inr (take (nat n) in_b), drop (nat n) in_b))"

definition getUnadjustedFrameLength ::
  "DecoderConfig \<Rightarrow> bytes \<Rightarrow> ((go_error + (bytes \<times> 64 word)) \<times> bytes) go" where
  "getUnadjustedFrameLength dc in_b =
     (if dc_LengthFieldLength dc = 1 then
        (case innerBuffer_readN 1 in_b of
           (Inl _, i) \<Rightarrow> Ret (Inl errUnexpectedEOF, i)
         | (Inr b, i) \<Rightarrow> Ret (Inr (b, ucast (b ! 0)), i))
      else if dc_LengthFieldLength dc = 2 then
        (case innerBuffer_readN 2 in_b of
           (Inl _, i) \<Rightarrow> Ret (Inl errUnexpectedEOF, i)
         | (Inr b, i) \<Rightarrow> do {
             v \<leftarrow> order_Uint (dc_ByteOrder dc) b;
             Ret (Inr (b, ucast (v :: 16 word)), i)
           })
      else if dc_LengthFieldLength dc = 3 then
        (case innerBuffer_readN 3 in_b of
           (Inl _, i) \<Rightarrow> Ret (Inl errUnexpectedEOF, i)
         | (Inr b, i) \<Rightarrow> Ret (Inr (b, readUint24 (dc_ByteOrder dc) b), i))
      else if dc_LengthFieldLength dc = 4 then
        (case innerBuffer_readN 4 in_b of
           (Inl _, i) \<Rightarrow> Ret (Inl errUnexpectedEOF, i)
         | (Inr b, i) \<Rightarrow> do {
             v \<leftarrow> order_Uint (dc_ByteOrder dc) b;
             Ret (Inr (b, ucast (v :: 32 word)), i)
           })
      else if dc_LengthFieldLength dc = 8 then
        (case innerBuffer_readN 8 in_b of
           (Inl _, i) \<Rightarrow> Ret (Inl errUnexpectedEOF, i)
         | (Inr b, i) \<Rightarrow> do {
             v \<leftarrow> order_Uint (dc_ByteOrder dc) b;
             Ret (Inr (b, v), i)
           })
      else Ret (Inl errUnsupportedLength, in_b))"

definition LengthFieldBasedFrameCodec_Decode :: "DecoderConfig \<Rightarrow> 'c Conn \<Rightarrow> 'c \<Rightarrow> 'c decoded" where
  "LengthFieldBasedFrameCodec_Decode dc I c = do {
     (in_b, c) \<leftarrow> Conn_Read I c;
     (case (if dc_LengthFieldOffset dc > 0 then innerBuffer_readN (dc_LengthFieldOffset dc) in_b
            else (Inr [], in_b)) of
        (Inl _, _) \<Rightarrow> Ret (Inl errUnexpectedEOF, c)
      | (Inr header, in_b) \<Rightarrow> do {
          (r, in_b) \<leftarrow> getUnadjustedFrameLength dc in_b;
          (case r of
             Inl err \<Rightarrow> Ret (Inl err, c)
           | Inr (lenBuf, frameLength) \<Rightarrow>
               (let msgLength = go_int (sint frameLength + dc_LengthAdjustment dc)
                in case innerBuffer_readN msgLength in_b of
                     (Inl _, _) \<Rightarrow> Ret (Inl errUnexpectedEOF, c)
                   | (Inr msg, _) \<Rightarrow> do {
                       let fullMessage = header @ lenBuf @ msg;
                       (_, c) \<leftarrow> Conn_ShiftN I (int (length fullMessage)) c;
                       f \<leftarrow> slice_from fullMessage (dc_InitialBytesToStrip dc);
                       Ret (Inr (Some f), c)
                     }))
        })
   }"

section \<open>The default of \<open>protocol.go\<close>\<close>

text \<open>\<open>DefaultCode\<close> implements the older interface \<open>ICode\<close>; the connections do not use it.\<close>

definition DefaultCode_Encode :: "bytes \<Rightarrow> bytes" where
  "DefaultCode_Encode data = data"

definition DefaultCode_DeCode :: "bytes \<Rightarrow> go_error + bytes" where
  "DefaultCode_DeCode data = Inr data"

section \<open>Dispatch on the codec\<close>

fun ICodec_Encode :: "ICodec \<Rightarrow> bytes \<Rightarrow> (go_error + bytes) go" where
  "ICodec_Encode BuiltInFrameCodec buf = BuiltInFrameCodec_Encode buf"
| "ICodec_Encode LineBasedFrameCodec buf = LineBasedFrameCodec_Encode buf"
| "ICodec_Encode (DelimiterBasedFrameCodec d) buf = DelimiterBasedFrameCodec_Encode d buf"
| "ICodec_Encode (FixedLengthFrameCodec n) buf = FixedLengthFrameCodec_Encode n buf"
| "ICodec_Encode (LengthFieldBasedFrameCodec ec dc) buf = LengthFieldBasedFrameCodec_Encode ec buf"

fun ICodec_Decode :: "ICodec \<Rightarrow> 'c Conn \<Rightarrow> 'c \<Rightarrow> 'c decoded" where
  "ICodec_Decode BuiltInFrameCodec I c = BuiltInFrameCodec_Decode I c"
| "ICodec_Decode LineBasedFrameCodec I c = LineBasedFrameCodec_Decode I c"
| "ICodec_Decode (DelimiterBasedFrameCodec d) I c = DelimiterBasedFrameCodec_Decode d I c"
| "ICodec_Decode (FixedLengthFrameCodec n) I c = FixedLengthFrameCodec_Decode n I c"
| "ICodec_Decode (LengthFieldBasedFrameCodec ec dc) I c = LengthFieldBasedFrameCodec_Decode dc I c"

end
