(* ===== verification/SockAddr.thy ===== *)
theory SockAddr
  imports Kernel
begin

unbundle bit_operations_syntax

text \<open>
  \<open>sockAddrToString\<close> of \<open>net/connect/connect.go\<close>, which makes the key of a connection in the
  server's pool, with the parts of Go's \<open>net\<close> and \<open>strconv\<close> it uses: \<open>IP.String\<close>,
  \<open>JoinHostPort\<close> and \<open>Itoa\<close>.
\<close>

section \<open>Decimal and hexadecimal numbers\<close>

definition digit :: "nat \<Rightarrow> char" where
  "digit d = (char_of (if d < 10 then 48 + d else 87 + d) :: char)"

fun digits :: "nat \<Rightarrow> nat \<Rightarrow> string" where
  "digits b n = (if n < b \<or> b < 2 then [digit n] else digits b (n div b) @ [digit (n mod b)])"

declare digits.simps [simp del]

definition Itoa :: "int \<Rightarrow> string" where
  "Itoa i = (if i < 0 then CHR ''-'' # digits 10 (nat (- i)) else digits 10 (nat i))"

section \<open>Addresses\<close>

fun dotted :: "bytes \<Rightarrow> string" where
  "dotted [] = []"
| "dotted [b] = digits 10 (unat b)"
| "dotted (b # bs) = digits 10 (unat b) @ CHR ''.'' # dotted bs"

text \<open>The eight 16-bit groups of an IPv6 address.\<close>

fun groups :: "bytes \<Rightarrow> nat list" where
  "groups (a # b # bs) = (256 * unat a + unat b) # groups bs"
| "groups _ = []"

text \<open>The first longest run of at least two zero groups, as its start and its end.\<close>

definition zero_run :: "nat list \<Rightarrow> nat \<Rightarrow> nat" where
  "zero_run gs i = length (takeWhile (\<lambda>g. g = 0) (drop i gs))"

fun best_run :: "nat list \<Rightarrow> nat list \<Rightarrow> (nat \<times> nat) option \<Rightarrow> (nat \<times> nat) option" where
  "best_run gs [] best = best"
| "best_run gs (i # is) best =
     (let l = zero_run gs i
      in if 2 \<le> l \<and> (case best of None \<Rightarrow> True | Some (s, e) \<Rightarrow> e - s < l)
         then best_run gs is (Some (i, i + l)) else best_run gs is best)"

fun colons :: "nat list \<Rightarrow> string" where
  "colons [] = []"
| "colons [g] = digits 16 g"
| "colons (g # gs) = digits 16 g @ CHR '':'' # colons gs"

definition ipv6_string :: "bytes \<Rightarrow> string" where
  "ipv6_string ip =
     (let gs = groups ip
      in case best_run gs [0..<length gs] None of
           None \<Rightarrow> colons gs
         | Some (s, e) \<Rightarrow> colons (take s gs) @ ''::'' @ colons (drop e gs))"

text \<open>\<open>IP.String\<close>: IPv4 addresses, also those mapped into IPv6, in dotted decimal.\<close>

definition IP_String :: "bytes \<Rightarrow> string" where
  "IP_String ip =
     (if length ip = 4 then dotted ip
      else if take 12 ip = replicate 10 0 @ [255, 255] then dotted (drop 12 ip)
      else ipv6_string ip)"

definition JoinHostPort :: "string \<Rightarrow> string \<Rightarrow> string" where
  "JoinHostPort host port =
     (if CHR '':'' \<in> set host \<or> CHR ''%'' \<in> set host
      then ''['' @ host @ '']:'' @ port else host @ '':'' @ port)"

fun sockAddrToString :: "sockaddr \<Rightarrow> string" where
  "sockAddrToString (SockaddrInet4 addr port) = JoinHostPort (IP_String addr) (Itoa port)"
| "sockAddrToString (SockaddrInet6 addr port) = JoinHostPort (IP_String addr) (Itoa port)"
| "sockAddrToString (SockaddrOther T) = ''(unknown - '' @ T @ '')''"

section \<open>Digits are digits, and numbers are read back\<close>

lemma digits_induct [case_names small step]:
  assumes "\<And>n. n < 10 \<Longrightarrow> P n" "\<And>n. 10 \<le> n \<Longrightarrow> P (n div 10) \<Longrightarrow> P n"
  shows "P (n :: nat)"
proof (induction n rule: less_induct)
  case (less n)
  show ?case
  proof (cases "n < 10")
    case False
    then show ?thesis using less [of "n div 10"] assms(2) by simp
  qed (rule assms(1))
qed

lemma digit_inj: "d < 10 \<Longrightarrow> e < 10 \<Longrightarrow> digit d = digit e \<Longrightarrow> d = e"
  by (auto simp: digit_def dest!: arg_cong [of _ _ "of_char :: char \<Rightarrow> nat"])

lemma digits_small: "n < 10 \<Longrightarrow> digits 10 n = [digit n]"
  by (simp add: digits.simps)

lemma digits_step: "10 \<le> n \<Longrightarrow> digits 10 n = digits 10 (n div 10) @ [digit (n mod 10)]"
  by (subst digits.simps) simp

lemma digits_not_Nil [simp]: "digits 10 n \<noteq> []"
  by (cases "n < 10") (simp_all add: digits_small digits_step)

lemma Nil_not_digits [simp]: "[] \<noteq> digits 10 n"
  using digits_not_Nil [of n] by metis

lemma set_digits: "set (digits 10 n) \<subseteq> digit ` {..<10}"
proof (induction n rule: digits_induct)
  case (step n)
  then show ?case by (auto simp: digits_step)
qed (auto simp: digits_small)

lemma digits_inj: "digits 10 m = digits 10 n \<Longrightarrow> m = n"
proof (induction m arbitrary: n rule: digits_induct)
  case (small m)
  then show ?case
    by (cases "n < 10") (auto simp: digits_small digits_step dest: digit_inj)
next
  case (step m)
  show ?case
  proof (cases "n < 10")
    case True
    with step show ?thesis by (simp add: digits_small digits_step)
  next
    case False
    with step have "m div 10 = n div 10" "digit (m mod 10) = digit (n mod 10)"
      by (auto simp: digits_step)
    then have "m mod 10 = n mod 10" by (intro digit_inj) simp_all
    with \<open>m div 10 = n div 10\<close> show ?thesis by (metis div_mult_mod_eq)
  qed
qed

section \<open>Different IPv4 peers have different names\<close>

lemma sep_split:
  "x \<notin> set a \<Longrightarrow> x \<notin> set b \<Longrightarrow> a @ x # r = b @ x # t \<Longrightarrow> a = b \<and> r = t"
proof (induction a arbitrary: b)
  case Nil
  then show ?case by (cases b) auto
next
  case (Cons y a)
  then show ?case by (cases b) auto
qed

lemma sep_not_digits [simp]:
  "CHR ''.'' \<notin> set (digits 10 n)" "CHR '':'' \<notin> set (digits 10 n)"
  "CHR ''%'' \<notin> set (digits 10 n)"
  using set_digits [of n]
  by (auto simp: digit_def dest!: arg_cong [of _ _ "of_char :: char \<Rightarrow> nat"] dest!: subsetD)

lemma dotted_chars [simp]: "CHR '':'' \<notin> set (dotted bs)" "CHR ''%'' \<notin> set (dotted bs)"
  by (induction bs rule: dotted.induct) auto

lemma dotted_inj:
  "length as = length bs \<Longrightarrow> dotted as = dotted bs \<Longrightarrow> as = bs"
proof (induction as arbitrary: bs rule: dotted.induct)
  case 1
  then show ?case by simp
next
  case (2 a)
  then obtain b where "bs = [b]" by (cases bs) auto
  with 2 show ?case by (auto dest!: digits_inj intro: word_unat_eq_iff [THEN iffD2])
next
  case (3 a a' as)
  then obtain b b' bs' where bs: "bs = b # b' # bs'" by (cases bs; cases "tl bs") auto
  with 3 have "digits 10 (unat a) @ CHR ''.'' # dotted (a' # as)
      = digits 10 (unat b) @ CHR ''.'' # dotted (b' # bs')" by simp
  from sep_split [OF _ _ this] have "digits 10 (unat a) = digits 10 (unat b)"
    "dotted (a' # as) = dotted (b' # bs')" by simp_all
  moreover have "a' # as = b' # bs'" using 3 bs calculation(2) by (intro "3.IH") simp_all
  ultimately show ?case using bs by (auto dest!: digits_inj intro: word_unat_eq_iff [THEN iffD2])
qed

lemma sockAddrToString_inet4_inj:
  assumes "length a = 4" "length b = 4" "0 \<le> p" "0 \<le> q"
    and eq: "sockAddrToString (SockaddrInet4 a p) = sockAddrToString (SockaddrInet4 b q)"
  shows "a = b \<and> p = q"
proof -
  have "dotted a @ CHR '':'' # Itoa p = dotted b @ CHR '':'' # Itoa q"
    using eq assms(1,2) by (simp add: JoinHostPort_def IP_String_def)
  from sep_split [OF _ _ this] have "dotted a = dotted b" "Itoa p = Itoa q" by simp_all
  moreover have "p = q" if "digits 10 (nat p) = digits 10 (nat q)"
    using digits_inj [OF that] assms(3,4) by simp
  ultimately show ?thesis using assms dotted_inj by (simp add: Itoa_def)
qed

end
