(* ===== verification/Connect.thy ===== *)
theory Connect
  imports EventLoop Codec SockAddr
begin

unbundle bit_operations_syntax

text \<open>
  \<open>net/connect/connect.go\<close>: one TCP connection. The ring buffer (\<open>github.com/zput/ringbuffer\<close>)
  and the pooled byte buffer (\<open>gnet/pool/bytebuffer\<close>) are not in the repository: they are the
  record \<open>bufs\<close> of operations on unknown types \<open>'rb\<close> and \<open>'bb\<close>. The application's callbacks
  are the record \<open>app\<close>; a callback may use the connection's public methods, which it returns as
  a list of \<open>api\<close> calls carried out in order. Log output is left out.
\<close>

section \<open>Buffers that are not in the repository\<close>

record ('rb, 'bb) bufs =
  rb_IsEmpty :: "'rb \<Rightarrow> bool"
  rb_Size :: "'rb \<Rightarrow> int"
  rb_Write :: "'rb \<Rightarrow> bytes \<Rightarrow> 'rb"
  rb_PeekAll :: "'rb \<Rightarrow> bytes \<times> bytes"
  rb_Peek :: "'rb \<Rightarrow> int \<Rightarrow> bytes \<times> bytes"
  rb_Retrieve :: "'rb \<Rightarrow> int \<Rightarrow> 'rb"
  rb_RetrieveAll :: "'rb \<Rightarrow> 'rb"
  rb_Reset :: "'rb \<Rightarrow> 'rb"
  bb_Get :: "'bb"
  bb_Write :: "'bb \<Rightarrow> bytes \<Rightarrow> 'bb"
  bb_Bytes :: "'bb \<Rightarrow> bytes"

text \<open>
  Their documented behaviour: \<open>cont\<close> is the unread content of a ring buffer, which is returned
  in two pieces, oldest first; a byte buffer from the pool is empty and grows at the end.
\<close>

definition bufs_ok :: "('rb, 'bb) bufs \<Rightarrow> ('rb \<Rightarrow> bytes) \<Rightarrow> bool" where
  "bufs_ok R cont \<longleftrightarrow>
     (\<forall>r. rb_IsEmpty R r \<longleftrightarrow> cont r = []) \<and>
     (\<forall>r. rb_Size R r = int (length (cont r))) \<and>
     (\<forall>r d. cont (rb_Write R r d) = cont r @ d) \<and>
     (\<forall>r. fst (rb_PeekAll R r) @ snd (rb_PeekAll R r) = cont r) \<and>
     (\<forall>r n. 0 \<le> n \<longrightarrow> fst (rb_Peek R r n) @ snd (rb_Peek R r n) = take (nat n) (cont r)) \<and>
     (\<forall>r n. 0 \<le> n \<and> n \<le> int (length (cont r)) \<longrightarrow> cont (rb_Retrieve R r n) = drop (nat n) (cont r)) \<and>
     (\<forall>r. cont (rb_RetrieveAll R r) = []) \<and>
     (\<forall>r. cont (rb_Reset R r) = []) \<and>
     bb_Bytes R (bb_Get R) = [] \<and>
     (\<forall>b d. bb_Bytes R (bb_Write R b d) = bb_Bytes R b @ d)"

section \<open>The connection\<close>

datatype ConnectState = Disconnected | Connecting | Connected | Disconnecting

text \<open>
  The fields of \<open>Connect\<close>. \<open>self\<close> stands for its address; the loop it belongs to is the world
  its methods run on. A callback field says whether the callback is set. \<open>activeTime\<close> is in
  seconds, \<open>idleTime\<close> in nanoseconds.
\<close>

record ('rb, 'bb) conn =
  self :: nat
  event :: Event
  temporaryBuf :: bytes
  outBuffer :: 'rb
  inBuffer :: 'rb
  byteBuffer :: "'bb option"
  messageCallback :: bool
  connectCloseCallback :: bool
  writeCompleteCallback :: bool
  state :: ConnectState
  conn_fd :: int
  peerAddr :: string
  idleTime :: int
  activeTime :: "64 word"
  codeImp :: ICodec

datatype api = ApiClose | ApiWriteInSelfLoop bytes | ApiShutdownWrite

record ('rb, 'bb, 'w) app =
  on_message :: "('rb, 'bb) conn \<Rightarrow> bytes \<Rightarrow> 'w \<Rightarrow> (bytes option \<times> api list) \<times> 'w"
  on_close :: "('rb, 'bb) conn \<Rightarrow> 'w \<Rightarrow> api list \<times> 'w"
  on_write_complete :: "('rb, 'bb) conn \<Rightarrow> 'w \<Rightarrow> api list \<times> 'w"

section \<open>The Conn interface: the buffers as one stream\<close>

definition Connect_Read :: "('rb, 'bb) bufs \<Rightarrow> ('rb, 'bb) conn \<Rightarrow> (bytes \<times> ('rb, 'bb) conn) go" where
  "Connect_Read R c =
     (if rb_IsEmpty R (inBuffer c) then Ret (temporaryBuf c, c)
      else let b = bb_Get R;
               (first, end) = rb_PeekAll R (inBuffer c);
               b = (if length first = 0 then bb_Write R b end
                    else bb_Write R (bb_Write R b first) end);
               b = bb_Write R b (temporaryBuf c)
           in Ret (bb_Bytes R b, c\<lparr>byteBuffer := Some b\<rparr>))"

definition Connect_ResetBuffer :: "('rb, 'bb) bufs \<Rightarrow> ('rb, 'bb) conn \<Rightarrow> ('rb, 'bb) conn" where
  "Connect_ResetBuffer R c =
     c\<lparr>temporaryBuf := [], inBuffer := rb_Reset R (inBuffer c), byteBuffer := None\<rparr>"

definition Connect_ReadN ::
  "('rb, 'bb) bufs \<Rightarrow> int \<Rightarrow> ('rb, 'bb) conn \<Rightarrow> ((int \<times> bytes) \<times> ('rb, 'bb) conn) go" where
  "Connect_ReadN R n c =
     (let inBufferLen = rb_Size R (inBuffer c);
          tempBufferLen = int (length (temporaryBuf c));
          totalLen = inBufferLen + tempBufferLen;
          n = (if totalLen < n \<or> n \<le> 0 then totalLen else n)
      in if rb_IsEmpty R (inBuffer c) then do {
           buf \<leftarrow> slice_to (temporaryBuf c) n;
           Ret ((n, buf), c)
         } else (let (head, tail) = rb_Peek R (inBuffer c) n;
                     b = bb_Write R (bb_Write R (bb_Get R) head) tail
                 in if inBufferLen \<ge> n then Ret ((n, bb_Bytes R b), c\<lparr>byteBuffer := Some b\<rparr>)
                    else do {
                      rest \<leftarrow> slice_to (temporaryBuf c) (n - inBufferLen);
                      let b = bb_Write R b rest;
                      Ret ((n, bb_Bytes R b), c\<lparr>byteBuffer := Some b\<rparr>)
                    }))"

definition Connect_ShiftN ::
  "('rb, 'bb) bufs \<Rightarrow> int \<Rightarrow> ('rb, 'bb) conn \<Rightarrow> (int \<times> ('rb, 'bb) conn) go" where
  "Connect_ShiftN R n c =
     (let inBufferLen = rb_Size R (inBuffer c);
          tempBufferLen = int (length (temporaryBuf c))
      in if inBufferLen + tempBufferLen < n \<or> n \<le> 0
         then Ret (inBufferLen + tempBufferLen, Connect_ResetBuffer R c)
         else if rb_IsEmpty R (inBuffer c) then do {
           t \<leftarrow> slice_from (temporaryBuf c) n;
           Ret (n, c\<lparr>temporaryBuf := t\<rparr>)
         } else (let c = c\<lparr>byteBuffer := None\<rparr>
                 in if inBufferLen \<ge> n
                    then Ret (n, c\<lparr>inBuffer := rb_Retrieve R (inBuffer c) n\<rparr>)
                    else do {
                      let c = c\<lparr>inBuffer := rb_Reset R (inBuffer c)\<rparr>;
                      t \<leftarrow> slice_from (temporaryBuf c) (n - inBufferLen);
                      Ret (n, c\<lparr>temporaryBuf := t\<rparr>)
                    }))"

definition Connect_BufferLength :: "('rb, 'bb) bufs \<Rightarrow> ('rb, 'bb) conn \<Rightarrow> int" where
  "Connect_BufferLength R c = rb_Size R (inBuffer c) + int (length (temporaryBuf c))"

text \<open>A \<open>*Connect\<close> as a \<open>protocol.Conn\<close>.\<close>

definition connect_Conn :: "('rb, 'bb) bufs \<Rightarrow> ('rb, 'bb) conn Conn" where
  "connect_Conn R =
     \<lparr>Conn_Read = Connect_Read R, Conn_ResetBuffer = (\<lambda>c. Ret (Connect_ResetBuffer R c)),
      Conn_ReadN = Connect_ReadN R, Conn_ShiftN = Connect_ShiftN R,
      Conn_BufferLength = Connect_BufferLength R\<rparr>"

section \<open>Public methods used from other goroutines\<close>

datatype conn_error = ErrConnectionClosed | SysError errno

definition Connect_Close ::
  "'k sys \<Rightarrow> ('rb, 'bb) conn \<Rightarrow> ('k, 'z) loop_scheme \<Rightarrow>
     conn_error option \<times> ('k, 'z) loop_scheme" where
  "Connect_Close S c w =
     (if state c = Disconnected then (Some ErrConnectionClosed, w)
      else (None, RunInLoop S (TaskCloseEvent (self c)) w))"

definition WriteInSelfLoop ::
  "'k sys \<Rightarrow> bytes \<Rightarrow> ('rb, 'bb) conn \<Rightarrow> ('k, 'z) loop_scheme \<Rightarrow>
     conn_error option \<times> ('k, 'z) loop_scheme" where
  "WriteInSelfLoop S buffer c w =
     (if state c \<noteq> Connected then (Some ErrConnectionClosed, w)
      else (None, RunInLoop S (TaskWrite (self c) buffer) w))"

definition ShutdownWrite ::
  "'k sys \<Rightarrow> ('rb, 'bb) conn \<Rightarrow> ('k, 'z) loop_scheme \<Rightarrow>
     conn_error option \<times> ('rb, 'bb) conn \<times> ('k, 'z) loop_scheme" where
  "ShutdownWrite S c w =
     (if state c = Connected
      then (case sys_shutdown_wr S (conn_fd c) w of
              (err, w) \<Rightarrow> (map_option SysError err, c\<lparr>state := Disconnecting\<rparr>, w))
      else (None, c, w))"

text \<open>The calls a callback makes on its connection, in order.\<close>

fun run_api ::
  "'k sys \<Rightarrow> api list \<Rightarrow> ('rb, 'bb) conn \<Rightarrow> ('k, 'z) loop_scheme \<Rightarrow>
     ('rb, 'bb) conn \<times> ('k, 'z) loop_scheme" where
  "run_api S [] c w = (c, w)"
| "run_api S (ApiClose # as) c w = run_api S as c (snd (Connect_Close S c w))"
| "run_api S (ApiWriteInSelfLoop b # as) c w = run_api S as c (snd (WriteInSelfLoop S b c w))"
| "run_api S (ApiShutdownWrite # as) c w =
     (case ShutdownWrite S c w of (_, c, w) \<Rightarrow> run_api S as c w)"

section \<open>Event handlers of the connection\<close>

definition updateActivityTime ::
  "'k sys \<Rightarrow> ('rb, 'bb) conn \<Rightarrow> ('k, 'z) loop_scheme \<Rightarrow> ('rb, 'bb) conn" where
  "updateActivityTime S c w =
     (if idleTime c > 0
      then c\<lparr>activeTime := snd (Int64_Swap (word_of_int (k_now S (kern w) div 10 ^ 9)) (activeTime c))\<rparr>
      else c)"

definition closeEvent ::
  "'k sys \<Rightarrow> ('rb, 'bb, ('k, 'z) loop_scheme) app \<Rightarrow> ('rb, 'bb) conn \<Rightarrow> ('k, 'z) loop_scheme \<Rightarrow>
     ('rb, 'bb) conn \<times> ('k, 'z) loop_scheme" where
  "closeEvent S A c w =
     (if state c \<noteq> Disconnected then
        let c = c\<lparr>state := Disconnected\<rparr>;
            (_, ev, w) = DisableAll S (event c) w;
            c = c\<lparr>event := ev\<rparr>;
            (_, w) = UnRegister S (event c) w;
            (c, w) = (if connectCloseCallback c then
                        (let (acts, w) = on_close A c (emit (EffConnectClose (self c)) w)
                         in run_api S acts c w)
                      else (c, w));
            (_, w) = sys_close S (conn_fd c) w
        in (c, emit (EffPutBuffers (self c)) w)
      else (c, w))"

definition errEvent ::
  "'k sys \<Rightarrow> ('rb, 'bb, ('k, 'z) loop_scheme) app \<Rightarrow> ('rb, 'bb) conn \<Rightarrow> ('k, 'z) loop_scheme \<Rightarrow>
     ('rb, 'bb) conn \<times> ('k, 'z) loop_scheme" where
  "errEvent S A c w = closeEvent S A c w"

definition enable_writing ::
  "'k sys \<Rightarrow> bool \<Rightarrow> ('rb, 'bb) conn \<Rightarrow> ('k, 'z) loop_scheme \<Rightarrow>
     ('rb, 'bb) conn \<times> ('k, 'z) loop_scheme" where
  "enable_writing S b c w = (case EnableWriting S b (event c) w of (_, ev, w) \<Rightarrow> (c\<lparr>event := ev\<rparr>, w))"

definition enable_reading ::
  "'k sys \<Rightarrow> bool \<Rightarrow> ('rb, 'bb) conn \<Rightarrow> ('k, 'z) loop_scheme \<Rightarrow>
     ('rb, 'bb) conn \<times> ('k, 'z) loop_scheme" where
  "enable_reading S b c w = (case EnableReading S b (event c) w of (_, ev, w) \<Rightarrow> (c\<lparr>event := ev\<rparr>, w))"

text \<open>\<open>write\<close> (unexported): send now what the socket takes, keep the rest in order.\<close>

definition conn_write ::
  "('rb, 'bb) bufs \<Rightarrow> 'k sys \<Rightarrow> ('rb, 'bb, ('k, 'z) loop_scheme) app \<Rightarrow> bytes \<Rightarrow>
     ('rb, 'bb) conn \<Rightarrow> ('k, 'z) loop_scheme \<Rightarrow> ('rb, 'bb) conn \<times> ('k, 'z) loop_scheme" where
  "conn_write R S A data c w0 =
     (let w = emit (EffSubmit (self c) data) w0
      in if \<not> rb_IsEmpty R (outBuffer c) then (c\<lparr>outBuffer := rb_Write R (outBuffer c) data\<rparr>, w)
      else (case sys_write S (conn_fd c) data w of
              (Inl err, w) \<Rightarrow>
                if err = EAGAIN
                then enable_writing S True (c\<lparr>outBuffer := rb_Write R (outBuffer c) data\<rparr>) w
                else closeEvent S A c w
            | (Inr n, w) \<Rightarrow>
                if n < length data
                then enable_writing S True
                       (c\<lparr>outBuffer := rb_Write R (outBuffer c) (drop n data)\<rparr>) w
                else (c, w)))"

text \<open>The end of \<open>writeEvent\<close>, reached when no write failed.\<close>

definition write_drained ::
  "('rb, 'bb) bufs \<Rightarrow> 'k sys \<Rightarrow> ('rb, 'bb, ('k, 'z) loop_scheme) app \<Rightarrow>
     ('rb, 'bb) conn \<Rightarrow> ('k, 'z) loop_scheme \<Rightarrow> ('rb, 'bb) conn \<times> ('k, 'z) loop_scheme" where
  "write_drained R S A c w =
     (if rb_Size R (outBuffer c) = 0 then
        let (c, w) = (if IsWriting (event c) then enable_writing S False c w else (c, w));
            (c, w) = (if \<not> IsReading (event c) then enable_reading S True c w else (c, w))
        in if writeCompleteCallback c then
             (let (acts, w) = on_write_complete A c (emit (EffWriteComplete (self c)) w)
              in run_api S acts c w)
           else (c, w)
      else (c, w))"

definition writeEvent ::
  "('rb, 'bb) bufs \<Rightarrow> 'k sys \<Rightarrow> ('rb, 'bb, ('k, 'z) loop_scheme) app \<Rightarrow>
     ('rb, 'bb) conn \<Rightarrow> ('k, 'z) loop_scheme \<Rightarrow> ('rb, 'bb) conn \<times> ('k, 'z) loop_scheme" where
  "writeEvent R S A c w =
     (let c = updateActivityTime S c w;
          (first, end) = rb_PeekAll R (outBuffer c)
      in case sys_write S (conn_fd c) first w of
           (Inl err, w) \<Rightarrow> if err = EAGAIN then (c, w) else closeEvent S A c w
         | (Inr n, w) \<Rightarrow>
             (let c = c\<lparr>outBuffer := rb_Retrieve R (outBuffer c) (int n)\<rparr>
              in if n = length first \<and> length end > 0 then
                   (case sys_write S (conn_fd c) end w of
                      (Inl err, w) \<Rightarrow> if err = EAGAIN then (c, w) else closeEvent S A c w
                    | (Inr n, w) \<Rightarrow>
                        write_drained R S A (c\<lparr>outBuffer := rb_Retrieve R (outBuffer c) (int n)\<rparr>) w)
                 else write_drained R S A c w))"

section \<open>Reading: the frame loop\<close>

text \<open>One frame: the callback, its calls, and its answer encoded and written.\<close>

definition deliver ::
  "('rb, 'bb) bufs \<Rightarrow> 'k sys \<Rightarrow> ('rb, 'bb, ('k, 'z) loop_scheme) app \<Rightarrow> bytes \<Rightarrow>
     ('rb, 'bb) conn \<Rightarrow> ('k, 'z) loop_scheme \<Rightarrow> (('rb, 'bb) conn \<times> ('k, 'z) loop_scheme) go" where
  "deliver R S A inFrame c w =
     (if \<not> messageCallback c then Panic
      else let ((out, acts), w) = on_message A c inFrame (emit (EffMessage (self c) inFrame) w);
               (c, w) = run_api S acts c w
           in case out of
                None \<Rightarrow> Ret (c, w)
              | Some out \<Rightarrow> do {
                  r \<leftarrow> ICodec_Encode (codeImp c) out;
                  (case r of
                     Inl _ \<Rightarrow> Ret (c, w)
                   | Inr outFrame \<Rightarrow>
                       if length outFrame > 0 then Ret (conn_write R S A outFrame c w) else Ret (c, w))
                })"

partial_function (option) read_loop ::
  "('rb, 'bb) bufs \<Rightarrow> 'k sys \<Rightarrow> ('rb, 'bb, ('k, 'z) loop_scheme) app \<Rightarrow>
     ('rb, 'bb) conn \<Rightarrow> ('k, 'z) loop_scheme \<Rightarrow> (('rb, 'bb) conn \<times> ('k, 'z) loop_scheme) go" where
  "read_loop R S A c w =
     Option.bind (ICodec_Decode (codeImp c) (connect_Conn R) c)
       (\<lambda>(r, c). case r of
          Inr (Some inFrame) \<Rightarrow>
            Option.bind (deliver R S A inFrame c w) (\<lambda>(c, w). read_loop R S A c w)
        | _ \<Rightarrow> Ret (c, w))"

definition readEvent ::
  "('rb, 'bb) bufs \<Rightarrow> 'k sys \<Rightarrow> ('rb, 'bb, ('k, 'z) loop_scheme) app \<Rightarrow>
     ('rb, 'bb) conn \<Rightarrow> ('k, 'z) loop_scheme \<Rightarrow> (('rb, 'bb) conn \<times> ('k, 'z) loop_scheme) go" where
  "readEvent R S A c w =
     (let c = updateActivityTime S c w
      in if \<not> rb_IsEmpty R (outBuffer c) then Ret (enable_reading S False c w)
         else case sys_read S (conn_fd c) 65535 w of
                (Inl err, w) \<Rightarrow> if err \<noteq> EAGAIN then Ret (closeEvent S A c w) else Ret (c, w)
              | (Inr bs, w) \<Rightarrow>
                  if length bs = 0 then Ret (closeEvent S A c w)
                  else do {
                    (c, w) \<leftarrow> read_loop R S A (c\<lparr>temporaryBuf := bs\<rparr>) w;
                    Ret (c\<lparr>inBuffer := rb_Write R (inBuffer c) (temporaryBuf c)\<rparr>, w)
                  })"

section \<open>Creation, registration, idle timeout\<close>

definition setNoDelay ::
  "'k sys \<Rightarrow> int \<Rightarrow> ('k, 'z) loop_scheme \<Rightarrow> errno option \<times> ('k, 'z) loop_scheme" where
  "setNoDelay S fd w = (case sys_set_nonblock S fd w of
     (Some err, w) \<Rightarrow> (Some err, snd (sys_close S fd w))
   | (None, w) \<Rightarrow> (None, w))"

text \<open>
  \<open>New\<close>: \<open>i\<close> is the address of the new connection, \<open>out0\<close> and \<open>in0\<close> are the buffers \<open>pool.Get\<close>
  returned, with whatever they hold. The timer is started before the socket is set up.
\<close>

definition Connect_New ::
  "('rb, 'bb) bufs \<Rightarrow> 'k sys \<Rightarrow> nat \<Rightarrow> int \<Rightarrow> sockaddr \<Rightarrow> int \<Rightarrow> ICodec \<Rightarrow> 'rb \<Rightarrow> 'rb \<Rightarrow>
     ('k, 'z) loop_scheme \<Rightarrow> (errno + ('rb, 'bb) conn) \<times> ('k, 'z) loop_scheme" where
  "Connect_New R S i fd sa idle codec out0 in0 w =
     (let c = \<lparr>self = i, event = NewEvent (ConnEvent i) fd, temporaryBuf = [],
               outBuffer = rb_RetrieveAll R out0, inBuffer = rb_RetrieveAll R in0,
               byteBuffer = None, messageCallback = False, connectCloseCallback = False,
               writeCompleteCallback = False, state = Disconnected, conn_fd = fd,
               peerAddr = sockAddrToString sa, idleTime = idle, activeTime = 0, codeImp = codec\<rparr>;
          (c, w) = (if idleTime c > 0
                    then (updateActivityTime S c w, emit (EffAfterFunc i (idleTime c)) w)
                    else (c, w))
      in case setNoDelay S fd w of
           (Some err, w) \<Rightarrow> (Inl err, w)
         | (None, w) \<Rightarrow>
             (Inr (c\<lparr>event := SetErrorFunc (ErrHandler i) (SetWriteFunc (WriteHandler i)
                (SetCloseFunc (CloseHandler i) (SetReadFunc (ReadHandler i) (event c))))\<rparr>), w))"

definition SetMessageCallback :: "('rb, 'bb) conn \<Rightarrow> ('rb, 'bb) conn" where
  "SetMessageCallback c = c\<lparr>messageCallback := True\<rparr>"

definition SetConnectCloseCallback :: "('rb, 'bb) conn \<Rightarrow> ('rb, 'bb) conn" where
  "SetConnectCloseCallback c = c\<lparr>connectCloseCallback := True\<rparr>"

definition SetWriteCompleteCallback :: "('rb, 'bb) conn \<Rightarrow> ('rb, 'bb) conn" where
  "SetWriteCompleteCallback c = c\<lparr>writeCompleteCallback := True\<rparr>"

definition ConnectedHandle ::
  "'k sys \<Rightarrow> ('rb, 'bb) conn \<Rightarrow> ('k, 'z) loop_scheme \<Rightarrow>
     errno option \<times> ('rb, 'bb) conn \<times> ('k, 'z) loop_scheme" where
  "ConnectedHandle S c w = (case Register S (event c) w of
     (Some err, w) \<Rightarrow> (Some err, c, w)
   | (None, w) \<Rightarrow>
       (let c = c\<lparr>state := Connected\<rparr>;
            (_, ev, w) = EnableReading S True (event c) w;
            c = c\<lparr>event := ev\<rparr>;
            (err, ev, w) = EnableErrorEvent S True (event c) w
        in (err, c\<lparr>event := ev\<rparr>, w)))"

text \<open>
  The function \<open>closeTimeoutConn\<close> returns, run by the timing wheel; starting a timer again is
  the effect \<open>EffAfterFunc\<close>. Times are in nanoseconds.
\<close>

definition closeTimeoutConn ::
  "'k sys \<Rightarrow> ('rb, 'bb) conn \<Rightarrow> ('k, 'z) loop_scheme \<Rightarrow> ('k, 'z) loop_scheme" where
  "closeTimeoutConn S c w =
     (let intervals = k_now S (kern w) - sint (Int64_Get (activeTime c)) * 10 ^ 9
      in if intervals \<ge> idleTime c then snd (Connect_Close S c w)
         else emit (EffAfterFunc (self c) (idleTime c - intervals)) w)"

definition PeerAddr :: "('rb, 'bb) conn \<Rightarrow> string" where
  "PeerAddr c = peerAddr c"

end
