(* ===== verification/CodecSpec.thy ===== *)
theory CodecSpec
  imports Codec
begin

unbundle bit_operations_syntax

text \<open>
  What a codec promises, stated on the plain byte stream of a connection: \<open>next_frame\<close> gives the
  result of one \<open>Decode\<close> and how many bytes it takes off the stream. The locale \<open>conn_contract\<close>
  is the contract of the \<open>Conn\<close> interface; inside it every \<open>Decode\<close> of \<open>Codec\<close> refines
  \<open>next_frame\<close>.
\<close>

section \<open>Specification of one decode on the stream\<close>

text \<open>How many bytes \<open>ReadN\<close> and \<open>ShiftN\<close> take when asked for \<open>n\<close> of \<open>l\<close> available ones.\<close>

definition clip :: "int \<Rightarrow> nat \<Rightarrow> nat" where
  "clip n l = (if int l < n \<or> n \<le> 0 then l else nat n)"

lemma clip_le [simp]: "clip n l \<le> l"
  by (auto simp: clip_def)

lemma clip_pos [simp]: "0 < n \<Longrightarrow> n \<le> int l \<Longrightarrow> clip n l = nat n"
  by (auto simp: clip_def)

lemma clip_eq_0 [simp]: "clip n l = 0 \<longleftrightarrow> l = 0"
  by (auto simp: clip_def)

lemma clip_gt_0 [simp]: "0 < clip n l \<longleftrightarrow> 0 < l"
  by (auto simp: clip_def)

lemma clip_self [simp]: "clip (int l) l = l"
  by (auto simp: clip_def)

type_synonym frame_result = "(go_error + bytes option) \<times> nat"

definition delim_next :: "go_error \<Rightarrow> byte \<Rightarrow> bytes \<Rightarrow> frame_result" where
  "delim_next e d s =
     (if d \<in> set s then (let f = takeWhile (\<lambda>x. x \<noteq> d) s in (Inr (Some f), Suc (length f)))
      else (Inl e, 0))"

definition fixed_next :: "int \<Rightarrow> bytes \<Rightarrow> frame_result" where
  "fixed_next n s =
     (if s = [] then (Inl errUnexpectedEOF, 0)
      else (Inr (Some (take (clip n (length s)) s)), clip n (length s)))"

text \<open>The length field as one number, whatever its width.\<close>

definition lf_width :: "int \<Rightarrow> nat option" where
  "lf_width n = (if n \<in> {1, 2, 3, 4, 8} then Some (nat n) else None)"

definition lf_value :: "byte_order option \<Rightarrow> bytes \<Rightarrow> 64 word go" where
  "lf_value bo b =
     (if length b \<in> {1, 3} then
        Ret (Uint (if bo = Some LittleEndian then LittleEndian else BigEndian) b)
      else order_Uint bo b)"

definition lf_next :: "DecoderConfig \<Rightarrow> bytes \<Rightarrow> frame_result go" where
  "lf_next dc s =
     (let off = nat (dc_LengthFieldOffset dc)
      in if length s < off then Ret (Inl errUnexpectedEOF, 0)
         else case lf_width (dc_LengthFieldLength dc) of
           None \<Rightarrow> Ret (Inl errUnsupportedLength, 0)
         | Some w \<Rightarrow>
             if length s < off + w then Ret (Inl errUnexpectedEOF, 0)
             else do {
               v \<leftarrow> lf_value (dc_ByteOrder dc) (take w (drop off s));
               let m = go_int (sint v + dc_LengthAdjustment dc);
               if m \<le> 0 \<or> length s < off + w + nat m
               then Ret (Inl errUnexpectedEOF, 0)
               else do {
                 f \<leftarrow> slice_from (take (off + w + nat m) s) (dc_InitialBytesToStrip dc);
                 Ret (Inr (Some f), off + w + nat m)
               }
             })"

fun next_frame :: "ICodec \<Rightarrow> bytes \<Rightarrow> frame_result go" where
  "next_frame BuiltInFrameCodec s = Ret (Inr (if s = [] then None else Some s), length s)"
| "next_frame LineBasedFrameCodec s = Ret (delim_next ErrCRLFNotFound CRLFByte s)"
| "next_frame (DelimiterBasedFrameCodec d) s = Ret (delim_next errDelimiterNotFound d s)"
| "next_frame (FixedLengthFrameCodec n) s = Ret (fixed_next n s)"
| "next_frame (LengthFieldBasedFrameCodec ec dc) s = lf_next dc s"

section \<open>The widths of the length field agree\<close>

lemma ucast_get_le:
  "8 * length b \<le> LENGTH('a) \<Longrightarrow> 8 * length b \<le> LENGTH('b) \<Longrightarrow>
     (ucast (get_le b :: 'a::len word) :: 'b::len word) = get_le b"
  by (rule bit_word_eqI) (auto simp: bit_ucast_iff bit_get_le)

lemma ucast_Uint:
  "8 * length b \<le> LENGTH('a) \<Longrightarrow> 8 * length b \<le> LENGTH('b) \<Longrightarrow>
     (ucast (Uint bo b :: 'a::len word) :: 'b::len word) = Uint bo b"
  by (cases bo) (simp_all add: Uint_def ucast_get_le)

lemma push_bit_ucast_or [simp]:
  "push_bit 8 (ucast (b :: byte) OR push_bit 8 (ucast (c :: byte)) :: 64 word)
     = push_bit 8 (ucast b) OR push_bit 16 (ucast c)"
  by (rule bit_word_eqI) (auto simp: bit_simps)

lemma readUint24_Uint:
  assumes "length b = 3"
  shows "readUint24 bo b = Uint (if bo = Some LittleEndian then LittleEndian else BigEndian) b"
proof -
  from assms obtain x y z where "b = [x, y, z]"
    by (auto simp: length_Suc_conv numeral_3_eq_3)
  then show ?thesis by (simp add: readUint24_def Uint_def)
qed

lemma Uint_single: "Uint bo [x] = ucast x"
  by (cases bo) (simp_all add: Uint_def)

lemma innerBuffer_readN_short:
  "n \<le> 0 \<or> int (length s) < n \<Longrightarrow> \<exists>e. innerBuffer_readN n s = (Inl e, s)"
  by (auto simp: innerBuffer_readN_def)

lemma innerBuffer_readN_ok:
  "0 < n \<Longrightarrow> n \<le> int (length s) \<Longrightarrow> innerBuffer_readN n s = (Inr (take (nat n) s), drop (nat n) s)"
  by (auto simp: innerBuffer_readN_def)

lemma readN_header:
  "nat n \<le> length s \<Longrightarrow>
     (if 0 < n then innerBuffer_readN n s else (Inr [], s)) = (Inr (take (nat n) s), drop (nat n) s)"
  by (auto simp: innerBuffer_readN_def)

text \<open>\<open>getUnadjustedFrameLength\<close> in one equation per outcome.\<close>

lemma getUnadjusted_unsupported:
  "lf_width (dc_LengthFieldLength dc) = None \<Longrightarrow>
     getUnadjustedFrameLength dc s = Ret (Inl errUnsupportedLength, s)"
  by (auto simp: lf_width_def getUnadjustedFrameLength_def split: if_splits)

lemma getUnadjusted_short:
  "lf_width (dc_LengthFieldLength dc) = Some w \<Longrightarrow> length s < w \<Longrightarrow>
     getUnadjustedFrameLength dc s = Ret (Inl errUnexpectedEOF, s)"
  by (auto simp: lf_width_def getUnadjustedFrameLength_def innerBuffer_readN_def split: if_splits)

lemma getUnadjusted_ok:
  assumes w: "lf_width (dc_LengthFieldLength dc) = Some w" and s: "w \<le> length s"
  shows "getUnadjustedFrameLength dc s =
           do { v \<leftarrow> lf_value (dc_ByteOrder dc) (take w s); Ret (Inr (take w s, v), drop w s) }"
proof -
  have rd: "innerBuffer_readN (int w) s = (Inr (take w s), drop w s)"
    using w s by (auto simp: innerBuffer_readN_def lf_width_def split: if_splits)
  have len: "length (take w s) = w" using s by simp
  consider "w = 1" | "w = 2" | "w = 3" | "w = 4" | "w = 8"
    using w by (auto simp: lf_width_def split: if_splits)
  then show ?thesis
  proof cases
    case 1
    then obtain x where "take w s = [x]" using len length_Suc_conv [of "take w s" 0] by auto
    with 1 w rd show ?thesis
      by (auto simp: getUnadjustedFrameLength_def lf_value_def Uint_single lf_width_def
               split: if_splits)
  next
    case 3
    with w rd len show ?thesis
      by (auto simp: getUnadjustedFrameLength_def lf_value_def readUint24_Uint lf_width_def
               split: if_splits)
  qed (use w rd len in \<open>auto simp: getUnadjustedFrameLength_def lf_value_def order_Uint_def
         ucast_Uint lf_width_def split: if_splits option.splits\<close>)
qed

lemmas getUnadjusted = getUnadjusted_unsupported getUnadjusted_short getUnadjusted_ok

section \<open>The contract of a connection\<close>

text \<open>
  \<open>stream c\<close> is the unread input of connection \<open>c\<close>, \<open>inv\<close> what its provider keeps true. All
  operations return; \<open>Read\<close> and \<open>ReadN\<close> only look, \<open>ShiftN\<close> and \<open>ResetBuffer\<close> consume.
\<close>

locale conn_contract =
  fixes I :: "'c Conn"
    and stream :: "'c \<Rightarrow> bytes"
    and inv :: "'c \<Rightarrow> bool"
  assumes Read: "inv c \<Longrightarrow>
      \<exists>c'. Conn_Read I c = Ret (stream c, c') \<and> inv c' \<and> stream c' = stream c"
    and ResetBuffer: "inv c \<Longrightarrow> \<exists>c'. Conn_ResetBuffer I c = Ret c' \<and> inv c' \<and> stream c' = []"
    and ReadN: "inv c \<Longrightarrow> \<exists>c'. Conn_ReadN I n c =
        Ret ((int (clip n (length (stream c))), take (clip n (length (stream c))) (stream c)), c')
        \<and> inv c' \<and> stream c' = stream c"
    and ShiftN: "inv c \<Longrightarrow> \<exists>c'. Conn_ShiftN I n c = Ret (int (clip n (length (stream c))), c')
        \<and> inv c' \<and> stream c' = drop (clip n (length (stream c))) (stream c)"
    and BufferLength: "inv c \<Longrightarrow> Conn_BufferLength I c = int (length (stream c))"
begin

text \<open>\<open>refines D r c\<close>: decoding \<open>c\<close> gives the result of \<open>r\<close> and drops what \<open>r\<close> says.\<close>

definition refines :: "'c decoded \<Rightarrow> frame_result go \<Rightarrow> 'c \<Rightarrow> bool" where
  "refines D r c = (case r of
      None \<Rightarrow> D = Panic
    | Some (res, k) \<Rightarrow> \<exists>c'. D = Ret (res, c') \<and> inv c' \<and> stream c' = drop k (stream c))"

lemma BuiltIn_refines:
  assumes "inv c"
  shows "refines (BuiltInFrameCodec_Decode I c) (next_frame BuiltInFrameCodec (stream c)) c"
proof -
  obtain c1 where c1: "Conn_Read I c = Ret (stream c, c1)" "inv c1"
    using Read [OF assms] by blast
  obtain c2 where "Conn_ResetBuffer I c1 = Ret c2" "inv c2" "stream c2 = []"
    using ResetBuffer [OF c1(2)] by blast
  with c1 show ?thesis by (auto simp: refines_def BuiltInFrameCodec_Decode_def)
qed

text \<open>Taking \<open>k\<close> bytes that are there, alone and after a look at the stream.\<close>

lemma ShiftN_nat:
  assumes "inv c" "0 < k" "k \<le> length (stream c)"
  obtains c2 where "Conn_ShiftN I (int k) c = Ret (int k, c2)" "inv c2"
    "stream c2 = drop k (stream c)"
  using ShiftN [OF assms(1), of "int k"] assms(2,3) by auto

lemma Read_then_ShiftN:
  assumes "inv c" "0 < k" "k \<le> length (stream c)"
  obtains c1 c2 where "Conn_Read I c = Ret (stream c, c1)" "inv c1" "stream c1 = stream c"
    "Conn_ShiftN I (int k) c1 = Ret (int k, c2)" "inv c2" "stream c2 = drop k (stream c)"
proof -
  obtain c1 where c1: "Conn_Read I c = Ret (stream c, c1)" "inv c1" "stream c1 = stream c"
    using Read [OF assms(1)] by blast
  obtain c2 where "Conn_ShiftN I (int k) c1 = Ret (int k, c2)" "inv c2"
      "stream c2 = drop k (stream c)"
    using ShiftN_nat [OF c1(2)] assms c1(3) by metis
  with c1 that show ?thesis by blast
qed

lemma delim_refines:
  assumes c: "inv c"
    and D: "D = do {
       (buf, c) \<leftarrow> Conn_Read I c;
       let idx = IndexByte buf d;
       if idx = - 1 then Ret (Inl e, c)
       else do {
         (_, c) \<leftarrow> Conn_ShiftN I (idx + 1) c;
         f \<leftarrow> slice_to buf idx;
         Ret (Inr (Some f), c)
       }
     }"
  shows "refines D (Ret (delim_next e d (stream c))) c"
proof (cases "d \<in> set (stream c)")
  case False
  obtain c1 where "Conn_Read I c = Ret (stream c, c1)" "inv c1" "stream c1 = stream c"
    using Read [OF c] by blast
  with False show ?thesis by (simp add: D refines_def delim_next_def go_simps)
next
  case True
  let ?k = "length (takeWhile (\<lambda>x. x \<noteq> d) (stream c))"
  have k: "?k < length (stream c)" using length_takeWhile_mem [OF True] .
  then obtain c1 c2 where "Conn_Read I c = Ret (stream c, c1)" "inv c1"
      "Conn_ShiftN I (int (Suc ?k)) c1 = Ret (int (Suc ?k), c2)" "inv c2"
      "stream c2 = drop (Suc ?k) (stream c)"
    using Read_then_ShiftN [OF c, of "Suc ?k"] by (metis Suc_leI zero_less_Suc)
  with True k show ?thesis
    by (simp add: D refines_def delim_next_def go_simps add.commute Let_def)
qed

lemma Line_refines:
  "inv c \<Longrightarrow> refines (LineBasedFrameCodec_Decode I c) (next_frame LineBasedFrameCodec (stream c)) c"
  by (simp add: delim_refines LineBasedFrameCodec_Decode_def)

lemma Delimiter_refines:
  "inv c \<Longrightarrow> refines (DelimiterBasedFrameCodec_Decode d I c)
     (next_frame (DelimiterBasedFrameCodec d) (stream c)) c"
  by (simp add: delim_refines DelimiterBasedFrameCodec_Decode_def)

lemma Fixed_refines:
  assumes c: "inv c"
  shows "refines (FixedLengthFrameCodec_Decode n I c)
           (next_frame (FixedLengthFrameCodec n) (stream c)) c"
proof -
  let ?k = "clip n (length (stream c))"
  obtain c1 where c1: "Conn_ReadN I n c = Ret ((int ?k, take ?k (stream c)), c1)" "inv c1"
      "stream c1 = stream c"
    using ReadN [OF c, of n] by blast
  show ?thesis
  proof (cases "stream c = []")
    case True
    with c1 show ?thesis by (simp add: refines_def FixedLengthFrameCodec_Decode_def fixed_next_def)
  next
    case False
    then have "0 < int ?k" "int ?k \<le> int (length (stream c))" by simp_all
    then obtain c2 where "Conn_ShiftN I (int ?k) c1 = Ret (int ?k, c2)" "inv c2"
        "stream c2 = drop ?k (stream c)"
      using ShiftN [OF c1(2), of "int ?k"] c1(3) by (auto simp del: clip_eq_0)
    with c1 False show ?thesis
      by (simp add: refines_def FixedLengthFrameCodec_Decode_def fixed_next_def)
  qed
qed

text \<open>
  The length field codec: first the code from the length field on, over the bytes already read,
  then the whole decode.
\<close>

lemma LengthField_message:
  assumes w: "lf_width (dc_LengthFieldLength dc) = Some w"
    and enough: "nat (dc_LengthFieldOffset dc) + w \<le> length s"
    and v: "lf_value (dc_ByteOrder dc) (take w (drop (nat (dc_LengthFieldOffset dc)) s)) = Ret v"
    and m: "m = go_int (sint v + dc_LengthAdjustment dc)"
    and Read: "Conn_Read I c = Ret (s, c1)"
  shows "LengthFieldBasedFrameCodec_Decode dc I c =
    (let k = nat (dc_LengthFieldOffset dc) + w + nat m
     in if m \<le> 0 \<or> length s < k then Ret (Inl errUnexpectedEOF, c1)
        else do {
          (_, c) \<leftarrow> Conn_ShiftN I (int k) c1;
          f \<leftarrow> slice_from (take k s) (dc_InitialBytesToStrip dc);
          Ret (Inr (Some f), c)
        })"
proof -
  let ?off = "nat (dc_LengthFieldOffset dc)"
  let ?body = "drop w (drop ?off s)"
  have "w \<le> length (drop ?off s)" using enough by simp
  note D = LengthFieldBasedFrameCodec_Decode_def Read readN_header [of "dc_LengthFieldOffset dc" s]
    getUnadjusted_ok [OF w this] v Let_def
  have lens: "int (length ?body) < m \<longleftrightarrow> 0 < m \<and> length s < ?off + w + nat m"
    using enough by (cases "0 < m") (auto simp: zless_nat_eq_int_zless nat_less_eq_zless)
  show ?thesis
  proof (cases "m \<le> 0 \<or> int (length ?body) < m")
    case True
    then obtain e where "innerBuffer_readN m ?body = (Inl e, ?body)"
      using innerBuffer_readN_short by blast
    with True enough lens show ?thesis by (auto simp: D simp flip: m)
  next
    case False
    then have "innerBuffer_readN m ?body = (Inr (take (nat m) ?body), drop (nat m) ?body)"
      by (intro innerBuffer_readN_ok) auto
    moreover have full: "take ?off s @ take w (drop ?off s) @ take (nat m) ?body
        = take (?off + w + nat m) s"
      by (simp add: take_add add.commute [of w])
    moreover have "length (take (?off + w + nat m) s) = ?off + w + nat m"
      using False lens by auto
    ultimately show ?thesis using False enough lens by (simp add: D full flip: m)
  qed
qed

lemma LengthField_refines:
  assumes c: "inv c"
  shows "refines (LengthFieldBasedFrameCodec_Decode dc I c) (lf_next dc (stream c)) c"
proof -
  let ?s = "stream c"
  let ?off = "nat (dc_LengthFieldOffset dc)"
  obtain c1 where c1: "Conn_Read I c = Ret (?s, c1)" "inv c1" "stream c1 = ?s"
    using Read [OF c] by blast
  note D = LengthFieldBasedFrameCodec_Decode_def c1 refines_def lf_next_def Let_def
  consider (head) "length ?s < ?off"
    | (bad) "?off \<le> length ?s" "lf_width (dc_LengthFieldLength dc) = None"
    | (field) w where "?off \<le> length ?s" "lf_width (dc_LengthFieldLength dc) = Some w"
        "length ?s < ?off + w"
    | (present) w where "lf_width (dc_LengthFieldLength dc) = Some w" "?off + w \<le> length ?s"
    by (meson not_less option.exhaust)
  then show ?thesis
  proof cases
    case head
    then have "innerBuffer_readN (dc_LengthFieldOffset dc) ?s = (Inl errExceedingBuffer, ?s)"
      "0 < dc_LengthFieldOffset dc" by (auto simp: innerBuffer_readN_def)
    with head show ?thesis by (simp add: D)
  next
    case bad
    then show ?thesis by (simp add: D readN_header getUnadjusted)
  next
    case field
    then show ?thesis by (simp add: D readN_header getUnadjusted)
  next
    case present
    show ?thesis
    proof (cases "lf_value (dc_ByteOrder dc) (take w (drop ?off ?s))")
      case None
      with present show ?thesis by (simp add: D readN_header getUnadjusted_ok)
    next
      case (Some v)
      define m where "m = go_int (sint v + dc_LengthAdjustment dc)"
      let ?k = "?off + w + nat m"
      have code: "LengthFieldBasedFrameCodec_Decode dc I c =
          (if m \<le> 0 \<or> length ?s < ?k then Ret (Inl errUnexpectedEOF, c1)
           else do {
             (_, c) \<leftarrow> Conn_ShiftN I (int ?k) c1;
             f \<leftarrow> slice_from (take ?k ?s) (dc_InitialBytesToStrip dc);
             Ret (Inr (Some f), c)
           })"
        using LengthField_message [OF present Some m_def c1(1)] by (simp only: Let_def)
      show ?thesis
      proof (cases "m \<le> 0 \<or> length ?s < ?k")
        case True
        with present Some c1 show ?thesis
          by (auto simp: code refines_def lf_next_def Let_def simp flip: m_def)
      next
        case False
        then obtain c2 where "Conn_ShiftN I (int ?k) c1 = Ret (int ?k, c2)" "inv c2"
            "stream c2 = drop ?k ?s"
          using ShiftN_nat [OF c1(2), of ?k] c1(3) by (metis add_gr_0 not_less zero_less_nat_eq)
        with False present Some show ?thesis
          by (auto simp: code refines_def lf_next_def Let_def slice_from_def simp flip: m_def)
      qed
    qed
  qed
qed

text \<open>Every codec, on every connection that keeps the contract, is its stream function.\<close>

lemma Decode_refines: "inv c \<Longrightarrow> refines (ICodec_Decode cd I c) (next_frame cd (stream c)) c"
  using BuiltIn_refines Line_refines Delimiter_refines Fixed_refines LengthField_refines
  by (cases cd) simp_all

lemma Decode_Ret:
  assumes "inv c" "next_frame cd (stream c) = Ret (r, k)"
  obtains c' where "ICodec_Decode cd I c = Ret (r, c')" "inv c'" "stream c' = drop k (stream c)"
  using Decode_refines [OF assms(1), of cd] assms(2) by (auto simp: refines_def)

lemma Decode_Panic:
  "inv c \<Longrightarrow> next_frame cd (stream c) = Panic \<Longrightarrow> ICodec_Decode cd I c = Panic"
  using Decode_refines [of c cd] by (simp add: refines_def)

end

end
