(* ===== verification/Framing.thy ===== *)
theory Framing
  imports CodecSpec
begin

text \<open>
  Cutting a byte stream into frames. \<open>frames p s\<close> repeats one decode \<open>p\<close> as the read loop of a
  connection does and gives the frames and the undecoded rest. Three contracts for \<open>p\<close>, each
  extending the one before: \<open>frame_parser\<close> (every frame takes at least one byte, so the loop
  ends), \<open>incremental_parser\<close> (bytes that arrive later do not change a frame) and \<open>framing\<close> (an
  encoder whose frames the parser cuts out again). They are interpreted on the codecs.
\<close>

section \<open>The read loop on a stream\<close>

type_synonym parser = "bytes \<Rightarrow> (bytes \<times> nat) option"

function frames :: "parser \<Rightarrow> bytes \<Rightarrow> bytes list \<times> bytes" where
  "frames p s = (case p s of
      None \<Rightarrow> ([], s)
    | Some (f, k) \<Rightarrow>
        if 0 < k \<and> k \<le> length s then (case frames p (drop k s) of (fs, r) \<Rightarrow> (f # fs, r))
        else ([], s))"
  by pat_completeness auto
termination
  by (relation "measure (\<lambda>(p, s). length s)") auto

declare frames.simps [simp del]

text \<open>Feeding the segments of a stream one after the other, keeping the rest in between.\<close>

fun feed :: "parser \<Rightarrow> bytes \<Rightarrow> bytes list \<Rightarrow> bytes list \<times> bytes" where
  "feed p r [] = ([], r)"
| "feed p r (s # ss) =
     (case frames p (r @ s) of (fs, r') \<Rightarrow> case feed p r' ss of (gs, r'') \<Rightarrow> (fs @ gs, r''))"

fun encode_all :: "(bytes \<Rightarrow> (go_error + bytes) go) \<Rightarrow> bytes list \<Rightarrow> bytes option" where
  "encode_all E [] = Some []"
| "encode_all E (m # ms) = (case E m of
      Some (Inr b) \<Rightarrow> map_option ((@) b) (encode_all E ms)
    | _ \<Rightarrow> None)"

text \<open>The frame a codec cuts off a stream, if it cuts one off.\<close>

definition frame_of :: "ICodec \<Rightarrow> parser" where
  "frame_of cd s = (case next_frame cd s of Some (Inr (Some f), k) \<Rightarrow> Some (f, k) | _ \<Rightarrow> None)"

section \<open>Contracts\<close>

locale frame_parser =
  fixes p :: parser
  assumes progress: "p s = Some (f, k) \<Longrightarrow> 0 < k \<and> k \<le> length s"
begin

lemma frames_None: "p s = None \<Longrightarrow> frames p s = ([], s)"
  by (simp add: frames.simps)

lemma frames_Some:
  "p s = Some (f, k) \<Longrightarrow> frames p s = (case frames p (drop k s) of (fs, r) \<Rightarrow> (f # fs, r))"
  using progress [of s f k] by (subst frames.simps) simp

lemmas frames_eqs = frames_None frames_Some

text \<open>The rest holds no frame any more, and it is a suffix of the stream.\<close>

lemma frames_rest: "p (snd (frames p s)) = None"
proof (induction "length s" arbitrary: s rule: less_induct)
  case less
  show ?case
  proof (cases "p s")
    case (Some fk)
    obtain f k where fk: "p s = Some (f, k)" using Some by (cases fk) auto
    with less [of "drop k s"] progress [OF fk] show ?thesis
      by (auto simp: frames_Some split: prod.splits)
  qed (simp add: frames_None)
qed

lemma frames_suffix: "\<exists>d. s = d @ snd (frames p s)"
proof (induction "length s" arbitrary: s rule: less_induct)
  case less
  show ?case
  proof (cases "p s")
    case (Some fk)
    obtain f k where fk: "p s = Some (f, k)" using Some by (cases fk) auto
    have "length (drop k s) < length s" using progress [OF fk] by auto
    from less [OF this] obtain d where "drop k s = d @ snd (frames p (drop k s))" by blast
    then have "s = (take k s @ d) @ snd (frames p (drop k s))"
      by (metis append.assoc append_take_drop_id)
    moreover have "snd (frames p s) = snd (frames p (drop k s))"
      using fk by (simp add: frames_Some split: prod.splits)
    ultimately show ?thesis by metis
  qed (simp add: frames_None)
qed

lemma frames_length: "length (snd (frames p s)) \<le> length s"
proof -
  obtain d where "s = d @ snd (frames p s)" using frames_suffix by blast
  then show ?thesis by (metis le_add2 length_append)
qed

end

locale incremental_parser = frame_parser +
  assumes stable: "p s = Some (f, k) \<Longrightarrow> p (s @ t) = Some (f, k)"
begin

lemma frames_append:
  "frames p (s @ t) =
     (case frames p s of (fs, r) \<Rightarrow> case frames p (r @ t) of (gs, r') \<Rightarrow> (fs @ gs, r'))"
proof (induction "length s" arbitrary: s rule: less_induct)
  case less
  show ?case
  proof (cases "p s")
    case None
    then show ?thesis by (simp add: frames_None split: prod.splits)
  next
    case (Some fk)
    obtain f k where fk: "p s = Some (f, k)" using Some by (cases fk) auto
    note k = progress [OF fk]
    then have "frames p (drop k s @ t) = (case frames p (drop k s) of (fs, r) \<Rightarrow>
        case frames p (r @ t) of (gs, r') \<Rightarrow> (fs @ gs, r'))"
      by (intro less) auto
    with k fk stable [OF fk, of t] show ?thesis
      by (simp add: frames_Some split: prod.splits)
  qed
qed

text \<open>How the stream was cut into segments does not matter.\<close>

lemma feed_concat:
  assumes "p r = None"
  shows "feed p r ss = frames p (r @ concat ss)"
  using assms
proof (induction ss arbitrary: r)
  case Nil
  then show ?case by (simp add: frames_None)
next
  case (Cons s ss)
  obtain fs r' where fr: "frames p (r @ s) = (fs, r')" by fastforce
  then have "p r' = None" using frames_rest [of "r @ s"] by simp
  with Cons.IH fr show ?case using frames_append [of "r @ s" "concat ss"] by simp
qed

end

locale framing = incremental_parser +
  fixes E :: "bytes \<Rightarrow> (go_error + bytes) go"
    and ok :: "bytes \<Rightarrow> bool"
  assumes roundtrip: "ok m \<Longrightarrow> \<exists>b. E m = Ret (Inr b) \<and> (\<forall>rest. p (b @ rest) = Some (m, length b))"
begin

lemma encode_all_frames:
  "\<forall>m \<in> set ms. ok m \<Longrightarrow>
     \<exists>bs. encode_all E ms = Some bs \<and>
       (\<forall>rest. frames p (bs @ rest) = (case frames p rest of (fs, r) \<Rightarrow> (ms @ fs, r)))"
proof (induction ms)
  case Nil
  then show ?case by simp
next
  case (Cons m ms)
  then obtain bs where bs: "encode_all E ms = Some bs"
    "\<And>rest. frames p (bs @ rest) = (case frames p rest of (fs, r) \<Rightarrow> (ms @ fs, r))" by auto
  have "ok m" using Cons.prems by simp
  then obtain b where b: "E m = Ret (Inr b)" "\<And>rest. p (b @ rest) = Some (m, length b)"
    using roundtrip by blast
  with bs show ?case
    by (intro exI [of _ "b @ bs"]) (simp add: frames_Some split: prod.splits)
qed

text \<open>Messages that were encoded one after the other come out again, however the stream is cut.\<close>

lemma feed_encode_all:
  assumes "\<forall>m \<in> set ms. ok m" and "p [] = None"
  shows "\<exists>bs. encode_all E ms = Some bs \<and> (\<forall>ss. concat ss = bs \<longrightarrow> feed p [] ss = (ms, []))"
proof -
  obtain bs where bs: "encode_all E ms = Some bs"
    "\<And>rest. frames p (bs @ rest) = (case frames p rest of (fs, r) \<Rightarrow> (ms @ fs, r))"
    using encode_all_frames [OF assms(1)] by blast
  have "frames p bs = (ms, [])" using bs(2) [of "[]"] assms(2) by (simp add: frames_None)
  with bs(1) show ?thesis by (auto simp: feed_concat [OF assms(2)])
qed

end

end
