(* ===== verification/CodecFraming.thy ===== *)
theory CodecFraming
  imports Framing
begin

unbundle bit_operations_syntax

text \<open>
  The framing contracts hold of the codecs of the code: all five make progress, the line,
  delimiter and length field codecs are incremental, and these three invert their encoders on
  the messages described by \<open>line_ok\<close>, \<open>delim_ok\<close> and \<open>lf_ok\<close>.
\<close>

section \<open>Progress of every codec\<close>

lemma delim_next_frame:
  "delim_next e d s = (Inr (Some f), k) \<longleftrightarrow>
     d \<in> set s \<and> f = takeWhile (\<lambda>x. x \<noteq> d) s \<and> k = Suc (length f)"
  by (auto simp: delim_next_def Let_def)

text \<open>The length field codec cuts off a frame exactly when all of the message is there.\<close>

definition lf_frame :: "DecoderConfig \<Rightarrow> bytes \<Rightarrow> nat \<Rightarrow> 64 word \<Rightarrow> bytes \<Rightarrow> nat \<Rightarrow> bool" where
  "lf_frame dc s w v f k \<longleftrightarrow>
     (let off = nat (dc_LengthFieldOffset dc); m = go_int (sint v + dc_LengthAdjustment dc)
      in lf_width (dc_LengthFieldLength dc) = Some w \<and> off + w \<le> length s \<and>
         lf_value (dc_ByteOrder dc) (take w (drop off s)) = Ret v \<and>
         0 < m \<and> k = off + w + nat m \<and> k \<le> length s \<and>
         slice_from (take k s) (dc_InitialBytesToStrip dc) = Ret f)"

lemma lf_next_frameD:
  assumes "lf_next dc s = Ret (Inr (Some f), k)"
  shows "\<exists>w v. lf_frame dc s w v f k"
  using assms
  by (auto simp: lf_next_def lf_frame_def Let_def bind_eq_Some_conv split: option.splits if_splits)

lemma lf_next_frameI:
  "lf_frame dc s w v f k \<Longrightarrow> lf_next dc s = Ret (Inr (Some f), k)"
  by (clarsimp simp: lf_next_def lf_frame_def Let_def)

lemma lf_width_pos: "lf_width n = Some w \<Longrightarrow> 0 < w"
  by (auto simp: lf_width_def split: if_splits)

lemma frame_of_Some:
  "frame_of cd s = Some (f, k) \<longleftrightarrow> next_frame cd s = Ret (Inr (Some f), k)"
  by (auto simp: frame_of_def split: option.splits sum.splits)

lemma frame_of_progress: "frame_of cd s = Some (f, k) \<Longrightarrow> 0 < k \<and> k \<le> length s"
  by (cases cd)
     (auto simp: frame_of_Some delim_next_frame fixed_next_def lf_frame_def Let_def
           dest!: lf_next_frameD lf_width_pos intro: Suc_leI length_takeWhile_mem split: if_splits)

interpretation codec: frame_parser "frame_of cd" for cd
  by unfold_locales (rule frame_of_progress)

section \<open>Incremental codecs\<close>

fun incremental :: "ICodec \<Rightarrow> bool" where
  "incremental BuiltInFrameCodec = False"
| "incremental LineBasedFrameCodec = True"
| "incremental (DelimiterBasedFrameCodec d) = True"
| "incremental (FixedLengthFrameCodec n) = False"
| "incremental (LengthFieldBasedFrameCodec ec dc) = True"

lemma lf_frame_append: "lf_frame dc s w v f k \<Longrightarrow> lf_frame dc (s @ t) w v f k"
  by (clarsimp simp: lf_frame_def Let_def)

lemma frame_of_stable:
  "incremental cd \<Longrightarrow> frame_of cd s = Some (f, k) \<Longrightarrow> frame_of cd (s @ t) = Some (f, k)"
  by (cases cd)
     (auto simp: frame_of_Some delim_next_frame
           dest!: lf_next_frameD intro: lf_next_frameI lf_frame_append)

interpretation line: incremental_parser "frame_of LineBasedFrameCodec"
  by unfold_locales (rule frame_of_stable, simp_all)

interpretation delim: incremental_parser "frame_of (DelimiterBasedFrameCodec d)" for d
  by unfold_locales (rule frame_of_stable, simp_all)

interpretation lenfield: incremental_parser "frame_of (LengthFieldBasedFrameCodec ec dc)" for ec dc
  by unfold_locales (rule frame_of_stable, simp_all)

lemma incremental_feed:
  assumes "incremental cd" "frame_of cd r = None"
  shows "feed (frame_of cd) r ss = frames (frame_of cd) (r @ concat ss)"
  using assms line.feed_concat delim.feed_concat lenfield.feed_concat by (cases cd) simp_all

lemma incremental_frames_append:
  assumes "incremental cd" "frames (frame_of cd) s = (fs, r)"
    and "frames (frame_of cd) (r @ t) = (gs, r')"
  shows "frames (frame_of cd) (s @ t) = (fs @ gs, r')"
  using assms line.frames_append [of s t] delim.frames_append [of _ s t]
    lenfield.frames_append [of _ _ s t]
  by (cases cd) simp_all

text \<open>The other two codecs pass every segment on at once.\<close>

lemma eager_frames:
  assumes "\<not> incremental cd"
  shows "concat (fst (frames (frame_of cd) s)) = s \<and> snd (frames (frame_of cd) s) = []"
proof (induction "length s" arbitrary: s rule: less_induct)
  case less
  have cut: "frame_of cd s = None \<and> s = [] \<or> (\<exists>k. frame_of cd s = Some (take k s, k))"
  proof (cases cd)
    case BuiltInFrameCodec
    then show ?thesis by (simp add: frame_of_def)
  next
    case (FixedLengthFrameCodec n)
    then show ?thesis by (simp add: frame_of_def fixed_next_def)
  qed (use assms in simp_all)
  show ?case
  proof (cases "frame_of cd s")
    case None
    with cut show ?thesis by (simp add: codec.frames_None)
  next
    case (Some fk)
    with cut obtain k where k: "frame_of cd s = Some (take k s, k)" by auto
    have "length (drop k s) < length s" using codec.progress [OF k] by simp linarith
    from less [OF this] show ?thesis by (simp add: codec.frames_Some [OF k] case_prod_beta)
  qed
qed

section \<open>Encoders and decoders fit together\<close>

definition line_ok :: "bytes \<Rightarrow> bool" where
  "line_ok m \<longleftrightarrow> CRLFByte \<notin> set m"

definition delim_ok :: "byte \<Rightarrow> bytes \<Rightarrow> bool" where
  "delim_ok d m \<longleftrightarrow> d \<notin> set m"

text \<open>
  The decoder configuration that undoes an encoder configuration (no bytes before the length
  field, the field itself stripped), and the messages whose adjusted length fits the field.
\<close>

definition lf_total :: "EncoderConfig \<Rightarrow> int" where
  "lf_total ec = ec_LengthAdjustment ec
     + (if ec_LengthIncludesLengthFieldLength ec then ec_LengthFieldLength ec else 0)"

definition lf_match :: "EncoderConfig \<Rightarrow> DecoderConfig \<Rightarrow> bool" where
  "lf_match ec dc \<longleftrightarrow>
     dc_ByteOrder dc = ec_ByteOrder ec \<and> dc_LengthFieldOffset dc \<le> 0 \<and>
     dc_LengthFieldLength dc = ec_LengthFieldLength ec \<and>
     dc_LengthAdjustment dc = - lf_total ec \<and>
     dc_InitialBytesToStrip dc = ec_LengthFieldLength ec \<and>
     ec_LengthFieldLength ec \<in> {1, 2, 3, 4, 8} \<and>
     (ec_ByteOrder ec \<noteq> None \<or> ec_LengthFieldLength ec \<in> {1, 3}) \<and>
     \<bar>ec_LengthAdjustment ec\<bar> \<le> 2 ^ 61"

definition lf_fits :: "EncoderConfig \<Rightarrow> bytes \<Rightarrow> bool" where
  "lf_fits ec m \<longleftrightarrow>
     int (length m) < 2 ^ 62 \<and> 0 \<le> int (length m) + lf_total ec \<and>
     int (length m) + lf_total ec < 2 ^ (8 * nat (ec_LengthFieldLength ec))"

definition lf_ok :: "EncoderConfig \<Rightarrow> DecoderConfig \<Rightarrow> bytes \<Rightarrow> bool" where
  "lf_ok ec dc m \<longleftrightarrow> lf_match ec dc \<and> lf_fits ec m \<and> m \<noteq> []"

text \<open>The header the encoder puts in front, and the number the decoder reads from it.\<close>

lemma byte_of_word64: "word_of_int (drop_bit n v) = (ucast (drop_bit n (word_of_int v :: 64 word)) :: byte)"
  if "n \<le> 56"
  by (rule bit_word_eqI) (use that in \<open>auto simp: bit_simps\<close>)

lemma writeUint24_PutUint:
  "writeUint24 bo v =
     PutUint (if bo = Some LittleEndian then LittleEndian else BigEndian) 3 (word_of_int v :: 64 word)"
  using byte_of_word64 [of 0 v] byte_of_word64 [of 8 v] byte_of_word64 [of 16 v]
  by (simp add: writeUint24_def PutUint_def put_le_def numeral_3_eq_3 upt_rec)

lemma uint_lf_value:
  assumes "0 \<le> L" "L < 2 ^ (8 * w)" "8 * w = LENGTH('a)" "w \<notin> {1, 3}" "w \<le> 8"
  shows "\<exists>v. lf_value (Some bo) (PutUint bo w (word_of_int L :: 'a::len word)) = Ret v \<and> uint v = L"
proof -
  let ?b = "PutUint bo w (word_of_int L :: 'a word)"
  have "uint (Uint bo ?b :: 'a word) = L" using assms by (intro uint_Uint_PutUint) auto
  moreover have "(Uint bo ?b :: 64 word) = ucast (Uint bo ?b :: 'a word)"
    using assms by (simp add: ucast_Uint)
  moreover have "(2 :: int) ^ (8 * w) \<le> 2 ^ 64"
    using assms(5) by (intro power_increasing) auto
  then have "L < 2 ^ 64" using assms(2) by linarith
  ultimately show ?thesis using assms
    by (auto simp: lf_value_def order_Uint_def unsigned_ucast_eq take_bit_int_eq_self_iff)
qed

lemma lf_encode:
  assumes w: "ec_LengthFieldLength ec \<in> {1, 2, 3, 4, 8}"
    and bo: "ec_ByteOrder ec \<noteq> None \<or> ec_LengthFieldLength ec \<in> {1, 3}"
    and adj: "\<bar>ec_LengthAdjustment ec\<bar> \<le> 2 ^ 61"
    and fits: "lf_fits ec m"
  shows "\<exists>hdr v. LengthFieldBasedFrameCodec_Encode ec m = Ret (Inr (hdr @ m)) \<and>
      length hdr = nat (ec_LengthFieldLength ec) \<and>
      lf_value (ec_ByteOrder ec) hdr = Ret v \<and> uint v = int (length m) + lf_total ec"
proof -
  define L where "L = int (length m) + lf_total ec"
  have L: "0 \<le> L" "L < 2 ^ (8 * nat (ec_LengthFieldLength ec))"
    using fits by (simp_all add: lf_fits_def L_def)
  let ?l0 = "go_int (int (length m) + ec_LengthAdjustment ec)"
  have "?l0 = int (length m) + ec_LengthAdjustment ec"
    using adj fits by (intro go_int_id) (auto simp: lf_fits_def)
  moreover have "go_int (int (length m) + ec_LengthAdjustment ec + ec_LengthFieldLength ec)
      = int (length m) + ec_LengthAdjustment ec + ec_LengthFieldLength ec"
    using adj fits w by (intro go_int_id) (auto simp: lf_fits_def)
  ultimately have len: "(if ec_LengthIncludesLengthFieldLength ec
      then go_int (?l0 + ec_LengthFieldLength ec) else ?l0) = L"
    by (simp add: L_def lf_total_def)
  have "\<not> L < 0" using L(1) by simp
  note E = LengthFieldBasedFrameCodec_Encode_def Let_def len L this
  consider "ec_LengthFieldLength ec = 1" | "ec_LengthFieldLength ec = 2"
    | "ec_LengthFieldLength ec = 3" | "ec_LengthFieldLength ec = 4" | "ec_LengthFieldLength ec = 8"
    using w by auto
  then show ?thesis
  proof cases
    case 1
    with L have "uint (ucast (word_of_int L :: byte) :: 64 word) = L"
      by (simp add: unsigned_ucast_eq uint_word_of_int_eq take_bit_int_eq_self)
    with 1 L show ?thesis
      by (intro exI [of _ "[word_of_int L]"]) (simp add: E lf_value_def Uint_single L_def)
  next
    case 2
    with bo obtain o' where "ec_ByteOrder ec = Some o'" by auto
    with 2 L uint_lf_value [of L 2 o', where 'a = 16] show ?thesis
      by (auto simp: E order_PutUint_def simp flip: L_def)
  next
    case 3
    let ?o = "if ec_ByteOrder ec = Some LittleEndian then LittleEndian else BigEndian"
    have "uint (Uint ?o (PutUint ?o 3 (word_of_int L :: 64 word)) :: 64 word) = L"
      using L 3 by (intro uint_Uint_PutUint) auto
    with 3 L show ?thesis
      by (auto simp: E lf_value_def writeUint24_PutUint simp flip: L_def)
  next
    case 4
    with bo obtain o' where "ec_ByteOrder ec = Some o'" by auto
    with 4 L uint_lf_value [of L 4 o', where 'a = 32] show ?thesis
      by (auto simp: E order_PutUint_def simp flip: L_def)
  next
    case 5
    with bo obtain o' where "ec_ByteOrder ec = Some o'" by auto
    with 5 L uint_lf_value [of L 8 o', where 'a = 64] show ?thesis
      by (auto simp: E order_PutUint_def simp flip: L_def)
  qed
qed

lemma lf_roundtrip:
  assumes "lf_ok ec dc m"
  shows "\<exists>b. LengthFieldBasedFrameCodec_Encode ec m = Ret (Inr b) \<and>
    (\<forall>rest. frame_of (LengthFieldBasedFrameCodec ec dc) (b @ rest) = Some (m, length b))"
proof -
  have mt: "lf_match ec dc" and fits: "lf_fits ec m" and ne: "m \<noteq> []"
    using assms by (simp_all add: lf_ok_def)
  let ?w = "nat (ec_LengthFieldLength ec)"
  have w: "0 < ?w" "lf_width (ec_LengthFieldLength ec) = Some ?w"
    "0 \<le> ec_LengthFieldLength ec" "?w \<le> 8"
    using mt by (auto simp: lf_match_def lf_width_def)
  obtain hdr v where hdr: "LengthFieldBasedFrameCodec_Encode ec m = Ret (Inr (hdr @ m))"
      "length hdr = ?w" "lf_value (ec_ByteOrder ec) hdr = Ret v"
      "uint v = int (length m) + lf_total ec"
    using lf_encode [OF _ _ _ fits] mt by (auto simp: lf_match_def)
  have "int (length m) + lf_total ec < 2 ^ 63"
    using mt fits by (auto simp: lf_match_def lf_fits_def lf_total_def)
  then have "sint v = int (length m) + lf_total ec" using hdr(4) by (simp add: sint64_uint)
  then have m: "go_int (sint v + dc_LengthAdjustment dc) = int (length m)"
    using mt fits by (simp add: lf_match_def lf_fits_def go_int_id)
  have "lf_frame dc ((hdr @ m) @ rest) ?w v m (length (hdr @ m))" for rest
    using mt fits hdr w m ne
    by (auto simp: lf_frame_def lf_match_def lf_fits_def Let_def slice_from_def)
  with hdr(1) show ?thesis by (auto simp: frame_of_Some dest!: lf_next_frameI)
qed

interpretation lines: framing "frame_of LineBasedFrameCodec" LineBasedFrameCodec_Encode line_ok
  by unfold_locales
     (auto simp: line_ok_def frame_of_def delim_next_def LineBasedFrameCodec_Encode_def Let_def)

interpretation delims: framing "frame_of (DelimiterBasedFrameCodec d)"
  "DelimiterBasedFrameCodec_Encode d" "delim_ok d" for d
  by unfold_locales
     (auto simp: delim_ok_def frame_of_def delim_next_def DelimiterBasedFrameCodec_Encode_def Let_def)

interpretation lenfields: framing "frame_of (LengthFieldBasedFrameCodec ec dc)"
  "LengthFieldBasedFrameCodec_Encode ec" "lf_ok ec dc" for ec dc
  by unfold_locales (rule lf_roundtrip)

text \<open>The messages that survive encoding, decoding and any segmentation, for every codec.\<close>

fun survives :: "ICodec \<Rightarrow> bytes \<Rightarrow> bool" where
  "survives BuiltInFrameCodec m = False"
| "survives LineBasedFrameCodec m = line_ok m"
| "survives (DelimiterBasedFrameCodec d) m = delim_ok d m"
| "survives (FixedLengthFrameCodec n) m = False"
| "survives (LengthFieldBasedFrameCodec ec dc) m = lf_ok ec dc m"

lemma frame_of_Nil: "frame_of cd [] = None"
  using codec.progress [of cd "[]"] by (cases "frame_of cd []") auto

lemma frames_Nil [simp]: "frames (frame_of cd) [] = ([], [])"
  by (simp add: codec.frames_None frame_of_Nil)

lemma Encode_fun:
  "ICodec_Encode LineBasedFrameCodec = LineBasedFrameCodec_Encode"
  "ICodec_Encode (DelimiterBasedFrameCodec d) = DelimiterBasedFrameCodec_Encode d"
  "ICodec_Encode (LengthFieldBasedFrameCodec ec dc) = LengthFieldBasedFrameCodec_Encode ec"
  by (auto simp: fun_eq_iff)

lemma survives_frames:
  assumes "\<forall>m \<in> set ms. survives cd m"
  shows "\<exists>bs. encode_all (ICodec_Encode cd) ms = Some bs \<and>
    (\<forall>rest. frames (frame_of cd) (bs @ rest) =
       (case frames (frame_of cd) rest of (fs, r) \<Rightarrow> (ms @ fs, r)))"
proof (cases "ms = []")
  case False
  show ?thesis
  proof (cases cd)
    case LineBasedFrameCodec
    with assms show ?thesis using lines.encode_all_frames [of ms] by (simp add: Encode_fun)
  next
    case (DelimiterBasedFrameCodec d)
    with assms show ?thesis using delims.encode_all_frames [of ms d] by (simp add: Encode_fun)
  next
    case (LengthFieldBasedFrameCodec ec dc)
    with assms show ?thesis using lenfields.encode_all_frames [of ms ec dc] by (simp add: Encode_fun)
  qed (use assms False in \<open>auto simp: neq_Nil_conv\<close>)
qed simp

end
