(* ===== verification/ConnStream.thy ===== *)
theory ConnStream
  imports Connect CodecFraming
begin

text \<open>
  The buffers of a connection keep the contract of \<open>Conn\<close>: the ring buffer followed by the
  segment just read is one stream, and \<open>Read\<close>, \<open>ReadN\<close>, \<open>ShiftN\<close> and \<open>ResetBuffer\<close> act on it as
  the codecs expect, wherever the boundary between the two buffers lies.
\<close>

definition stream_of :: "('rb \<Rightarrow> bytes) \<Rightarrow> ('rb, 'bb) conn \<Rightarrow> bytes" where
  "stream_of cont c = cont (inBuffer c) @ temporaryBuf c"

text \<open>Everything of a connection but its input buffers.\<close>

definition same_shell :: "('rb, 'bb) conn \<Rightarrow> ('rb, 'bb) conn \<Rightarrow> bool" where
  "same_shell c d \<longleftrightarrow>
     self d = self c \<and> event d = event c \<and> outBuffer d = outBuffer c \<and>
     messageCallback d = messageCallback c \<and> connectCloseCallback d = connectCloseCallback c \<and>
     writeCompleteCallback d = writeCompleteCallback c \<and> state d = state c \<and>
     conn_fd d = conn_fd c \<and> peerAddr d = peerAddr c \<and> idleTime d = idleTime c \<and>
     activeTime d = activeTime c \<and> codeImp d = codeImp c"

lemma same_shell_refl [simp]: "same_shell c c"
  by (simp add: same_shell_def)

lemma same_shell_trans: "same_shell c d \<Longrightarrow> same_shell d e \<Longrightarrow> same_shell c e"
  by (simp add: same_shell_def)

lemma same_shell_input [simp]:
  "same_shell c (d\<lparr>temporaryBuf := t\<rparr>) = same_shell c d"
  "same_shell c (d\<lparr>inBuffer := i\<rparr>) = same_shell c d"
  "same_shell c (d\<lparr>byteBuffer := b\<rparr>) = same_shell c d"
  by (simp_all add: same_shell_def)

named_theorems buf_laws \<open>laws of lawful ring buffers and byte buffers\<close>

lemma bufs_laws [buf_laws]:
  assumes "bufs_ok R cont"
  shows "rb_IsEmpty R r \<longleftrightarrow> cont r = []" "rb_Size R r = int (length (cont r))"
    "cont (rb_Write R r d) = cont r @ d" "cont (rb_RetrieveAll R r) = []"
    "cont (rb_Reset R r) = []" "bb_Bytes R (bb_Get R) = []"
    "bb_Bytes R (bb_Write R b d) = bb_Bytes R b @ d"
  using assms by (simp_all add: bufs_ok_def)

lemma bufs_PeekAll: "bufs_ok R cont \<Longrightarrow> rb_PeekAll R r = (f, e) \<Longrightarrow> cont r = f @ e"
  unfolding bufs_ok_def by (metis fst_conv snd_conv)

lemma bufs_Peek:
  "bufs_ok R cont \<Longrightarrow> 0 \<le> n \<Longrightarrow> rb_Peek R r n = (f, e) \<Longrightarrow> f @ e = take (nat n) (cont r)"
  unfolding bufs_ok_def by (metis fst_conv snd_conv)

lemma bufs_Retrieve [buf_laws]:
  "bufs_ok R cont \<Longrightarrow> n \<le> length (cont r) \<Longrightarrow> cont (rb_Retrieve R r (int n)) = drop n (cont r)"
  by (simp add: bufs_ok_def)

lemma Connect_Read_stream:
  assumes "bufs_ok R cont"
  shows "\<exists>c'. Connect_Read R c = Ret (stream_of cont c, c') \<and> stream_of cont c' = stream_of cont c
    \<and> same_shell c c'"
proof (cases "rb_IsEmpty R (inBuffer c)")
  case True
  then show ?thesis using assms by (simp add: Connect_Read_def stream_of_def buf_laws)
next
  case False
  obtain f e where fe: "rb_PeekAll R (inBuffer c) = (f, e)" by fastforce
  with assms have "cont (inBuffer c) = f @ e" by (rule bufs_PeekAll)
  with False fe assms show ?thesis by (simp add: Connect_Read_def stream_of_def buf_laws Let_def)
qed

lemma Connect_ReadN_stream:
  assumes R: "bufs_ok R cont"
  shows "\<exists>c'. Connect_ReadN R n c =
      Ret ((int (clip n (length (stream_of cont c))),
            take (clip n (length (stream_of cont c))) (stream_of cont c)), c')
      \<and> stream_of cont c' = stream_of cont c \<and> same_shell c c'"
proof -
  let ?k = "clip n (length (stream_of cont c))"
  let ?i = "length (cont (inBuffer c))"
  have n: "(let t = rb_Size R (inBuffer c) + int (length (temporaryBuf c))
      in if t < n \<or> n \<le> 0 then t else n) = int ?k"
    using R by (auto simp: clip_def stream_of_def buf_laws Let_def)
  have k: "?k \<le> ?i + length (temporaryBuf c)"
    using clip_le [of n "length (stream_of cont c)"] by (simp add: stream_of_def)
  have code: "Connect_ReadN R n c =
     (if rb_IsEmpty R (inBuffer c) then do {
        buf \<leftarrow> slice_to (temporaryBuf c) (int ?k);
        Ret ((int ?k, buf), c)
      } else (case rb_Peek R (inBuffer c) (int ?k) of (head, tail) \<Rightarrow>
        let b = bb_Write R (bb_Write R (bb_Get R) head) tail
        in if rb_Size R (inBuffer c) \<ge> int ?k
           then Ret ((int ?k, bb_Bytes R b), c\<lparr>byteBuffer := Some b\<rparr>)
           else do {
             rest \<leftarrow> slice_to (temporaryBuf c) (int ?k - rb_Size R (inBuffer c));
             Ret ((int ?k, bb_Bytes R (bb_Write R b rest)), c\<lparr>byteBuffer := Some (bb_Write R b rest)\<rparr>)
           }))"
    unfolding Connect_ReadN_def n [unfolded Let_def] Let_def by simp
  note D = code stream_of_def bufs_laws [OF R]
  show ?thesis
  proof (cases "rb_IsEmpty R (inBuffer c)")
    case True
    then have "cont (inBuffer c) = []" using R by (simp add: buf_laws)
    with True k show ?thesis by (simp add: D go_simps)
  next
    case False
    obtain h t where ht: "rb_Peek R (inBuffer c) (int ?k) = (h, t)" by fastforce
    from bufs_Peek [OF R _ this] have "h @ t = take ?k (cont (inBuffer c))" by simp
    then have pk: "bb_Bytes R (bb_Write R (bb_Write R (bb_Get R) h) t) = take ?k (cont (inBuffer c))"
      using R by (simp add: buf_laws)
    show ?thesis
    proof (cases "?k \<le> ?i")
      case True
      with False ht pk show ?thesis by (simp add: D)
    next
      case long: False
      then have "slice_to (temporaryBuf c) (int ?k - int ?i) = Ret (take (?k - ?i) (temporaryBuf c))"
        using k by (simp add: slice_to_def flip: of_nat_diff)
      moreover have "h @ t @ x = cont (inBuffer c) @ x" for x
        using \<open>h @ t = _\<close> long by (simp flip: append_assoc)
      ultimately show ?thesis using long False ht by (simp add: D)
    qed
  qed
qed

lemma Connect_ShiftN_stream:
  assumes R: "bufs_ok R cont"
  shows "\<exists>c'. Connect_ShiftN R n c = Ret (int (clip n (length (stream_of cont c))), c')
      \<and> stream_of cont c' = drop (clip n (length (stream_of cont c))) (stream_of cont c) \<and> same_shell c c'"
proof -
  let ?i = "length (cont (inBuffer c))"
  let ?t = "length (temporaryBuf c)"
  note D = Connect_ShiftN_def Connect_ResetBuffer_def stream_of_def clip_def Let_def bufs_laws [OF R]
  show ?thesis
  proof (cases "int ?i + int ?t < n \<or> n \<le> 0")
    case True
    then show ?thesis by (auto simp: D)
  next
    case False
    then obtain k where k: "n = int k" "0 < k" "k \<le> ?i + ?t"
      by (metis int_nat_eq nat_le_iff not_less of_nat_add order_less_imp_le zero_less_nat_eq)
    show ?thesis
    proof (cases "k \<le> ?i")
      case True
      then show ?thesis
        using k bufs_Retrieve [OF R True]
        by (cases "cont (inBuffer c) = []") (auto simp: D slice_from_def)
    next
      case long: False
      then have "slice_from (temporaryBuf c) (int k - int ?i) = Ret (drop (k - ?i) (temporaryBuf c))"
        using k by (simp add: slice_from_def flip: of_nat_diff)
      with long k show ?thesis
        by (cases "cont (inBuffer c) = []") (auto simp: D)
    qed
  qed
qed

lemma Connect_ResetBuffer_stream:
  "bufs_ok R cont \<Longrightarrow> stream_of cont (Connect_ResetBuffer R c) = []"
  "same_shell c (Connect_ResetBuffer R c)"
  by (simp_all add: Connect_ResetBuffer_def stream_of_def buf_laws)

interpretation connect: conn_contract "connect_Conn R" "stream_of cont"
  "\<lambda>c. bufs_ok R cont \<and> same_shell c0 c"
  for R :: "('rb, 'bb) bufs" and cont c0
proof unfold_locales
  fix c :: "('rb, 'bb) conn" and n
  assume inv: "bufs_ok R cont \<and> same_shell c0 c"
  note sims = connect_Conn_def Connect_ResetBuffer_stream
  show "\<exists>c'. Conn_Read (connect_Conn R) c = Ret (stream_of cont c, c') \<and>
      (bufs_ok R cont \<and> same_shell c0 c') \<and> stream_of cont c' = stream_of cont c"
    using Connect_Read_stream [of R cont c] inv same_shell_trans by (fastforce simp: sims)
  show "\<exists>c'. Conn_ResetBuffer (connect_Conn R) c = Ret c' \<and>
      (bufs_ok R cont \<and> same_shell c0 c') \<and> stream_of cont c' = []"
    using inv same_shell_trans by (fastforce simp: sims)
  show "\<exists>c'. Conn_ReadN (connect_Conn R) n c =
      Ret ((int (clip n (length (stream_of cont c))),
            take (clip n (length (stream_of cont c))) (stream_of cont c)), c') \<and>
      (bufs_ok R cont \<and> same_shell c0 c') \<and> stream_of cont c' = stream_of cont c"
    using Connect_ReadN_stream [of R cont n c] inv same_shell_trans by (fastforce simp: sims)
  show "\<exists>c'. Conn_ShiftN (connect_Conn R) n c = Ret (int (clip n (length (stream_of cont c))), c') \<and>
      (bufs_ok R cont \<and> same_shell c0 c') \<and>
      stream_of cont c' = drop (clip n (length (stream_of cont c))) (stream_of cont c)"
    using Connect_ShiftN_stream [of R cont n c] inv same_shell_trans by (fastforce simp: sims)
  show "Conn_BufferLength (connect_Conn R) c = int (length (stream_of cont c))"
    using inv by (simp add: sims Connect_BufferLength_def stream_of_def buf_laws)
qed

end
