(* ===== verification/ConnLemmas.thy ===== *)
theory ConnLemmas
  imports ConnStream
begin

unbundle bit_operations_syntax

text \<open>
  What each operation of a connection leaves alone, in a form the invariants share. \<open>calm\<close>
  says that a step reads nothing, delivers nothing and keeps the input buffers; \<open>app_ok\<close> is what
  is asked of callbacks: they change the loop only through the public methods.
\<close>

section \<open>Event masks as bits\<close>

lemma IsReading_bit: "IsReading e \<longleftrightarrow> bit (events e) 0"
  unfolding IsReading_def mask_bits and_exp_eq_0_iff_not_bit by simp

lemma IsWriting_bit: "IsWriting e \<longleftrightarrow> bit (events e) 1"
  unfolding IsWriting_def mask_bits and_exp_eq_0_iff_not_bit by simp

lemma IsReading_set_mask [simp]:
  "IsReading (set_mask EventRead b e) = b"
  "IsReading (set_mask EventWrite b e) = IsReading e"
  "IsReading (set_mask EventErr b e) = IsReading e"
  unfolding IsReading_bit mask_bits
  by (auto simp: events_set_mask bit_or_iff bit_and_iff bit_not_iff bit_exp_iff)

lemma IsWriting_set_mask [simp]:
  "IsWriting (set_mask EventRead b e) = IsWriting e"
  "IsWriting (set_mask EventWrite b e) = b"
  "IsWriting (set_mask EventErr b e) = IsWriting e"
  unfolding IsWriting_bit mask_bits
  by (auto simp: events_set_mask bit_or_iff bit_and_iff bit_not_iff bit_exp_iff)

section \<open>System calls and the loop's own fields\<close>

text \<open>Two worlds that agree on the loop's fields.\<close>

definition same_loop :: "('k, 'z) loop_scheme \<Rightarrow> ('k, 'z) loop_scheme \<Rightarrow> bool" where
  "same_loop w w' \<longleftrightarrow> eventPool w' = eventPool w \<and> multi w' = multi w \<and>
     loopFunctions w' = loopFunctions w \<and> running w' = running w"

lemma same_loop_emit [simp]: "same_loop w (emit e w')  = same_loop w w'"
  by (simp add: same_loop_def emit_def)

lemma emit_fields [simp]:
  "eventPool (emit e w) = eventPool w" "multi (emit e w) = multi w"
  "running (emit e w) = running w"
  by (simp_all add: emit_def)

lemma sys_same_loop:
  "sys_write S fd d w = (r, w') \<Longrightarrow> same_loop w w'"
  "sys_read S fd n w = (r', w') \<Longrightarrow> same_loop w w'"
  "sys_close S fd w = (r'', w') \<Longrightarrow> same_loop w w'"
  "sys_shutdown_wr S fd w = (r'', w') \<Longrightarrow> same_loop w w'"
  "sys_epoll_ctl S epfd op fd ev w = (r'', w') \<Longrightarrow> same_loop w w'"
  "sys_set_nonblock S fd w = (r'', w') \<Longrightarrow> same_loop w w'"
  by (auto simp: sys_defs same_loop_def split: prod.splits)

section \<open>Steps that neither read nor deliver\<close>

fun quiet_eff :: "effect \<Rightarrow> bool" where
  "quiet_eff (EffRead _ _) = False"
| "quiet_eff (EffMessage _ _) = False"
| "quiet_eff _ = True"

definition quiet :: "('k, 'z) world_scheme \<Rightarrow> ('k, 'z) world_scheme \<Rightarrow> bool" where
  "quiet w w' \<longleftrightarrow> (\<exists>es. trace w' = trace w @ es \<and> list_all quiet_eff es)"

lemma quiet_views1:
  "quiet_eff e \<Longrightarrow> received1 fd e = []" "quiet_eff e \<Longrightarrow> delivered1 i e = []"
  by (cases e; simp)+

lemma quiet_views:
  assumes "quiet w w'"
  shows "received fd (trace w') = received fd (trace w)"
    "delivered i (trace w') = delivered i (trace w)"
proof -
  obtain es where es: "trace w' = trace w @ es" "list_all quiet_eff es"
    using assms by (auto simp: quiet_def)
  from es(2) have "received fd es = [] \<and> delivered i es = []"
    by (induction es) (auto simp: quiet_views1)
  with es(1) show "received fd (trace w') = received fd (trace w)"
    "delivered i (trace w') = delivered i (trace w)" by simp_all
qed

lemma quiet_refl [simp]: "quiet w w"
  by (simp add: quiet_def)

lemma quiet_trans: "quiet w w' \<Longrightarrow> quiet w' w'' \<Longrightarrow> quiet w w''"
  by (auto simp: quiet_def)

lemma quiet_emit: "quiet w w' \<Longrightarrow> quiet_eff e \<Longrightarrow> quiet w (emit e w')"
  by (auto simp: quiet_def)

lemma quiet_trace: "trace w' = trace w'' \<Longrightarrow> quiet w w'' \<Longrightarrow> quiet w w'"
  by (auto simp: quiet_def)

lemma quiet_fields [simp]:
  "quiet (w\<lparr>loopFunctions := fs\<rparr>) v = quiet w v" "quiet (w\<lparr>eventPool := p\<rparr>) v = quiet w v"
  for w :: "('k, 'z) loop_scheme"
  by (simp_all add: quiet_def)

lemma quiet_sys:
  "sys_write S fd d w = (r, w') \<Longrightarrow> quiet w w'"
  "sys_close S fd w = (r'', w') \<Longrightarrow> quiet w w'"
  "sys_shutdown_wr S fd w = (r'', w') \<Longrightarrow> quiet w w'"
  "sys_epoll_ctl S epfd op fd ev w = (r'', w') \<Longrightarrow> quiet w w'"
  by (auto simp: quiet_def dest!: sys_traces)

text \<open>What the input side of a connection is made of.\<close>

definition same_input :: "('rb, 'bb) conn \<Rightarrow> ('rb, 'bb) conn \<Rightarrow> bool" where
  "same_input c d \<longleftrightarrow>
     self d = self c \<and> conn_fd d = conn_fd c \<and> codeImp d = codeImp c \<and>
     messageCallback d = messageCallback c \<and> inBuffer d = inBuffer c \<and>
     temporaryBuf d = temporaryBuf c"

definition calm ::
  "('rb, 'bb) conn \<Rightarrow> ('k, 'z) world_scheme \<Rightarrow> ('rb, 'bb) conn \<times> ('k, 'z) world_scheme \<Rightarrow> bool" where
  "calm c w s \<longleftrightarrow> same_input c (fst s) \<and> quiet w (snd s)"

lemma calm_refl [simp]: "calm c w (c, w)"
  by (simp add: calm_def same_input_def)

lemma calm_trans: "calm c w (d, v) \<Longrightarrow> calm d v s \<Longrightarrow> calm c w s"
  by (auto simp: calm_def same_input_def intro: quiet_trans)

lemma calmI: "same_input c d \<Longrightarrow> quiet w v \<Longrightarrow> calm c w (d, v)"
  by (simp add: calm_def)

section \<open>Callbacks\<close>

definition app_ok :: "('rb, 'bb, ('k, 'z) loop_scheme) app \<Rightarrow> bool" where
  "app_ok A \<longleftrightarrow>
     (\<forall>c f w r w'. on_message A c f w = (r, w') \<longrightarrow> trace w' = trace w \<and> same_loop w w') \<and>
     (\<forall>c w as w'. on_close A c w = (as, w') \<longrightarrow> trace w' = trace w \<and> same_loop w w') \<and>
     (\<forall>c w as w'. on_write_complete A c w = (as, w') \<longrightarrow> trace w' = trace w \<and> same_loop w w')"

lemma app_okD:
  "app_ok A \<Longrightarrow> on_message A c f w = (r, w') \<Longrightarrow> trace w' = trace w \<and> same_loop w w'"
  "app_ok A \<Longrightarrow> on_close A c w = (as, w') \<Longrightarrow> trace w' = trace w \<and> same_loop w w'"
  "app_ok A \<Longrightarrow> on_write_complete A c w = (as, w') \<Longrightarrow> trace w' = trace w \<and> same_loop w w'"
  unfolding app_ok_def by blast+

lemma quiet_app:
  "app_ok A \<Longrightarrow> on_message A c f w = (r, w') \<Longrightarrow> quiet w w'"
  "app_ok A \<Longrightarrow> on_close A c w = (as, w') \<Longrightarrow> quiet w w'"
  "app_ok A \<Longrightarrow> on_write_complete A c w = (as, w') \<Longrightarrow> quiet w w'"
  using app_okD [of A] quiet_trace [of w' w w] by (metis quiet_refl)+

section \<open>The operations are calm\<close>

lemma RunInLoop_quiet: "quiet w (RunInLoop S f w)"
  by (auto simp: RunInLoop_def Multiplex_Wake_def split: prod.splits sum.splits
      dest!: quiet_sys(1))

lemma Event_update_quiet: "Event_update S e w = (err, e', w') \<Longrightarrow> quiet w w' \<and> e' = e"
  by (auto simp: Event_update_def EventCtrl_modifyEvent_def Multiplex_ModifyEvent_def epollCtrl_def
      split: prod.splits dest: quiet_sys)

lemma UnRegister_quiet: "UnRegister S e w = (err, w') \<Longrightarrow> quiet w w'"
  by (auto simp: UnRegister_def EventCtrl_removeEvent_def Multiplex_RemoveEvent_def epollCtrl_def
      dest!: quiet_sys split: if_splits)

lemma run_api_calm: "calm c w (run_api S as c w)"
proof (induction as arbitrary: c w)
  case Nil
  then show ?case by simp
next
  case (Cons a as)
  have "calm c w (c, snd (Connect_Close S c w))" "calm c w (c, snd (WriteInSelfLoop S b c w))" for b
    by (auto simp: Connect_Close_def WriteInSelfLoop_def RunInLoop_quiet calm_def same_input_def)
  moreover have "calm c w (d, v)" if "ShutdownWrite S c w = (err, d, v)" for err d v
    using that by (auto simp: ShutdownWrite_def calm_def same_input_def split: if_splits prod.splits
        dest: quiet_sys)
  ultimately show ?case
    by (cases a) (auto intro: calm_trans [OF _ Cons.IH] split: prod.splits)
qed

lemma enable_calm: "calm c w (enable_writing S b c w)" "calm c w (enable_reading S b c w)"
  by (auto simp: enable_writing_def enable_reading_def EnableWriting_def EnableReading_def
      calm_def same_input_def split: prod.splits dest!: Event_update_quiet)

text \<open>Running a callback and then the calls it makes.\<close>

lemma quiet_emit_left: "quiet_eff e \<Longrightarrow> quiet (emit e w) v \<Longrightarrow> quiet w v"
  by (auto intro: quiet_trans [OF quiet_emit [OF quiet_refl]])

lemma emitted_calm:
  "quiet_eff e \<Longrightarrow> quiet (emit e w) w' \<Longrightarrow> calm c w (run_api S as c w')"
  by (rule calm_trans [OF calmI run_api_calm]) (auto intro: quiet_emit_left simp: same_input_def)

lemma callback_calm:
  assumes "app_ok A" "quiet_eff e"
  shows "on_close A c (emit e w) = (as, w') \<Longrightarrow> calm c w (run_api S as c w')"
    "on_write_complete A c (emit e w) = (as, w') \<Longrightarrow> calm c w (run_api S as c w')"
  using assms by (blast intro: emitted_calm quiet_app)+

lemma set_out_calm: "quiet w v \<Longrightarrow> calm c w (c\<lparr>outBuffer := b\<rparr>, v)"
  "quiet w v \<Longrightarrow> calm c w (c, v)"
  by (simp_all add: calm_def same_input_def)

end
