(* ===== verification/ConnRead.thy ===== *)
theory ConnRead
  imports ConnLemmas
begin

text \<open>
  The read path: for a codec that cannot panic the frame loop returns (it never runs for ever),
  hands exactly the frames of the buffered stream to the application, in order, and keeps the
  undecoded rest; writing answers and closing in between do not disturb it.
\<close>

section \<open>Writing and closing are calm\<close>

text \<open>Closing an open connection, step by step.\<close>

definition closing where
  "closing S A c w c1 w2 c3 w3 w4 \<longleftrightarrow> (\<exists>e1 e2 e4 ev w1.
     Event_update S ((event c)\<lparr>oldEvents := events (event c), events := EventNone\<rparr>) w = (e1, ev, w1) \<and>
     c1 = c\<lparr>state := Disconnected, event := ev\<rparr> \<and>
     UnRegister S ev w1 = (e2, w2) \<and>
     (c3, w3) = (if connectCloseCallback c then
         (case on_close A c1 (emit (EffConnectClose (self c)) w2) of (acts, w) \<Rightarrow> run_api S acts c1 w)
       else (c1, w2)) \<and>
     sys_close S (conn_fd c3) w3 = (e4, w4))"

lemma closeEvent_steps:
  assumes "state c \<noteq> Disconnected"
  obtains c1 w2 c3 w3 w4 where "closing S A c w c1 w2 c3 w3 w4"
    "closeEvent S A c w = (c3, emit (EffPutBuffers (self c3)) w4)"
proof -
  obtain e1 ev w1 where 1: "Event_update S
      ((event c)\<lparr>oldEvents := events (event c), events := EventNone\<rparr>) w = (e1, ev, w1)"
    by (metis prod_cases3)
  define c1 where "c1 = c\<lparr>state := Disconnected, event := ev\<rparr>"
  obtain e2 w2 where 2: "UnRegister S ev w1 = (e2, w2)" by fastforce
  define s3 where "s3 = (if connectCloseCallback c then
         (case on_close A c1 (emit (EffConnectClose (self c)) w2) of (acts, w) \<Rightarrow> run_api S acts c1 w)
       else (c1, w2))"
  obtain c3 w3 where 3: "s3 = (c3, w3)" by fastforce
  obtain e4 w4 where 4: "sys_close S (conn_fd c3) w3 = (e4, w4)" by fastforce
  have "closeEvent S A c w = (c3, emit (EffPutBuffers (self c3)) w4)"
    using assms 1 2 3 4
    by (cases "connectCloseCallback c")
       (auto simp: closeEvent_def DisableAll_def c1_def s3_def Let_def case_prod_beta)
  moreover have "closing S A c w c1 w2 c3 w3 w4"
    unfolding closing_def using 1 2 3 4 c1_def s3_def by metis
  ultimately show thesis using that by blast
qed

lemma closeEvent_calm:
  assumes A: "app_ok A"
  shows "calm c w (closeEvent S A c w)"
proof (cases "state c = Disconnected")
  case True
  then show ?thesis by (simp add: closeEvent_def)
next
  case False
  obtain c1 c3 w2 w3 w4 where s: "closing S A c w c1 w2 c3 w3 w4"
    "closeEvent S A c w = (c3, emit (EffPutBuffers (self c3)) w4)"
    using closeEvent_steps [OF False] .
  note s = s(1) [unfolded closing_def]
  have "calm c w (c1, w2)"
    using s by (auto simp: calm_def same_input_def dest!: Event_update_quiet UnRegister_quiet
        intro: quiet_trans)
  moreover have "calm c1 w2 (c3, w3)"
    using s callback_calm(1) [OF A, of "EffConnectClose (self c)"]
    by (auto split: if_splits prod.splits)
  moreover have "calm c3 w3 (c3, emit (EffPutBuffers (self c3)) w4)"
    using s by (auto simp: calm_def same_input_def dest!: quiet_sys intro: quiet_emit)
  ultimately show ?thesis using \<open>closeEvent S A c w = _\<close> by (auto intro: calm_trans)
qed

lemma conn_write_calm:
  assumes A: "app_ok A"
  shows "calm c w (conn_write R S A data c w)"
proof -
  let ?w = "emit (EffSubmit (self c) data) w"
  have 0: "calm c w (c\<lparr>outBuffer := b\<rparr>, ?w)" "calm c w (c, ?w)" for b
    by (auto simp: calm_def same_input_def intro: quiet_emit)
  have "calm c w (c\<lparr>outBuffer := b\<rparr>, w')" "calm c w (c, w')" 
    if "sys_write S (conn_fd c) data ?w = (r, w')" for r w' b
    using 0 quiet_sys(1) [OF that] by (auto simp: calm_def intro: quiet_trans)
  with 0 show ?thesis
    by (auto simp: conn_write_def Let_def split: prod.splits sum.splits
        intro: calm_trans [OF _ enable_calm(1)] calm_trans [OF _ closeEvent_calm [OF A]])
qed

lemma write_drained_calm:
  assumes A: "app_ok A"
  shows "calm c w (write_drained R S A c w)"
proof -
  define s1 where "s1 = (if IsWriting (event c) then enable_writing S False c w else (c, w))"
  obtain c1 w1 where 1: "s1 = (c1, w1)" by fastforce
  define s2 where "s2 = (if \<not> IsReading (event c1) then enable_reading S True c1 w1 else (c1, w1))"
  obtain c2 w2 where 2: "s2 = (c2, w2)" by fastforce
  have "calm c w (c1, w1)" unfolding 1 [symmetric] s1_def by (simp add: enable_calm)
  moreover have "calm c1 w1 (c2, w2)" unfolding 2 [symmetric] s2_def by (simp add: enable_calm)
  ultimately have 12: "calm c w (c2, w2)" by (rule calm_trans)
  moreover have "calm c w (run_api S acts c2 w3)"
    if "on_write_complete A c2 (emit (EffWriteComplete (self c2)) w2) = (acts, w3)" for acts w3
    using callback_calm(2) [OF A _ that] by (auto intro: calm_trans [OF 12])
  ultimately show ?thesis
    using 1 2 unfolding s1_def s2_def
    by (auto simp: write_drained_def Let_def split: prod.splits)
qed

lemma update_calm: "calm c w (updateActivityTime S c w, w)"
  by (simp add: calm_def same_input_def updateActivityTime_def)

lemma writeEvent_calm:
  assumes A: "app_ok A"
  shows "calm c w (writeEvent R S A c w)"
proof -
  let ?c = "updateActivityTime S c w"
  obtain f e where pk: "rb_PeekAll R (outBuffer ?c) = (f, e)" by fastforce
  obtain r1 w1 where 1: "sys_write S (conn_fd ?c) f w = (r1, w1)" by fastforce
  obtain r2 w2 where 2: "sys_write S (conn_fd ?c) e w1 = (r2, w2)" by fastforce
  have q: "quiet w w1" "quiet w w2"
    using quiet_sys(1) [OF 1] quiet_sys(1) [OF 2] by (auto intro: quiet_trans)
  have "calm ?c w (writeEvent R S A c w)"
    using pk 1 2
    by (auto simp: writeEvent_def Let_def split: sum.splits
        intro: set_out_calm q calm_trans [OF set_out_calm(1) [OF q(1)] write_drained_calm [OF A]]
          calm_trans [OF set_out_calm(2) [OF q(1)] closeEvent_calm [OF A]]
          calm_trans [OF set_out_calm(1) [OF q(2)] write_drained_calm [OF A]]
          calm_trans [OF set_out_calm(1) [OF q(2)] closeEvent_calm [OF A]])
  then show ?thesis by (rule calm_trans [OF update_calm])
qed

section \<open>Codecs that cannot panic\<close>

definition codec_safe :: "ICodec \<Rightarrow> bool" where
  "codec_safe cd \<longleftrightarrow> (\<forall>s. next_frame cd s \<noteq> Panic) \<and> (\<forall>m. ICodec_Encode cd m \<noteq> Panic)"

text \<open>
  A condition on the configuration: a byte order is set where one is used, a frame length is
  not zero, and no more bytes are stripped than the shortest frame has.
\<close>

fun codec_wf :: "ICodec \<Rightarrow> bool" where
  "codec_wf BuiltInFrameCodec = True"
| "codec_wf LineBasedFrameCodec = True"
| "codec_wf (DelimiterBasedFrameCodec d) = True"
| "codec_wf (FixedLengthFrameCodec n) = (n \<noteq> 0)"
| "codec_wf (LengthFieldBasedFrameCodec ec dc) =
     ((ec_ByteOrder ec \<noteq> None \<or> ec_LengthFieldLength ec \<notin> {2, 4, 8}) \<and>
      (dc_ByteOrder dc \<noteq> None \<or> dc_LengthFieldLength dc \<notin> {2, 4, 8}) \<and>
      0 \<le> dc_InitialBytesToStrip dc \<and>
      dc_InitialBytesToStrip dc \<le> max 0 (dc_LengthFieldOffset dc) + dc_LengthFieldLength dc + 1)"

lemma lf_next_no_panic:
  assumes "codec_wf (LengthFieldBasedFrameCodec ec dc)"
  shows "lf_next dc s \<noteq> Panic"
proof (cases "lf_width (dc_LengthFieldLength dc)")
  case None
  then show ?thesis by (simp add: lf_next_def Let_def)
next
  case (Some w)
  let ?off = "nat (dc_LengthFieldOffset dc)"
  have w: "dc_LengthFieldLength dc = int w" "w \<in> {1, 2, 3, 4, 8}"
    using Some by (auto simp: lf_width_def split: if_splits)
  have strip: "0 \<le> dc_InitialBytesToStrip dc" "dc_InitialBytesToStrip dc \<le> int ?off + int w + 1"
    using assms w by (auto simp: max_def split: if_splits)
  show ?thesis
  proof (cases "?off + w \<le> length s")
    case False
    then show ?thesis using Some by (simp add: lf_next_def Let_def)
  next
    case True
    then obtain v where v: "lf_value (dc_ByteOrder dc) (take w (drop ?off s)) = Ret v"
      using assms w by (auto simp: lf_value_def order_Uint_def)
    define m where "m = go_int (sint v + dc_LengthAdjustment dc)"
    have "\<exists>f. slice_from (take (?off + w + nat m) s) (dc_InitialBytesToStrip dc) = Ret f"
      if "\<not> (m \<le> 0 \<or> length s < ?off + w + nat m)"
      using that strip by (auto simp: slice_from_def)
    then show ?thesis using True Some v unfolding lf_next_def Let_def m_def by fastforce
  qed
qed

lemma lf_encode_no_panic:
  assumes "codec_wf (LengthFieldBasedFrameCodec ec dc)"
  shows "LengthFieldBasedFrameCodec_Encode ec m \<noteq> Panic"
  using assms
  by (auto simp: LengthFieldBasedFrameCodec_Encode_def order_PutUint_def Let_def
      split: option.splits)

lemma codec_wf_safe:
  assumes "codec_wf cd"
  shows "codec_safe cd"
proof (cases cd)
  case (LengthFieldBasedFrameCodec ec dc)
  then show ?thesis
    using assms lf_next_no_panic [of ec dc] lf_encode_no_panic [of ec dc]
    unfolding codec_safe_def by (simp del: codec_wf.simps)
qed (use assms in \<open>simp_all add: codec_safe_def BuiltInFrameCodec_Encode_def
       LineBasedFrameCodec_Encode_def DelimiterBasedFrameCodec_Encode_def
       FixedLengthFrameCodec_Encode_def\<close>)

section \<open>One frame\<close>

text \<open>What a step that may deliver frames \<open>fs\<close> does to the input side.\<close>

definition hands ::
  "bytes list \<Rightarrow> ('rb, 'bb) conn \<Rightarrow> ('k, 'z) world_scheme \<Rightarrow>
     ('rb, 'bb) conn \<Rightarrow> ('k, 'z) world_scheme \<Rightarrow> bool" where
  "hands fs c w d v \<longleftrightarrow>
     self d = self c \<and> conn_fd d = conn_fd c \<and> codeImp d = codeImp c \<and>
     messageCallback d = messageCallback c \<and>
     (\<forall>i. delivered i (trace v) = delivered i (trace w) @ (if i = self c then fs else [])) \<and>
     (\<forall>fd. received fd (trace v) = received fd (trace w))"

lemma calm_hands: "calm c w (d, v) \<Longrightarrow> hands [] c w d v"
  by (auto simp: calm_def hands_def same_input_def quiet_views)

lemma hands_trans: "hands fs c w d v \<Longrightarrow> hands gs d v e u \<Longrightarrow> hands (fs @ gs) c w e u"
  by (auto simp: hands_def)

lemma hands_message: "hands [f] c w c (emit (EffMessage (self c) f) w)"
  by (auto simp: hands_def)

lemma hands_refl: "hands [] c w c w"
  by (simp add: hands_def)

lemma deliver_hands:
  assumes A: "app_ok A" and cd: "codec_safe (codeImp c)" and cb: "messageCallback c"
  obtains d v where "deliver R S A f c w = Ret (d, v)" "hands [f] c w d v" "same_input c d"
proof -
  let ?w = "emit (EffMessage (self c) f) w"
  obtain out acts w1 where 1: "on_message A c f ?w = ((out, acts), w1)" by (metis surj_pair)
  obtain c2 w2 where 2: "run_api S acts c w1 = (c2, w2)" by fastforce
  have "calm c ?w (c, w1)" using quiet_app(1) [OF A 1] by (simp add: set_out_calm)
  moreover have "calm c w1 (c2, w2)" using run_api_calm [of c w1 S acts] 2 by simp
  ultimately have calm2: "calm c ?w (c2, w2)" by (rule calm_trans)
  note result = that
  have fin: thesis if "deliver R S A f c w = Ret (d, v)" "calm c2 w2 (d, v)" for d v
  proof -
    have "calm c ?w (d, v)" using calm2 that(2) by (rule calm_trans)
    with that(1) show thesis
      using result [of d v] hands_trans [OF hands_message calm_hands, of c f w d v]
      by (simp add: calm_def)
  qed
  show thesis
  proof (cases out)
    case None
    with cb 1 2 show thesis by (intro fin [of c2 w2]) (simp_all add: deliver_def)
  next
    case (Some b)
    obtain r where r: "ICodec_Encode (codeImp c) b = Ret r" using cd by (auto simp: codec_safe_def)
    have "codeImp c2 = codeImp c" using calm2 by (simp add: calm_def same_input_def)
    note D = deliver_def cb 1 2 Some this r
    show thesis
    proof (cases "\<exists>o'. r = Inr o' \<and> 0 < length o'")
      case True
      then obtain o' where o': "r = Inr o'" "0 < length o'" by blast
      obtain d v where "conn_write R S A o' c2 w2 = (d, v)" by fastforce
      with o' show thesis using conn_write_calm [OF A, of c2 w2 R S o']
        by (intro fin [of d v]) (simp_all add: D)
    next
      case False
      then show thesis by (intro fin [of c2 w2]) (auto simp: D split: sum.splits)
    qed
  qed
qed

section \<open>The frame loop\<close>

lemma frame_of_None:
  assumes "codec_safe cd" "frame_of cd s = None"
  obtains r where "next_frame cd s = Ret (r, 0)" "\<forall>f. r \<noteq> Inr (Some f)"
proof -
  have "next_frame cd s \<noteq> None" using assms(1) by (simp add: codec_safe_def)
  then obtain r k where rk: "next_frame cd s = Ret (r, k)" by (cases "next_frame cd s") auto
  have r: "\<forall>f. r \<noteq> Inr (Some f)" using assms(2) rk by (auto simp: frame_of_def)
  moreover have "k = 0" using rk r
    by (cases cd)
       (auto simp: delim_next_def fixed_next_def lf_next_def Let_def bind_eq_Some_conv
         split: if_splits option.splits)
  ultimately show thesis using that rk by simp
qed

lemma connect_Decode:
  assumes "bufs_ok R cont" "next_frame cd (stream_of cont c) = Ret (r, k)"
  obtains d where "ICodec_Decode cd (connect_Conn R) c = Ret (r, d)"
    "stream_of cont d = drop k (stream_of cont c)" "same_shell c d"
  using connect.Decode_Ret [where c0 = c and c = c, OF _ assms(2), of R] assms(1)
  by (metis same_shell_refl)

lemma same_shell_hands: "same_shell c d \<Longrightarrow> hands [] c w d w"
  by (simp add: same_shell_def hands_def)

text \<open>The loop returns, and has handed over all frames of the stream and nothing else.\<close>

lemma read_loop_frames:
  assumes R: "bufs_ok R cont" and A: "app_ok A" and cd: "codec_safe (codeImp c)"
    and cb: "messageCallback c"
  shows "\<exists>d v. read_loop R S A c w = Ret (d, v) \<and>
    hands (fst (frames (frame_of (codeImp c)) (stream_of cont c))) c w d v \<and>
    stream_of cont d = snd (frames (frame_of (codeImp c)) (stream_of cont c))"
  using cd cb
proof (induction "length (stream_of cont c)" arbitrary: c w rule: less_induct)
  case less
  let ?p = "frame_of (codeImp c)"
  let ?s = "stream_of cont c"
  show ?case
  proof (cases "?p ?s")
    case None
    obtain r where r: "next_frame (codeImp c) ?s = Ret (r, 0)" "\<forall>f. r \<noteq> Inr (Some f)"
      using frame_of_None [OF less.prems(1) None] .
    obtain c1 where c1: "ICodec_Decode (codeImp c) (connect_Conn R) c = Ret (r, c1)"
      "same_shell c c1" "stream_of cont c1 = ?s"
      using connect_Decode [OF R r(1)] by auto
    then have "read_loop R S A c w = Ret (c1, w)"
      using r(2) by (subst read_loop.simps) (auto split: sum.splits option.splits)
    with c1 None show ?thesis by (auto simp: codec.frames_None intro: same_shell_hands)
  next
    case (Some fk)
    obtain f k where fk: "?p ?s = Some (f, k)" using Some by (cases fk) auto
    then have nf: "next_frame (codeImp c) ?s = Ret (Inr (Some f), k)" by (simp add: frame_of_Some)
    obtain c1 where c1: "ICodec_Decode (codeImp c) (connect_Conn R) c = Ret (Inr (Some f), c1)"
      "same_shell c c1" "stream_of cont c1 = drop k ?s"
      using connect_Decode [OF R nf] .
    have shell: "codeImp c1 = codeImp c" "messageCallback c1" "self c1 = self c"
      using c1(2) less.prems by (simp_all add: same_shell_def)
    obtain c2 w2 where 2: "deliver R S A f c1 w = Ret (c2, w2)" "hands [f] c1 w c2 w2"
      "same_input c1 c2"
      using deliver_hands [OF A, of c1 R S f w] less.prems shell by auto
    have s2: "stream_of cont c2 = drop k ?s" "codeImp c2 = codeImp c" "messageCallback c2"
      using 2(3) c1(3) shell by (simp_all add: stream_of_def same_input_def)
    have "length (stream_of cont c2) < length ?s"
      using codec.progress [OF fk] by (simp add: s2) linarith
    from less.hyps [OF this, of w2] less.prems s2
    obtain d v where dv: "read_loop R S A c2 w2 = Ret (d, v)"
      "hands (fst (frames ?p (drop k ?s))) c2 w2 d v"
      "stream_of cont d = snd (frames ?p (drop k ?s))" by auto
    have "read_loop R S A c w = Ret (d, v)"
      using c1(1) 2(1) dv(1) by (subst read_loop.simps) simp
    moreover have "hands (f # fst (frames ?p (drop k ?s))) c w d v"
      using hands_trans [OF hands_trans [OF same_shell_hands 2(2)] dv(2), of c] c1(2) by simp
    ultimately show ?thesis using dv(3) by (simp add: codec.frames_Some [OF fk] case_prod_beta)
  qed
qed

text \<open>
  A read event returns. When a segment arrives, it hands over the frames this completes and
  keeps the rest.
\<close>

lemma readEvent_data:
  assumes R: "bufs_ok R cont" and A: "app_ok A" and cd: "codec_safe (codeImp c)"
    and cb: "messageCallback c" and out: "cont (outBuffer c) = []"
    and r: "sys_read S (conn_fd c) 65535 w = (Inr bs, w1)" and bs: "bs \<noteq> []"
  shows "\<exists>d v. readEvent R S A c w = Ret (d, v) \<and>
    hands (fst (frames (frame_of (codeImp c)) (cont (inBuffer c) @ bs))) c w1 d v \<and>
    cont (inBuffer d) = snd (frames (frame_of (codeImp c)) (cont (inBuffer c) @ bs))"
proof -
  let ?c = "(updateActivityTime S c w)\<lparr>temporaryBuf := bs\<rparr>"
  have shell: "codeImp ?c = codeImp c" "messageCallback ?c" "conn_fd ?c = conn_fd c"
    "inBuffer ?c = inBuffer c" "outBuffer ?c = outBuffer c" "self ?c = self c"
    using cb by (simp_all add: updateActivityTime_def)
  then have "stream_of cont ?c = cont (inBuffer c) @ bs" by (simp add: stream_of_def)
  with read_loop_frames [OF R A, of ?c S w1] cd shell
  obtain d v where dv: "read_loop R S A ?c w1 = Ret (d, v)"
    "hands (fst (frames (frame_of (codeImp c)) (cont (inBuffer c) @ bs))) ?c w1 d v"
    "stream_of cont d = snd (frames (frame_of (codeImp c)) (cont (inBuffer c) @ bs))" by auto
  let ?e = "d\<lparr>inBuffer := rb_Write R (inBuffer d) (temporaryBuf d)\<rparr>"
  have "readEvent R S A c w = Ret (?e, v)"
    using out R r bs dv(1) shell by (simp add: readEvent_def buf_laws)
  moreover have "cont (inBuffer ?e) = stream_of cont d"
    using R by (simp add: stream_of_def buf_laws)
  moreover have "hands (fst (frames (frame_of (codeImp c)) (cont (inBuffer c) @ bs))) c w1 ?e v"
    using dv(2) shell cb by (simp add: hands_def)
  ultimately show ?thesis using dv(3) by (metis (no_types, lifting))
qed

text \<open>Otherwise it is calm: unsent bytes, nothing to read, end of stream, or an error.\<close>

lemma readEvent_blocked:
  fixes w :: "('k, 'z) loop_scheme"
  assumes A: "app_ok A" and R: "bufs_ok R cont"
  shows "cont (outBuffer c) \<noteq> [] \<Longrightarrow> \<exists>d v. readEvent R S A c w = Ret (d, v) \<and> calm c w (d, v)"
    "cont (outBuffer c) = [] \<Longrightarrow> sys_read S (conn_fd c) 65535 w = (r, w1) \<Longrightarrow>
       (\<forall>bs. r = Inr bs \<longrightarrow> bs = []) \<Longrightarrow> \<exists>d v. readEvent R S A c w = Ret (d, v) \<and> calm c w1 (d, v)"
proof -
  let ?c = "updateActivityTime S c w"
  have shell: "conn_fd ?c = conn_fd c" "outBuffer ?c = outBuffer c"
    by (simp_all add: updateActivityTime_def)
  have up: "calm c v (?c, v)" for v :: "('k, 'z) loop_scheme"
    by (simp add: calm_def same_input_def updateActivityTime_def)
  note en = calm_trans [OF up enable_calm(2)] and cl = calm_trans [OF up closeEvent_calm [OF A]]
  show "\<exists>d v. readEvent R S A c w = Ret (d, v) \<and> calm c w (d, v)" if "cont (outBuffer c) \<noteq> []"
    using that shell R en [of w S False]
    by (cases "enable_reading S False ?c w") (auto simp: readEvent_def buf_laws)
  show "\<exists>d v. readEvent R S A c w = Ret (d, v) \<and> calm c w1 (d, v)"
    if "cont (outBuffer c) = []" "sys_read S (conn_fd c) 65535 w = (r, w1)"
      "\<forall>bs. r = Inr bs \<longrightarrow> bs = []"
    using that shell R cl [of w1 S] up [of w1]
    by (cases "closeEvent S A ?c w1") (auto simp: readEvent_def buf_laws Let_def split: sum.splits)
qed

lemma readEvent_frames:
  assumes R: "bufs_ok R cont" and A: "app_ok A" and cd: "codec_safe (codeImp c)"
    and cb: "messageCallback c"
  obtains (calm) d v where "readEvent R S A c w = Ret (d, v)" "calm c w (d, v)"
  | (empty) r w1 d v where "sys_read S (conn_fd c) 65535 w = (r, w1)"
      "r = Inr [] \<or> (\<exists>e. r = Inl e)" "readEvent R S A c w = Ret (d, v)" "calm c w1 (d, v)"
  | (data) bs w1 d v where "sys_read S (conn_fd c) 65535 w = (Inr bs, w1)" "bs \<noteq> []"
      "readEvent R S A c w = Ret (d, v)"
      "hands (fst (frames (frame_of (codeImp c)) (cont (inBuffer c) @ bs))) c w1 d v"
      "cont (inBuffer d) = snd (frames (frame_of (codeImp c)) (cont (inBuffer c) @ bs))"
proof (cases "cont (outBuffer c) = []")
  case False
  then show thesis using readEvent_blocked(1) [OF A R False] calm by blast
next
  case True
  obtain r w1 where r: "sys_read S (conn_fd c) 65535 w = (r, w1)" by fastforce
  show thesis
  proof (cases "\<forall>bs. r = Inr bs \<longrightarrow> bs = []")
    case no: True
    then have "r = Inr [] \<or> (\<exists>e. r = Inl e)" by (cases r) auto
    then show thesis using readEvent_blocked(2) [OF A R True r no] r empty by blast
  next
    case False
    then obtain bs where bs: "r = Inr bs" "bs \<noteq> []" by blast
    from readEvent_data [OF R A cd cb True r [unfolded bs(1)] bs(2)] r bs data show thesis by blast
  qed
qed

end
