(* ===== verification/CodecEdge.thy ===== *)
theory CodecEdge
  imports ConnRead
begin

unbundle bit_operations_syntax

text \<open>
  One message decoded behind its encoding, and where the codecs stop being inverse to each other: lengths that do not fit the field, empty
  messages of the length field codec, and short input of the fixed length codec.
\<close>

section \<open>One message back\<close>

lemma survives_frame_of:
  "survives cd m \<Longrightarrow> ICodec_Encode cd m = Ret (Inr b) \<Longrightarrow> frame_of cd (b @ rest) = Some (m, length b)"
  using lines.roundtrip delims.roundtrip lenfields.roundtrip by (cases cd) fastforce+

section \<open>The 24-bit length field\<close>

lemma uint24_roundtrip:
  "readUint24 bo (writeUint24 bo v) = word_of_int (v mod 2 ^ 24)"
proof -
  let ?o = "if bo = Some LittleEndian then LittleEndian else BigEndian"
  have "readUint24 bo (writeUint24 bo v) = Uint ?o (PutUint ?o 3 (word_of_int v :: 64 word))"
    by (simp add: writeUint24_PutUint readUint24_Uint)
  also have "\<dots> = word_of_int (v mod 2 ^ 24)"
    unfolding Uint_PutUint take_bit_eq_mod [of 24 v, symmetric]
    by (rule bit_word_eqI) (simp add: bit_take_bit_iff bit_word_of_int_iff)
  finally show ?thesis .
qed

section \<open>What the length field holds\<close>

text \<open>The length \<open>Encode\<close> writes, before it is cut to the width of the field.\<close>

definition enc_len :: "EncoderConfig \<Rightarrow> bytes \<Rightarrow> int" where
  "enc_len ec m =
     (let l = go_int (int (length m) + ec_LengthAdjustment ec)
      in if ec_LengthIncludesLengthFieldLength ec then go_int (l + ec_LengthFieldLength ec) else l)"

lemma lf_value_PutUint:
  assumes "8 * w = LENGTH('a)" "w \<notin> {1, 3}" "w \<le> 8"
  shows "\<exists>v. lf_value (Some bo) (PutUint bo w (word_of_int L :: 'a::len word)) = Ret v \<and>
    uint v = L mod 2 ^ (8 * w)"
proof -
  let ?b = "PutUint bo w (word_of_int L :: 'a word)"
  have "(Uint bo ?b :: 'a word) = word_of_int L"
    unfolding Uint_PutUint using assms(1) by (simp add: take_bit_word_eq_self)
  moreover have "(Uint bo ?b :: 64 word) = ucast (Uint bo ?b :: 'a word)"
    using assms by (simp add: ucast_Uint)
  moreover have "(2 :: int) ^ (8 * w) \<le> 2 ^ 64" using assms(3) by (intro power_increasing) auto
  then have "L mod 2 ^ (8 * w) < 2 ^ 64"
    by (rule order_less_le_trans [rotated]) (rule pos_mod_bound, simp)
  ultimately show ?thesis using assms
    by (auto simp: lf_value_def order_Uint_def unsigned_ucast_eq take_bit_int_eq_self_iff
        uint_word_of_int_eq take_bit_eq_mod)
qed

lemma Encode_enc_len:
  "LengthFieldBasedFrameCodec_Encode ec m =
     (let L = enc_len ec m
      in if L < 0 then Ret (Inl errTooLessLength)
         else if ec_LengthFieldLength ec = 1 then
           if L \<ge> 256 then Ret (Inl (errDoesNotFit ''byte'' L)) else Ret (Inr ([word_of_int L] @ m))
         else if ec_LengthFieldLength ec = 2 then
           if L \<ge> 65536 then Ret (Inl (errDoesNotFit ''short integer'' L))
           else do { out \<leftarrow> order_PutUint (ec_ByteOrder ec) 2 (word_of_int L :: 16 word); Ret (Inr (out @ m)) }
         else if ec_LengthFieldLength ec = 3 then
           if L \<ge> 16777216 then Ret (Inl (errDoesNotFit ''medium integer'' L))
           else Ret (Inr (writeUint24 (ec_ByteOrder ec) L @ m))
         else if ec_LengthFieldLength ec = 4 then
           do { out \<leftarrow> order_PutUint (ec_ByteOrder ec) 4 (word_of_int L :: 32 word); Ret (Inr (out @ m)) }
         else if ec_LengthFieldLength ec = 8 then
           do { out \<leftarrow> order_PutUint (ec_ByteOrder ec) 8 (word_of_int L :: 64 word); Ret (Inr (out @ m)) }
         else Ret (Inl errUnsupportedLength))"
  by (simp add: LengthFieldBasedFrameCodec_Encode_def enc_len_def Let_def)

lemma enc_len_less: "enc_len ec m < 2 ^ 63"
  unfolding enc_len_def Let_def using go_int_less by (simp only: split: if_split) blast

text \<open>One header: its width, and the number read back from it.\<close>

definition reads_back :: "byte_order option \<Rightarrow> int \<Rightarrow> nat \<Rightarrow> bytes \<Rightarrow> bool" where
  "reads_back bo L w hdr \<longleftrightarrow>
     length hdr = w \<and> (\<exists>v. lf_value bo hdr = Ret v \<and> uint v = L mod 2 ^ (8 * w))"

lemma reads_back_PutUint:
  assumes "order_PutUint bo w (word_of_int L :: 'a::len word) = Ret hdr"
    "8 * w = LENGTH('a)" "w \<notin> {1, 3}" "w \<le> 8"
  shows "reads_back bo L w hdr"
  using assms(1) lf_value_PutUint [OF assms(2-4)]
  by (auto simp: order_PutUint_def reads_back_def split: option.splits)

lemma reads_back_1: "reads_back bo L 1 [word_of_int L]"
  by (simp add: reads_back_def lf_value_def Uint_single unsigned_ucast_eq uint_word_of_int_eq
      take_bit_eq_mod)

lemma reads_back_3: "reads_back bo L 3 (writeUint24 bo L)"
proof -
  let ?o = "if bo = Some LittleEndian then LittleEndian else BigEndian"
  have len: "length (writeUint24 bo L) = 3" by (simp add: writeUint24_def)
  have "L mod 2 ^ 24 < 2 ^ 64" by (rule order_less_trans [OF pos_mod_bound]) simp_all
  then have "uint (word_of_int (L mod 2 ^ 24) :: 64 word) = L mod 2 ^ 24"
    by (simp add: uint_word_of_int_eq take_bit_int_eq_self)
  with len show ?thesis
    using uint24_roundtrip [of bo L] readUint24_Uint [OF len, of bo]
    by (simp add: reads_back_def lf_value_def)
qed

text \<open>
  A successful \<open>Encode\<close> puts the length in front, modulo the width of the field; only the four
  byte field can lose a part of it, because the other widths are checked.
\<close>

lemma lf_encode_header:
  assumes E: "LengthFieldBasedFrameCodec_Encode ec m = Ret (Inr b)"
  shows "\<exists>hdr w. b = hdr @ m \<and> ec_LengthFieldLength ec = int w \<and> 0 \<le> enc_len ec m \<and>
    reads_back (ec_ByteOrder ec) (enc_len ec m) w hdr \<and> (w \<noteq> 4 \<longrightarrow> enc_len ec m < 2 ^ (8 * w))"
proof -
  define L where "L = enc_len ec m"
  have "L < 2 ^ 63" unfolding L_def by (rule enc_len_less)
  note E = E [unfolded Encode_enc_len Let_def, folded L_def]
  then have "0 \<le> L" by (auto split: if_splits)
  from E consider
    "ec_LengthFieldLength ec = 1" "L < 256" "b = [word_of_int L] @ m"
  | hdr where "ec_LengthFieldLength ec = 2" "L < 65536" "b = hdr @ m"
      "order_PutUint (ec_ByteOrder ec) 2 (word_of_int L :: 16 word) = Ret hdr"
  | "ec_LengthFieldLength ec = 3" "L < 16777216" "b = writeUint24 (ec_ByteOrder ec) L @ m"
  | hdr where "ec_LengthFieldLength ec = 4" "b = hdr @ m"
      "order_PutUint (ec_ByteOrder ec) 4 (word_of_int L :: 32 word) = Ret hdr"
  | hdr where "ec_LengthFieldLength ec = 8" "b = hdr @ m"
      "order_PutUint (ec_ByteOrder ec) 8 (word_of_int L :: 64 word) = Ret hdr"
    by (auto simp: bind_eq_Some_conv split: if_splits)
  then have "\<exists>hdr w. b = hdr @ m \<and> ec_LengthFieldLength ec = int w \<and>
    reads_back (ec_ByteOrder ec) L w hdr \<and> (w \<noteq> 4 \<longrightarrow> L < 2 ^ (8 * w))"
  proof cases
    case 1
    then show ?thesis using reads_back_1 [of "ec_ByteOrder ec" L]
      by (intro exI [of _ "[word_of_int L]"] exI [of _ 1]) simp
  next
    case (2 hdr)
    then show ?thesis using reads_back_PutUint [OF 2(4)]
      by (intro exI [of _ hdr] exI [of _ 2]) simp
  next
    case 3
    then show ?thesis using reads_back_3 [of "ec_ByteOrder ec" L]
      by (intro exI [of _ "writeUint24 (ec_ByteOrder ec) L"] exI [of _ 3]) simp
  next
    case (4 hdr)
    then show ?thesis using reads_back_PutUint [OF 4(3)]
      by (intro exI [of _ hdr] exI [of _ 4]) simp
  next
    case (5 hdr)
    then show ?thesis using reads_back_PutUint [OF 5(3)] \<open>L < 2 ^ 63\<close>
      by (intro exI [of _ hdr] exI [of _ 8]) simp
  qed
  with \<open>0 \<le> L\<close> show ?thesis unfolding L_def by blast
qed

section \<open>Empty messages of the length field codec\<close>

text \<open>
  With matching configurations the decoder computes a message length of zero for an encoded
  empty message, and never takes anything off the stream again.
\<close>

lemma lf_empty_stuck:
  assumes mt: "lf_match ec dc" and fits: "lf_fits ec []"
  shows "\<exists>b. LengthFieldBasedFrameCodec_Encode ec [] = Ret (Inr b) \<and>
    (\<forall>rest. lf_next dc (b @ rest) = Ret (Inl errUnexpectedEOF, 0))"
proof -
  let ?w = "nat (ec_LengthFieldLength ec)"
  have w: "0 < ?w" "lf_width (ec_LengthFieldLength ec) = Some ?w" "?w \<le> 8"
    using mt by (auto simp: lf_match_def lf_width_def)
  obtain hdr v where hdr: "LengthFieldBasedFrameCodec_Encode ec [] = Ret (Inr (hdr @ []))"
      "length hdr = ?w" "lf_value (ec_ByteOrder ec) hdr = Ret v" "uint v = lf_total ec"
    using lf_encode [OF _ _ _ fits] mt by (auto simp: lf_match_def)
  have "lf_total ec < 2 ^ 63"
    using mt fits by (auto simp: lf_match_def lf_fits_def lf_total_def)
  then have "sint v = lf_total ec" using hdr(4) by (simp add: sint64_uint)
  then have "go_int (sint v + dc_LengthAdjustment dc) = 0"
    using mt by (simp add: lf_match_def go_int_id)
  then have "lf_next dc (hdr @ rest) = Ret (Inl errUnexpectedEOF, 0)" for rest
    using mt hdr w by (auto simp: lf_next_def lf_match_def Let_def)
  with hdr(1) show ?thesis by auto
qed

section \<open>Short input of the fixed length codec\<close>

lemma fixed_short:
  assumes "s \<noteq> []" "int (length s) < n"
  shows "frames (frame_of (FixedLengthFrameCodec n)) s = ([s], [])"
proof -
  have "frame_of (FixedLengthFrameCodec n) s = Some (s, length s)"
    using assms by (simp add: frame_of_def fixed_next_def clip_def)
  then show ?thesis by (simp add: codec.frames_Some)
qed

end
