(* ===== verification/Instances.thy ===== *)
theory Instances
  imports ConnStream
begin

text \<open>
  Concrete stand-ins for the code that is not in the repository, used only to show that the
  hypotheses of the theorems can hold: a ring buffer whose content comes in two halves, a byte
  buffer, a kernel that answers reads and writes from a script, and an application that echoes.
\<close>

definition list_bufs :: "(bytes, bytes) bufs" where
  "list_bufs =
     \<lparr>rb_IsEmpty = (\<lambda>r. r = []), rb_Size = (\<lambda>r. int (length r)), rb_Write = (\<lambda>r d. r @ d),
      rb_PeekAll = (\<lambda>r. (take (length r div 2) r, drop (length r div 2) r)),
      rb_Peek = (\<lambda>r n. (take (nat n) r, [])), rb_Retrieve = (\<lambda>r n. drop (nat n) r),
      rb_RetrieveAll = (\<lambda>r. []), rb_Reset = (\<lambda>r. []),
      bb_Get = [], bb_Write = (\<lambda>b d. b @ d), bb_Bytes = (\<lambda>b. b)\<rparr>"

lemma list_bufs_ok: "bufs_ok list_bufs (\<lambda>r. r)"
  by (simp add: bufs_ok_def list_bufs_def)

record script =
  s_reads :: "(errno + bytes) list"
  s_writes :: "(errno + nat) list"
  s_now :: int

text \<open>A used-up script: nothing to read, and every write is taken whole.\<close>

definition script_sys :: "script sys" where
  "script_sys =
     \<lparr>k_read = (\<lambda>fd n k. case s_reads k of
        [] \<Rightarrow> (Inl EAGAIN, k)
      | r # rs \<Rightarrow> ((case r of Inl e \<Rightarrow> Inl e | Inr bs \<Rightarrow> Inr (take n bs)), k\<lparr>s_reads := rs\<rparr>)),
      k_write = (\<lambda>fd d k. case s_writes k of
        [] \<Rightarrow> (Inr (length d), k)
      | r # rs \<Rightarrow> ((case r of Inl e \<Rightarrow> Inl e | Inr n \<Rightarrow> Inr (min n (length d))), k\<lparr>s_writes := rs\<rparr>)),
      k_close = (\<lambda>fd k. (None, k)), k_shutdown_wr = (\<lambda>fd k. (None, k)),
      k_set_nonblock = (\<lambda>fd k. (None, k)), k_accept = (\<lambda>fd k. (Inl EAGAIN, k)),
      k_epoll_create = (\<lambda>k. (Inr 3, k)), k_eventfd = (\<lambda>k. (Inr 4, k)),
      k_epoll_ctl = (\<lambda>ep op fd ev k. (None, k)), k_epoll_wait = (\<lambda>ep n t k. (Inr [], k)),
      k_now = s_now\<rparr>"

lemma script_sys_ok: "sys_ok script_sys"
  by (auto simp: sys_ok_def script_sys_def split: list.splits sum.splits)

definition echo_app :: "('rb, 'bb, 'w) app" where
  "echo_app =
     \<lparr>on_message = (\<lambda>c f w. ((Some f, []), w)), on_close = (\<lambda>c w. ([], w)),
      on_write_complete = (\<lambda>c w. ([], w))\<rparr>"

definition a_conn :: "ICodec \<Rightarrow> (bytes, bytes) conn" where
  "a_conn cd =
     \<lparr>self = 0, event = (NewEvent (ConnEvent 0) 7)\<lparr>events := EventRead OR EventErr,
        readHandle := Some (ReadHandler 0), writeHandle := Some (WriteHandler 0),
        errorHandle := Some (ErrHandler 0), closeHandle := Some (CloseHandler 0)\<rparr>,
      temporaryBuf = [], outBuffer = [], inBuffer = [], byteBuffer = None,
      messageCallback = True, connectCloseCallback = True, writeCompleteCallback = True,
      state = Connected, conn_fd = 7, peerAddr = ''10.0.0.1:80'', idleTime = 0, activeTime = 0,
      codeImp = cd\<rparr>"

definition a_loop :: "(errno + bytes) list \<Rightarrow> (errno + nat) list \<Rightarrow> script loop" where
  "a_loop rs ws =
     \<lparr>kern = \<lparr>s_reads = rs, s_writes = ws, s_now = 0\<rparr>, trace = [], SequenceID = 0,
      eventPool = [7 \<mapsto> ConnEvent 0],
      multi = \<lparr>mx_fd = 3, mx_wakeEventFd = 4, mx_waitEvents_len = WaitEventsNumber\<rparr>,
      loopFunctions = [], running = 1\<rparr>"

definition no_buffers :: "nat \<Rightarrow> bytes \<times> bytes" where
  "no_buffers = (\<lambda>i. ([], []))"

end
