(* ===== verification/ConnOut.thy ===== *)
theory ConnOut
  imports ConnRead
begin

unbundle bit_operations_syntax

text \<open>
  The write path and the life cycle of one connection. \<open>sound\<close> collects what holds between any
  two operations: the descriptor is in the loop's pool and not closed exactly while the
  connection is open; what was handed to \<open>write\<close> is what the kernel took followed by the out
  buffer; unsent bytes keep write events on, and read events are only off while there are
  unsent bytes; the kernel's interest list has the mask of the event. Every operation of
  \<open>Connect\<close> keeps it.
\<close>

section \<open>Views of the interest list\<close>

fun ctls1 :: "int \<Rightarrow> effect \<Rightarrow> (int \<times> 32 word \<times> errno option) list" where
  "ctls1 fd (EffCtl ep op fd' ev r) = (if fd' = fd then [(op, ev, r)] else [])"
| "ctls1 fd _ = []"

definition ctls :: "int \<Rightarrow> effect list \<Rightarrow> (int \<times> 32 word \<times> errno option) list" where
  "ctls fd es = concat (map (ctls1 fd) es)"

lemma ctls_simps [simp]:
  "ctls fd [] = []" "ctls fd (e # es) = ctls1 fd e @ ctls fd es"
  "ctls fd (es @ fs) = ctls fd es @ ctls fd fs"
  by (simp_all add: ctls_def)

text \<open>The mask the kernel holds for a descriptor after a successful sequence of calls.\<close>

definition interest1 :: "int \<times> 32 word \<times> errno option \<Rightarrow> 32 word option \<Rightarrow> 32 word option" where
  "interest1 c m = (case c of (op, ev, r) \<Rightarrow>
     if r \<noteq> None then m else if op = EPOLL_CTL_DEL then None else Some ev)"

definition interest :: "int \<Rightarrow> effect list \<Rightarrow> 32 word option" where
  "interest fd es = fold interest1 (ctls fd es) None"

definition ctl_failed :: "int \<Rightarrow> effect list \<Rightarrow> bool" where
  "ctl_failed fd es = list_ex (\<lambda>(op, ev, r). r \<noteq> None) (ctls fd es)"

section \<open>Steps that leave the output side alone\<close>

definition silent ::
  "int \<Rightarrow> nat \<Rightarrow> ('k, 'z) loop_scheme \<Rightarrow> ('k, 'z) loop_scheme \<Rightarrow> bool" where
  "silent fd i w w' \<longleftrightarrow>
     sent fd (trace w') = sent fd (trace w) \<and> submitted i (trace w') = submitted i (trace w) \<and>
     closes fd (trace w') = closes fd (trace w) \<and> ctls fd (trace w') = ctls fd (trace w) \<and>
     goodbyes i (trace w') = goodbyes i (trace w) \<and>
     eventPool w' = eventPool w \<and> multi w' = multi w"

lemma silent_refl [simp]: "silent fd i w w"
  by (simp add: silent_def)

lemma silent_trans: "silent fd i w v \<Longrightarrow> silent fd i v u \<Longrightarrow> silent fd i w u"
  by (simp add: silent_def)

fun silent_eff :: "effect \<Rightarrow> bool" where
  "silent_eff (EffWrite _ _ _) = False"
| "silent_eff (EffSubmit _ _) = False"
| "silent_eff (EffClose _) = False"
| "silent_eff (EffCtl _ _ _ _ _) = False"
| "silent_eff (EffConnectClose _) = False"
| "silent_eff (EffPutBuffers _) = False"
| "silent_eff _ = True"

lemma silent_views1:
  "silent_eff e \<Longrightarrow> sent1 fd e = []" "silent_eff e \<Longrightarrow> submitted1 i e = []"
  "silent_eff e \<Longrightarrow> closes1 fd e = 0" "silent_eff e \<Longrightarrow> ctls1 fd e = []"
  "silent_eff e \<Longrightarrow> goodbyes1 i e = []"
  by (cases e; simp)+

lemma silent_emit [simp]: "silent_eff e \<Longrightarrow> silent fd i w (emit e w)"
  by (simp add: silent_def silent_views1)

lemma silent_same: "trace w' = trace w \<and> same_loop w w' \<Longrightarrow> silent fd i w w'"
  by (simp add: silent_def same_loop_def)

lemma silent_app:
  "app_ok A \<Longrightarrow> on_message A c f w = (r, w') \<Longrightarrow> silent fd i w w'"
  "app_ok A \<Longrightarrow> on_close A c w = (as, w') \<Longrightarrow> silent fd i w w'"
  "app_ok A \<Longrightarrow> on_write_complete A c w = (as, w') \<Longrightarrow> silent fd i w w'"
  by (rule silent_same, erule (1) app_okD)+

lemma silent_sys:
  "sys_read S fd' n w = (r, w') \<Longrightarrow> silent fd i w w'"
  "sys_shutdown_wr S fd' w = (r', w') \<Longrightarrow> silent fd i w w'"
  by (auto simp: silent_def sys_read_def sys_shutdown_wr_def split: prod.splits)

lemma RunInLoop_silent: "mx_wakeEventFd (multi w) \<noteq> fd \<Longrightarrow> silent fd i w (RunInLoop S f w)"
  by (auto simp: RunInLoop_def Multiplex_Wake_def silent_def sys_write_def split: prod.splits sum.splits)

lemma sys_write_views:
  assumes "sys_write S fd d w = (r, w')"
  shows "sent fd (trace w') = sent fd (trace w) @ (case r of Inl _ \<Rightarrow> [] | Inr n \<Rightarrow> take n d)"
    "submitted i (trace w') = submitted i (trace w)" "closes fd (trace w') = closes fd (trace w)"
    "ctls fd (trace w') = ctls fd (trace w)" "eventPool w' = eventPool w" "multi w' = multi w"
    "goodbyes i (trace w') = goodbyes i (trace w)"
  using sys_write_trace [OF assms] sys_same_loop(1) [OF assms]
  by (simp_all add: same_loop_def split: sum.splits)

section \<open>The invariant\<close>

text \<open>What a connection has done when it is closed: call the callback, return the buffers.\<close>

definition farewell :: "('rb, 'bb) conn \<Rightarrow> effect list" where
  "farewell c = (if connectCloseCallback c then [EffConnectClose (self c)] else []) @ [EffPutBuffers (self c)]"

lemma farewell_updates [simp]:
  "farewell (c\<lparr>outBuffer := x\<rparr>) = farewell c" "farewell (c\<lparr>inBuffer := x\<rparr>) = farewell c"
  "farewell (c\<lparr>temporaryBuf := y\<rparr>) = farewell c" "farewell (c\<lparr>event := e\<rparr>) = farewell c"
  "farewell (c\<lparr>state := st\<rparr>) = farewell c" "farewell (c\<lparr>activeTime := a\<rparr>) = farewell c"
  by (simp_all add: farewell_def)

definition linked :: "('rb, 'bb) conn \<Rightarrow> ('k, 'z) loop_scheme \<Rightarrow> bool" where
  "linked c w \<longleftrightarrow>
     mx_wakeEventFd (multi w) \<noteq> conn_fd c \<and> eventFd (event c) = conn_fd c \<and>
     eventPool w (conn_fd c) = (if state c = Disconnected then None else Some (ConnEvent (self c))) \<and>
     closes (conn_fd c) (trace w) = (if state c = Disconnected then 1 else 0) \<and>
     goodbyes (self c) (trace w) = (if state c = Disconnected then farewell c else []) \<and>
     (state c \<noteq> Disconnected \<longrightarrow> \<not> ctl_failed (conn_fd c) (trace w) \<longrightarrow>
        interest (conn_fd c) (trace w) = Some (GetEpollEventsFromIOEvent (events (event c))))"

definition fifo :: "('rb \<Rightarrow> bytes) \<Rightarrow> ('rb, 'bb) conn \<Rightarrow> ('k, 'z) loop_scheme \<Rightarrow> bool" where
  "fifo cont c w \<longleftrightarrow> (state c \<noteq> Disconnected \<longrightarrow>
     submitted (self c) (trace w) = sent (conn_fd c) (trace w) @ cont (outBuffer c))"

definition pushes :: "('rb \<Rightarrow> bytes) \<Rightarrow> ('rb, 'bb) conn \<Rightarrow> bool" where
  "pushes cont c \<longleftrightarrow> (state c \<noteq> Disconnected \<longrightarrow> cont (outBuffer c) \<noteq> [] \<longrightarrow> IsWriting (event c))"

definition pulls :: "('rb \<Rightarrow> bytes) \<Rightarrow> ('rb, 'bb) conn \<Rightarrow> bool" where
  "pulls cont c \<longleftrightarrow> (state c \<noteq> Disconnected \<longrightarrow> cont (outBuffer c) = [] \<longrightarrow> IsReading (event c))"

definition sound :: "('rb \<Rightarrow> bytes) \<Rightarrow> ('rb, 'bb) conn \<Rightarrow> ('k, 'z) loop_scheme \<Rightarrow> bool" where
  "sound cont c w \<longleftrightarrow> linked c w \<and> fifo cont c w \<and> pushes cont c \<and> pulls cont c"

lemmas sound_defs = sound_def linked_def fifo_def pushes_def pulls_def

lemma silent_linked: "silent (conn_fd c) (self c) w v \<Longrightarrow> linked c w \<Longrightarrow> linked c v"
  by (simp add: silent_def linked_def interest_def ctl_failed_def)

lemma silent_fifo: "silent (conn_fd c) (self c) w v \<Longrightarrow> fifo cont c w \<Longrightarrow> fifo cont c v"
  by (simp add: silent_def fifo_def)

lemma silent_sound: "silent (conn_fd c) (self c) w v \<Longrightarrow> sound cont c w \<Longrightarrow> sound cont c v"
  using silent_linked silent_fifo by (auto simp: sound_def)

text \<open>What public methods and callbacks leave of a connection: all but a step to \<open>Disconnecting\<close>.\<close>

definition same_out :: "('rb, 'bb) conn \<Rightarrow> ('rb, 'bb) conn \<Rightarrow> bool" where
  "same_out c d \<longleftrightarrow> self d = self c \<and> conn_fd d = conn_fd c \<and> event d = event c \<and>
     outBuffer d = outBuffer c \<and> connectCloseCallback d = connectCloseCallback c \<and>
     (state d = Disconnected \<longleftrightarrow> state c = Disconnected)"

lemma same_out_refl [simp]: "same_out c c"
  by (simp add: same_out_def)

lemma same_out_trans: "same_out c d \<Longrightarrow> same_out d e \<Longrightarrow> same_out c e"
  by (simp add: same_out_def)

lemma same_out_preds:
  assumes "same_out c d"
  shows "linked d w = linked c w" "fifo cont d w = fifo cont c w" "pushes cont d = pushes cont c"
    "pulls cont d = pulls cont c" "sound cont d w = sound cont c w"
  using assms by (simp_all add: same_out_def sound_defs farewell_def)

lemma same_shell_out: "same_shell c d \<Longrightarrow> same_out c d"
  by (simp add: same_shell_def same_out_def)

lemma run_api_silent:
  "mx_wakeEventFd (multi w) \<noteq> fd \<Longrightarrow> run_api S as c w = (d, v) \<Longrightarrow>
     silent fd i w v \<and> same_out c d"
proof (induction as arbitrary: c w)
  case Nil
  then show ?case by simp
next
  case (Cons a as)
  have step: ?case if "silent fd i w w1" "same_out c c1" "run_api S as c1 w1 = (d, v)" for c1 w1
    using Cons.IH [of w1 c1] Cons.prems(1) that silent_trans same_out_trans
    by (metis silent_def)
  show ?case
  proof (cases a)
    case ApiClose
    then show ?thesis using Cons.prems
      by (intro step [of "snd (Connect_Close S c w)" c])
         (auto simp: Connect_Close_def RunInLoop_silent)
  next
    case (ApiWriteInSelfLoop b)
    then show ?thesis using Cons.prems
      by (intro step [of "snd (WriteInSelfLoop S b c w)" c])
         (auto simp: WriteInSelfLoop_def RunInLoop_silent)
  next
    case ApiShutdownWrite
    obtain e c1 w1 where 1: "ShutdownWrite S c w = (e, c1, w1)" by (metis prod_cases3)
    then have "silent fd i w w1" "same_out c c1"
      by (auto simp: ShutdownWrite_def same_out_def dest: silent_sys split: if_splits prod.splits)
    with 1 ApiShutdownWrite Cons.prems(2) show ?thesis by (intro step [of w1 c1]) simp_all
  qed
qed

section \<open>Changing the event mask\<close>

lemma Event_update_views:
  assumes "Event_update S e w = (err, e', w')"
  shows "e' = e \<and> sent fd (trace w') = sent fd (trace w) \<and> goodbyes i (trace w') = goodbyes i (trace w) \<and>
    submitted i (trace w') = submitted i (trace w) \<and> closes fd (trace w') = closes fd (trace w) \<and>
    eventPool w' = eventPool w \<and> multi w' = multi w \<and>
    ctls fd (trace w') = ctls fd (trace w) @
      (if eventFd e = fd
       then [(EPOLL_CTL_MOD, GetEpollEventsFromIOEvent (events e), err)] else [])"
proof -
  from assms have sys: "sys_epoll_ctl S (mx_fd (multi w)) EPOLL_CTL_MOD (eventFd e)
      (GetEpollEventsFromIOEvent (events e)) w = (err, w')" and e': "e' = e"
    by (auto simp: Event_update_def EventCtrl_modifyEvent_def Multiplex_ModifyEvent_def
        epollCtrl_def split: prod.splits)
  from sys_epoll_ctl_trace [OF sys] sys_same_loop(5) [OF sys] e' show ?thesis
    by (simp add: same_loop_def)
qed

lemma interest_snoc:
  assumes "ctls fd es' = ctls fd es @ [(op, ev, r)]"
  shows "ctl_failed fd es' \<longleftrightarrow> ctl_failed fd es \<or> r \<noteq> None"
    "interest fd es' = interest1 (op, ev, r) (interest fd es)"
  using assms by (simp_all add: ctl_failed_def interest_def)

lemma update_linked:
  assumes l: "linked c w" and e: "Event_update S e w = (err, e', v)" and fd: "eventFd e = conn_fd c"
  shows "linked (c\<lparr>event := e'\<rparr>) v" "fifo cont c w \<Longrightarrow> fifo cont (c\<lparr>event := e'\<rparr>) v"
proof -
  have views: "e' = e" "sent (conn_fd c) (trace v) = sent (conn_fd c) (trace w)"
    "submitted (self c) (trace v) = submitted (self c) (trace w)"
    "closes (conn_fd c) (trace v) = closes (conn_fd c) (trace w)"
    "goodbyes (self c) (trace v) = goodbyes (self c) (trace w)"
    "eventPool v = eventPool w" "multi v = multi w"
    and ctls: "ctls (conn_fd c) (trace v) = ctls (conn_fd c) (trace w) @
      [(EPOLL_CTL_MOD, GetEpollEventsFromIOEvent (events e), err)]"
    using Event_update_views [OF e] fd by simp_all
  from views fd interest_snoc [OF ctls] l show "linked (c\<lparr>event := e'\<rparr>) v"
    by (simp add: linked_def farewell_def interest1_def EPOLL_CTL_MOD_def EPOLL_CTL_DEL_def)
  from views show "fifo cont c w \<Longrightarrow> fifo cont (c\<lparr>event := e'\<rparr>) v"
    by (simp add: fifo_def)
qed

lemma enable_event:
  "enable_writing S b c w = (d, v) \<Longrightarrow>
     \<exists>err. Event_update S (set_mask EventWrite b (event c)) w = (err, event d, v) \<and>
       d = c\<lparr>event := set_mask EventWrite b (event c)\<rparr>"
  "enable_reading S b c w = (d, v) \<Longrightarrow>
     \<exists>err. Event_update S (set_mask EventRead b (event c)) w = (err, event d, v) \<and>
       d = c\<lparr>event := set_mask EventRead b (event c)\<rparr>"
  by (auto simp: enable_writing_def enable_reading_def EnableWriting_def EnableReading_def
      Event_update_def split: prod.splits)

lemma enable_linked:
  assumes "linked c w" "fifo cont c w"
  shows "enable_writing S b c w = (d, v) \<Longrightarrow> linked d v \<and> fifo cont d v"
    "enable_reading S b c w = (d, v) \<Longrightarrow> linked d v \<and> fifo cont d v"
  using enable_event [of S b c w d v] update_linked [OF assms(1)] assms
  by (fastforce simp: linked_def)+

lemma enable_flow:
  assumes "enable_writing S b c w = (d, v)"
  shows "pushes cont d \<longleftrightarrow> b \<or> state c = Disconnected \<or> cont (outBuffer c) = []"
    "pulls cont d = pulls cont c"
  using enable_event(1) [OF assms] by (auto simp: pushes_def pulls_def)

lemma enable_flow_read:
  assumes "enable_reading S b c w = (d, v)"
  shows "pulls cont d \<longleftrightarrow> b \<or> state c = Disconnected \<or> cont (outBuffer c) \<noteq> []"
    "pushes cont d = pushes cont c"
  using enable_event(2) [OF assms] by (auto simp: pushes_def pulls_def)

section \<open>Closing\<close>

lemma closeEvent_sound:
  assumes A: "app_ok A" and l: "linked c w" "state c = Disconnected \<Longrightarrow> sound cont c w"
    and s: "closeEvent S A c w = (d, v)"
  shows "sound cont d v \<and> state d = Disconnected"
proof (cases "state c = Disconnected")
  case True
  with l s show ?thesis by (simp add: closeEvent_def)
next
  case False
  obtain c1 c3 w2 w3 w4 where st: "closing S A c w c1 w2 c3 w3 w4"
    "closeEvent S A c w = (c3, emit (EffPutBuffers (self c3)) w4)"
    using closeEvent_steps [OF False] .
  from st(1) obtain e1 e2 e4 ev w1 where
    1: "Event_update S ((event c)\<lparr>oldEvents := events (event c), events := EventNone\<rparr>) w = (e1, ev, w1)"
      "c1 = c\<lparr>state := Disconnected, event := ev\<rparr>" and
    2: "UnRegister S ev w1 = (e2, w2)" and
    3: "(c3, w3) = (if connectCloseCallback c then
         (case on_close A c1 (emit (EffConnectClose (self c)) w2) of (acts, w) \<Rightarrow> run_api S acts c1 w)
       else (c1, w2))" and
    4: "sys_close S (conn_fd c3) w3 = (e4, w4)"
    unfolding closing_def by blast
  note u = Event_update_views [OF 1(1), of "conn_fd c" "self c"]
  have ev: "eventFd ev = conn_fd c" using u l by (simp add: linked_def)
  have c1: "state c1 = Disconnected" "conn_fd c1 = conn_fd c" "eventFd (event c1) = conn_fd c1"
    using 1(2) ev by simp_all
  have w2: "mx_wakeEventFd (multi w2) \<noteq> conn_fd c" "eventPool w2 (conn_fd c) = None"
    "closes (conn_fd c) (trace w2) = 0" "goodbyes (self c) (trace w2) = []"
    using 2 u l False ev
    by (auto simp: UnRegister_def EventCtrl_removeEvent_def Multiplex_RemoveEvent_def epollCtrl_def
        sys_epoll_ctl_def linked_def split: prod.splits if_splits)
  have "mx_wakeEventFd (multi w3) \<noteq> conn_fd c \<and> eventPool w3 (conn_fd c) = None \<and>
      closes (conn_fd c) (trace w3) = 0 \<and> same_out c1 c3 \<and>
      goodbyes (self c) (trace w3) @ [EffPutBuffers (self c)] = farewell c"
  proof (cases "connectCloseCallback c")
    case True
    obtain acts w2' where cb: "on_close A c1 (emit (EffConnectClose (self c)) w2) = (acts, w2')"
      by fastforce
    have q: "silent (conn_fd c) (self c) (emit (EffConnectClose (self c)) w2) w2'"
      using silent_app(2) [OF A cb] .
    then have wk: "mx_wakeEventFd (multi w2') \<noteq> conn_fd c" using w2 by (simp add: silent_def)
    have "run_api S acts c1 w2' = (c3, w3)" using 3 True cb by simp
    from run_api_silent [OF wk this, of "self c"] q w2 True
    show ?thesis by (simp add: silent_def farewell_def)
  qed (use 3 w2 in \<open>simp add: farewell_def\<close>)
  moreover have "same_loop w3 w4" "trace w4 = trace w3 @ [EffClose (conn_fd c3)]"
    using sys_same_loop(3) [OF 4] sys_close_trace [OF 4] by simp_all
  ultimately have "sound cont c3 (emit (EffPutBuffers (self c3)) w4)" "state c3 = Disconnected"
    using w2 c1 1(2) by (auto simp: sound_defs same_out_def same_loop_def farewell_def)
  then show ?thesis using st(2) s by simp
qed

section \<open>Writing\<close>

text \<open>What a write call does to the invariant: the bytes taken move from the buffer to \<open>sent\<close>.\<close>

lemma write_linked: "sys_write S fd d w = (r, v) \<Longrightarrow> linked c w \<Longrightarrow> linked c v"
  using sys_write_trace [of S fd d w r v] sys_same_loop(1) [of S fd d w r v]
  by (simp add: linked_def interest_def ctl_failed_def same_loop_def)

lemma conn_write_sound:
  assumes R: "bufs_ok R cont" and S: "sys_ok S" and A: "app_ok A" and snd: "sound cont c w"
    and s: "conn_write R S A data c w = (d, v)"
  shows "sound cont d v"
proof -
  let ?w = "emit (EffSubmit (self c) data) w"
  have l: "linked c ?w" using snd by (simp add: sound_def linked_def interest_def ctl_failed_def)
  show ?thesis
  proof (cases "cont (outBuffer c) = []")
    case False
    with snd s R show ?thesis
      by (auto simp: conn_write_def buf_laws sound_defs interest_def ctl_failed_def Let_def)
  next
    case empty: True
    obtain r w1 where r: "sys_write S (conn_fd c) data ?w = (r, w1)" by fastforce
    note v = sys_write_views(1,2) [OF r]
    have l1: "linked c w1" using write_linked [OF r l] .
    have pl: "pulls cont c" "fifo cont c w" using snd by (simp_all add: sound_def)
    have more: "sound cont d v"
      if en: "enable_writing S True (c\<lparr>outBuffer := b\<rparr>) w1 = (d, v)"
        and f: "fifo cont (c\<lparr>outBuffer := b\<rparr>) w1" for b
    proof -
      have "linked (c\<lparr>outBuffer := b\<rparr>) w1" using l1 by (simp add: linked_def)
      with en f show ?thesis
        using enable_linked(1) [of "c\<lparr>outBuffer := b\<rparr>" w1] enable_flow [OF en] pl empty
        by (auto simp: sound_def pulls_def)
    qed
    show ?thesis
    proof (cases r)
      case (Inl err)
      show ?thesis
      proof (cases "err = EAGAIN")
        case True
        with Inl s R r empty v pl show ?thesis
          by (intro more) (auto simp: conn_write_def buf_laws fifo_def Let_def)
      next
        case False
        have c: "state c = Disconnected \<Longrightarrow> sound cont c w1"
          using l1 by (simp add: sound_defs)
        from False Inl s R r empty have "closeEvent S A c w1 = (d, v)"
          by (simp add: conn_write_def buf_laws Let_def)
        then show ?thesis using closeEvent_sound [OF A l1 c] by blast
      qed
    next
      case (Inr n)
      have n: "n \<le> length data" using sys_write_le [OF S] r Inr by blast
      show ?thesis
      proof (cases "n < length data")
        case True
        with Inr s R r empty v pl show ?thesis
          by (intro more) (auto simp: conn_write_def buf_laws fifo_def Let_def)
      next
        case False
        with Inr n s R r empty v pl l1 snd show ?thesis
          by (auto simp: conn_write_def buf_laws fifo_def sound_def Let_def pushes_def)
      qed
    qed
  qed
qed

lemma write_drained_sound:
  assumes R: "bufs_ok R cont" and A: "app_ok A"
    and l: "linked c w" "fifo cont c w" "pushes cont c"
    and rd: "cont (outBuffer c) \<noteq> [] \<Longrightarrow> pulls cont c"
    and s: "write_drained R S A c w = (d, v)"
  shows "sound cont d v"
proof (cases "cont (outBuffer c) = []")
  case False
  with l rd s R show ?thesis by (simp add: write_drained_def buf_laws sound_def)
next
  case True
  obtain c1 w1 where 1: "(if IsWriting (event c) then enable_writing S False c w else (c, w)) = (c1, w1)"
    by fastforce
  obtain c2 w2 where 2:
    "(if \<not> IsReading (event c1) then enable_reading S True c1 w1 else (c1, w1)) = (c2, w2)"
    by fastforce
  have l1: "linked c1 w1" "fifo cont c1 w1" "cont (outBuffer c1) = []"
    using 1 l True enable_linked(1) [OF l(1,2)] enable_event(1)
    by (auto split: if_splits dest!: enable_event(1))
  have "linked c2 w2" "fifo cont c2 w2" "cont (outBuffer c2) = []" "pulls cont c2"
    using 2 l1 enable_linked(2) [OF l1(1,2)]
    by (auto simp: pulls_def split: if_splits dest!: enable_event(2))
  then have snd2: "sound cont c2 w2" by (simp add: sound_def pushes_def)
  show ?thesis
  proof (cases "writeCompleteCallback c2")
    case False
    with snd2 s True R 1 2 show ?thesis by (simp add: write_drained_def buf_laws)
  next
    case cb: True
    obtain acts w3 where 3: "on_write_complete A c2 (emit (EffWriteComplete (self c2)) w2) = (acts, w3)"
      by fastforce
    have q: "silent (conn_fd c2) (self c2) w2 w3"
      using silent_app(3) [OF A 3] by (rule silent_trans [rotated]) simp
    then have snd3: "sound cont c2 w3" using snd2 by (rule silent_sound)
    then have wake: "mx_wakeEventFd (multi w3) \<noteq> conn_fd c2" by (simp add: sound_def linked_def)
    have "run_api S acts c2 w3 = (d, v)"
      using s True R 1 2 3 cb by (simp add: write_drained_def buf_laws)
    then have q: "silent (conn_fd c2) (self c2) w3 v" "same_out c2 d"
      using run_api_silent [OF wake] by blast+
    from silent_sound [OF q(1) snd3] show ?thesis by (simp add: same_out_preds(5) [OF q(2)])
  qed
qed

lemma same_out_activity: "same_out c (updateActivityTime S c w)"
  by (simp add: same_out_def updateActivityTime_def)

text \<open>A write of a prefix of the out buffer, followed by its removal.\<close>

lemma write_retrieve:
  assumes R: "bufs_ok R cont" and S: "sys_ok S" and l: "linked c w" "fifo cont c w" "pushes cont c"
    and out: "cont (outBuffer c) = data @ rest"
    and r: "sys_write S (conn_fd c) data w = (Inr n, v)"
  shows "linked (c\<lparr>outBuffer := rb_Retrieve R (outBuffer c) (int n)\<rparr>) v"
    "fifo cont (c\<lparr>outBuffer := rb_Retrieve R (outBuffer c) (int n)\<rparr>) v"
    "pushes cont (c\<lparr>outBuffer := rb_Retrieve R (outBuffer c) (int n)\<rparr>)"
    "cont (rb_Retrieve R (outBuffer c) (int n)) = drop n data @ rest" "n \<le> length data"
proof -
  show n: "n \<le> length data" using sys_write_le [OF S r] .
  show out': "cont (rb_Retrieve R (outBuffer c) (int n)) = drop n data @ rest"
    using bufs_Retrieve [OF R, of n "outBuffer c"] out n by simp
  show "linked (c\<lparr>outBuffer := rb_Retrieve R (outBuffer c) (int n)\<rparr>) v"
    using write_linked [OF r l(1)] by (simp add: linked_def)
  show "fifo cont (c\<lparr>outBuffer := rb_Retrieve R (outBuffer c) (int n)\<rparr>) v"
    using sys_write_views(1,2) [OF r] l(2) out out' by (simp add: fifo_def)
  show "pushes cont (c\<lparr>outBuffer := rb_Retrieve R (outBuffer c) (int n)\<rparr>)"
    using l(3) out out' by (auto simp: pushes_def)
qed

lemma write_error_sound:
  assumes A: "app_ok A" and snd: "sound cont c w" and r: "sys_write S (conn_fd c) data w = (Inl e, v)"
  shows "sound cont c v" "closeEvent S A c v = (d, u) \<Longrightarrow> sound cont d u"
proof -
  have "silent (conn_fd c) (self c) w v"
    using sys_write_views [OF r] by (simp add: silent_def)
  then show v: "sound cont c v" using snd by (rule silent_sound)
  then have "linked c v" by (simp add: sound_def)
  then show "closeEvent S A c v = (d, u) \<Longrightarrow> sound cont d u"
    using closeEvent_sound [OF A _ v] by blast
qed

lemma writeEvent_sound:
  assumes R: "bufs_ok R cont" and S: "sys_ok S" and A: "app_ok A" and snd: "sound cont c w"
    and s: "writeEvent R S A c w = (d, v)"
  shows "sound cont d v"
proof -
  define c0 where "c0 = updateActivityTime S c w"
  have snd0: "sound cont c0 w"
    using snd by (simp add: c0_def same_out_preds(5) [OF same_out_activity])
  then have l0: "linked c0 w" "fifo cont c0 w" "pushes cont c0" "pulls cont c0"
    by (simp_all add: sound_def)
  obtain f e where fe: "rb_PeekAll R (outBuffer c0) = (f, e)" by fastforce
  have out: "cont (outBuffer c0) = f @ e" using bufs_PeekAll [OF R fe] .
  obtain r1 w1 where 1: "sys_write S (conn_fd c0) f w = (r1, w1)" by fastforce
  note D = writeEvent_def Let_def c0_def [symmetric] fe 1
  show ?thesis
  proof (cases r1)
    case (Inl err)
    with s write_error_sound [OF A snd0 1 [unfolded Inl]] show ?thesis
      by (auto simp: D split: if_splits)
  next
    case n: (Inr n)
    define c1 where "c1 = c0\<lparr>outBuffer := rb_Retrieve R (outBuffer c0) (int n)\<rparr>"
    have l1: "linked c1 w1" "fifo cont c1 w1" "pushes cont c1"
      "cont (outBuffer c1) = drop n f @ e" "n \<le> length f"
      using write_retrieve [OF R S l0(1-3) out 1 [unfolded n]] by (simp_all add: c1_def)
    have p1: "cont (outBuffer c1) \<noteq> [] \<Longrightarrow> pulls cont c1" by (simp add: pulls_def)
    have code: "(d, v) = (if n = length f \<and> length e > 0 then
        (case sys_write S (conn_fd c1) e w1 of
           (Inl err, w) \<Rightarrow> if err = EAGAIN then (c1, w) else closeEvent S A c1 w
         | (Inr n, w) \<Rightarrow>
             write_drained R S A (c1\<lparr>outBuffer := rb_Retrieve R (outBuffer c1) (int n)\<rparr>) w)
        else write_drained R S A c1 w1)"
      using s unfolding D n prod.case sum.case c1_def [symmetric] by (rule sym)
    show ?thesis
    proof (cases "n = length f \<and> length e > 0")
      case False
      with code have "write_drained R S A c1 w1 = (d, v)" by (auto split: if_splits)
      then show ?thesis using write_drained_sound [OF R A l1(1-3) p1] by blast
    next
      case both: True
      have snd1: "sound cont c1 w1" using l1 p1 both by (simp add: sound_def)
      have fd: "conn_fd c1 = conn_fd c0" by (simp add: c1_def)
      obtain r2 w2 where 2: "sys_write S (conn_fd c1) e w1 = (r2, w2)" by fastforce
      show ?thesis
      proof (cases r2)
        case (Inl err)
        with code both 2 write_error_sound [OF A snd1 2 [unfolded Inl]] show ?thesis
          by (auto split: if_splits)
      next
        case m: (Inr m)
        define c2 where "c2 = c1\<lparr>outBuffer := rb_Retrieve R (outBuffer c1) (int m)\<rparr>"
        have out1: "cont (outBuffer c1) = e @ []" using l1 both by simp
        have l2: "linked c2 w2" "fifo cont c2 w2" "pushes cont c2"
          using write_retrieve [OF R S l1(1-3) out1 2 [unfolded m]] by (simp_all add: c2_def)
        have p2: "cont (outBuffer c2) \<noteq> [] \<Longrightarrow> pulls cont c2" by (simp add: pulls_def)
        from code both 2 m have "write_drained R S A c2 w2 = (d, v)" by (simp add: c2_def)
        then show ?thesis using write_drained_sound [OF R A l2 p2] by blast
      qed
    qed
  qed
qed

section \<open>Reading\<close>

lemma deliver_sound:
  assumes R: "bufs_ok R cont" and S: "sys_ok S" and A: "app_ok A" and snd: "sound cont c w"
    and s: "deliver R S A f c w = Ret (d, v)"
  shows "sound cont d v"
proof -
  obtain out acts w1 where 1: "on_message A c f (emit (EffMessage (self c) f) w) = ((out, acts), w1)"
    by (metis surj_pair)
  obtain c2 w2 where 2: "run_api S acts c w1 = (c2, w2)" by fastforce
  have "silent (conn_fd c) (self c) w w1"
    using silent_app(1) [OF A 1] by (rule silent_trans [rotated]) simp
  then have snd1: "sound cont c w1" using snd by (rule silent_sound)
  then have wake: "mx_wakeEventFd (multi w1) \<noteq> conn_fd c" by (simp add: sound_def linked_def)
  have q: "silent (conn_fd c) (self c) w1 w2" "same_out c c2"
    using run_api_silent [OF wake 2] by blast+
  have snd2: "sound cont c2 w2"
    using silent_sound [OF q(1) snd1] by (simp add: same_out_preds(5) [OF q(2)])
  have "(d, v) = (c2, w2) \<or> (\<exists>o'. conn_write R S A o' c2 w2 = (d, v))"
  proof (cases out)
    case None
    with s 1 2 show ?thesis by (simp add: deliver_def split: if_splits)
  next
    case (Some b)
    with s 1 2 obtain r where "ICodec_Encode (codeImp c2) b = Ret r"
      by (auto simp: deliver_def bind_eq_Some_conv split: if_splits)
    with Some s 1 2 show ?thesis
      by (cases r) (auto simp: deliver_def split: if_splits)
  qed
  with snd2 conn_write_sound [OF R S A snd2] show ?thesis by auto
qed

lemma decode_shell:
  assumes "bufs_ok R cont" "ICodec_Decode cd (connect_Conn R) c = Ret (r, d)"
  shows "same_shell c d"
proof (cases "next_frame cd (stream_of cont c)")
  case None
  with connect.Decode_Panic [of R cont c c cd] assms show ?thesis by simp
next
  case (Some rk)
  then obtain r' k where "next_frame cd (stream_of cont c) = Ret (r', k)" by (cases rk) auto
  from connect_Decode [OF assms(1) this] assms(2) show ?thesis by fastforce
qed

text \<open>What decoding and delivering one frame keep, the frame loop keeps.\<close>

lemma read_loop_keeps:
  assumes dec: "\<And>c w r d. Q c w \<Longrightarrow> ICodec_Decode (codeImp c) (connect_Conn R) c = Ret (r, d) \<Longrightarrow> Q d w"
    and del: "\<And>c w f d v. Q c w \<Longrightarrow> deliver R S A f c w = Ret (d, v) \<Longrightarrow> Q d v"
    and run: "read_loop R S A c w = Ret s" and Q: "Q c w"
  shows "Q (fst s) (snd s)"
proof -
  let ?P = "\<lambda>R' S' A' c w s. R' = R \<and> S' = S \<and> A' = A \<longrightarrow> Q c w \<longrightarrow> Q (fst s) (snd s)"
  have "?P R S A c w s"
  proof (rule read_loop.raw_induct [where P = ?P, OF _ run])
    fix rec R' S' A' c w s
    assume 1: "\<And>R S A c w s. rec R S A c w = Ret s \<Longrightarrow> ?P R S A c w s"
      "Option.bind (ICodec_Decode (codeImp c) (connect_Conn R') c)
         (\<lambda>(r, c). case r of
            Inr (Some inFrame) \<Rightarrow>
              Option.bind (deliver R' S' A' inFrame c w) (\<lambda>(c, w). rec R' S' A' c w)
          | _ \<Rightarrow> Ret (c, w)) = Ret s"
    show "?P R' S' A' c w s"
    proof (intro impI, elim conjE)
      assume eqs: "R' = R" "S' = S" "A' = A" and Qc: "Q c w"
      from 1(2) [unfolded eqs] obtain r d
        where d: "ICodec_Decode (codeImp c) (connect_Conn R) c = Ret (r, d)"
          and rest: "(case r of
            Inr (Some f) \<Rightarrow> Option.bind (deliver R S A f d w) (\<lambda>(c, w). rec R S A c w)
          | _ \<Rightarrow> Ret (d, w)) = Ret s"
        by (auto simp: bind_eq_Some_conv)
      have Qd: "Q d w" using dec [OF Qc d] .
      show "Q (fst s) (snd s)"
      proof (cases "\<exists>f. r = Inr (Some f)")
        case True
        then obtain f where "r = Inr (Some f)" by blast
        with rest obtain e v where e: "deliver R S A f d w = Ret (e, v)" "rec R S A e v = Ret s"
          by (auto simp: bind_eq_Some_conv)
        from 1(1) [OF e(2)] del [OF Qd e(1)] show ?thesis by simp
      next
        case False
        with rest Qd show ?thesis by (auto split: sum.splits option.splits)
      qed
    qed
  qed
  with Q show ?thesis by simp
qed

lemma read_loop_sound:
  assumes "bufs_ok R cont" "sys_ok S" "app_ok A" "sound cont c w" "read_loop R S A c w = Ret (d, v)"
  shows "sound cont d v"
proof -
  have "sound cont e u" if "sound cont c u" "ICodec_Decode (codeImp c) (connect_Conn R) c = Ret (r, e)"
    for c e r u
    using that(1) by (simp add: same_out_preds(5) [OF same_shell_out [OF decode_shell [OF assms(1) that(2)]]])
  from read_loop_keeps [of "sound cont", OF this deliver_sound [OF assms(1-3)] assms(5,4)]
  show ?thesis by simp
qed

lemma readEvent_sound:
  assumes R: "bufs_ok R cont" and S: "sys_ok S" and A: "app_ok A" and snd: "sound cont c w"
    and s: "readEvent R S A c w = Ret (d, v)"
  shows "sound cont d v"
proof -
  define c0 where "c0 = updateActivityTime S c w"
  have snd0: "sound cont c0 w"
    using snd by (simp add: c0_def same_out_preds(5) [OF same_out_activity])
  note D = readEvent_def Let_def c0_def [symmetric]
  show ?thesis
  proof (cases "cont (outBuffer c0) = []")
    case False
    with s R have en: "enable_reading S False c0 w = (d, v)" by (simp add: D buf_laws)
    have "linked c0 w" "fifo cont c0 w" using snd0 by (simp_all add: sound_def)
    from enable_linked(2) [OF this en] enable_flow_read [OF en] False snd0 show ?thesis
      by (simp add: sound_def)
  next
    case True
    obtain r w1 where 1: "sys_read S (conn_fd c0) 65535 w = (r, w1)" by fastforce
    have snd1: "sound cont c0 w1" using silent_sound [OF silent_sys(1) [OF 1] snd0] .
    then have l1: "linked c0 w1" by (simp add: sound_def)
    have cl: "sound cont d v" if "closeEvent S A c0 w1 = (d, v)"
      using closeEvent_sound [OF A l1 snd1 that] by blast
    show ?thesis
    proof (cases r)
      case (Inl err)
      with True s R 1 snd1 cl show ?thesis by (auto simp: D buf_laws split: if_splits)
    next
      case (Inr bs)
      show ?thesis
      proof (cases "bs = []")
        case True
        with Inr \<open>cont (outBuffer c0) = []\<close> s R 1 cl show ?thesis by (simp add: D buf_laws)
      next
        case False
        with Inr True s R 1 obtain c2 where
          c2: "read_loop R S A (c0\<lparr>temporaryBuf := bs\<rparr>) w1 = Ret (c2, v)"
            "d = c2\<lparr>inBuffer := rb_Write R (inBuffer c2) (temporaryBuf c2)\<rparr>"
          by (auto simp: D buf_laws bind_eq_Some_conv)
        have "sound cont (c0\<lparr>temporaryBuf := bs\<rparr>) w1" using snd1 by (simp add: sound_defs)
        from read_loop_sound [OF R S A this c2(1)] c2(2) show ?thesis by (simp add: sound_defs)
      qed
    qed
  qed
qed

end
