(* ===== verification/ConnSystem.thy ===== *)
theory ConnSystem
  imports ConnOut
begin

text \<open>
  One connection in its surroundings, as a step relation: its loop dispatches events to its
  handlers and runs queued functions, other goroutines call its public methods, its timer
  fires, and everything else happens around it. The order of the steps is arbitrary, so what
  holds in all reachable states holds under every interleaving of whole operations.
\<close>

section \<open>Steps\<close>

fun run_handler ::
  "('rb, 'bb) bufs \<Rightarrow> 'k sys \<Rightarrow> ('rb, 'bb, ('k, 'z) loop_scheme) app \<Rightarrow> handler \<Rightarrow>
     ('rb, 'bb) conn \<Rightarrow> ('k, 'z) loop_scheme \<Rightarrow> (('rb, 'bb) conn \<times> ('k, 'z) loop_scheme) go" where
  "run_handler R S A (ReadHandler i) c w = readEvent R S A c w"
| "run_handler R S A (WriteHandler i) c w = Ret (writeEvent R S A c w)"
| "run_handler R S A (ErrHandler i) c w = Ret (errEvent S A c w)"
| "run_handler R S A (CloseHandler i) c w = Ret (closeEvent S A c w)"
| "run_handler R S A AcceptHandle c w = Ret (c, w)"

text \<open>The two closures that \<open>Close\<close> and \<open>WriteInSelfLoop\<close> hand to the loop.\<close>

fun run_task ::
  "('rb, 'bb) bufs \<Rightarrow> 'k sys \<Rightarrow> ('rb, 'bb, ('k, 'z) loop_scheme) app \<Rightarrow> task \<Rightarrow>
     ('rb, 'bb) conn \<Rightarrow> ('k, 'z) loop_scheme \<Rightarrow> ('rb, 'bb) conn \<times> ('k, 'z) loop_scheme" where
  "run_task R S A (TaskCloseEvent i) c w = closeEvent S A c w"
| "run_task R S A (TaskWrite i b) c w = conn_write R S A b c w"
| "run_task R S A (TaskConnected i) c w = (c, w)"
| "run_task R S A TaskAcceptClose c w = (c, w)"

text \<open>Effects of the rest of the program: on another descriptor and another connection, and starting
  timers and telling the application of a new connection, which the connection does not do.\<close>

fun foreign :: "int \<Rightarrow> nat \<Rightarrow> effect \<Rightarrow> bool" where
  "foreign fd i (EffRead fd' _) = (fd' \<noteq> fd)"
| "foreign fd i (EffWrite fd' _ _) = (fd' \<noteq> fd)"
| "foreign fd i (EffClose fd') = (fd' \<noteq> fd)"
| "foreign fd i (EffShutdown fd') = (fd' \<noteq> fd)"
| "foreign fd i (EffCtl _ _ fd' _ _) = (fd' \<noteq> fd)"
| "foreign fd i (EffMessage j _) = (j \<noteq> i)"
| "foreign fd i (EffSubmit j _) = (j \<noteq> i)"
| "foreign fd i (EffWriteComplete j) = (j \<noteq> i)"
| "foreign fd i (EffConnectClose j) = (j \<noteq> i)"
| "foreign fd i (EffConnect j) = True"
| "foreign fd i (EffPutBuffers j) = (j \<noteq> i)"
| "foreign fd i (EffAfterFunc j _) = True"

definition around ::
  "int \<Rightarrow> nat \<Rightarrow> ('k, 'z) loop_scheme \<Rightarrow> ('k, 'z) loop_scheme \<Rightarrow> bool" where
  "around fd i w w' \<longleftrightarrow>
     (\<exists>es. trace w' = trace w @ es \<and> list_all (foreign fd i) es) \<and>
     eventPool w' fd = eventPool w fd \<and> mx_fd (multi w') = mx_fd (multi w) \<and>
     mx_wakeEventFd (multi w') = mx_wakeEventFd (multi w)"

inductive conn_step ::
  "('rb, 'bb) bufs \<Rightarrow> 'k sys \<Rightarrow> ('rb, 'bb, ('k, 'z) loop_scheme) app \<Rightarrow>
     ('rb, 'bb) conn \<times> ('k, 'z) loop_scheme \<Rightarrow> ('rb, 'bb) conn \<times> ('k, 'z) loop_scheme \<Rightarrow> bool"
  for R S A where
  dispatch: "conn_step R S A (c, w) (d, v)"
    if "eventPool w (conn_fd c) = Some (ConnEvent (self c))"
      and "HandleEvent (event c) revents = Some h" and "run_handler R S A h c w = Ret (d, v)"
| queued: "conn_step R S A (c, w) (d, v)" if "run_task R S A t c w = (d, v)"
| call: "conn_step R S A (c, w) (d, v)" if "run_api S [a] c w = (d, v)"
| timer: "conn_step R S A (c, w) (c, closeTimeoutConn S c w)"
| other: "conn_step R S A (c, w) (c, v)" if "around (conn_fd c) (self c) w v"

inductive_cases conn_stepE: "conn_step R S A (c, w) (d, v)"

section \<open>What surrounds a connection does not touch it\<close>

lemma foreign_views1:
  assumes "foreign fd i e"
  shows "sent1 fd e = []" "received1 fd e = []" "closes1 fd e = 0" "ctls1 fd e = []"
    "submitted1 i e = []" "delivered1 i e = []" "goodbyes1 i e = []"
proof -
  have "sent1 fd e = [] \<and> received1 fd e = [] \<and> closes1 fd e = 0 \<and> ctls1 fd e = [] \<and>
      submitted1 i e = [] \<and> delivered1 i e = [] \<and> goodbyes1 i e = []"
  proof (cases e)
    case (EffRead fd' r)
    with assms show ?thesis by (cases r) simp_all
  next
    case (EffWrite fd' d r)
    with assms show ?thesis by (cases r) simp_all
  qed (use assms in simp_all)
  then show "sent1 fd e = []" "received1 fd e = []" "closes1 fd e = 0" "ctls1 fd e = []"
    "submitted1 i e = []" "delivered1 i e = []" "goodbyes1 i e = []" by simp_all
qed

lemma around_views:
  assumes "around fd i w v"
  shows "sent fd (trace v) = sent fd (trace w)" "received fd (trace v) = received fd (trace w)"
    "closes fd (trace v) = closes fd (trace w)" "ctls fd (trace v) = ctls fd (trace w)"
    "submitted i (trace v) = submitted i (trace w)" "delivered i (trace v) = delivered i (trace w)"
    "goodbyes i (trace v) = goodbyes i (trace w)"
proof -
  obtain es where es: "trace v = trace w @ es" "list_all (foreign fd i) es"
    using assms by (auto simp: around_def)
  from es(2) have "sent fd es = [] \<and> received fd es = [] \<and> closes fd es = 0 \<and> ctls fd es = [] \<and>
      submitted i es = [] \<and> delivered i es = [] \<and> goodbyes i es = []"
    by (induction es) (auto simp: foreign_views1)
  with es(1) show "sent fd (trace v) = sent fd (trace w)" "received fd (trace v) = received fd (trace w)"
    "closes fd (trace v) = closes fd (trace w)" "ctls fd (trace v) = ctls fd (trace w)"
    "submitted i (trace v) = submitted i (trace w)" "delivered i (trace v) = delivered i (trace w)"
    "goodbyes i (trace v) = goodbyes i (trace w)"
    by simp_all
qed

lemma around_sound: "around (conn_fd c) (self c) w v \<Longrightarrow> sound cont c w \<Longrightarrow> sound cont c v"
  by (simp add: sound_defs around_views interest_def ctl_failed_def) (simp add: around_def)

section \<open>Soundness of all reachable states\<close>

lemma timer_silent:
  "mx_wakeEventFd (multi w) \<noteq> fd \<Longrightarrow> silent fd i w (closeTimeoutConn S c w)"
  by (simp add: closeTimeoutConn_def Connect_Close_def RunInLoop_silent Let_def)

lemma conn_step_sound:
  assumes "bufs_ok R cont" "sys_ok S" "app_ok A"
  shows "conn_step R S A (c, w) (d, v) \<Longrightarrow> sound cont c w \<Longrightarrow> sound cont d v"
proof (erule conn_stepE)
  assume snd: "sound cont c w"
  then have l: "linked c w" and wake: "mx_wakeEventFd (multi w) \<noteq> conn_fd c"
    by (simp_all add: sound_def linked_def)
  note cl = closeEvent_sound [OF assms(3) l snd]
  show "sound cont d v" if "run_handler R S A h c w = Ret (d, v)" for h
    using that cl readEvent_sound [OF assms snd] writeEvent_sound [OF assms snd]
    by (cases h) (use snd in \<open>auto simp: errEvent_def\<close>)
  show "sound cont d v" if "run_task R S A t c w = (d, v)" for t
    using that cl conn_write_sound [OF assms snd] by (cases t) (use snd in auto)
  show "sound cont d v" if "run_api S [a] c w = (d, v)" for a
  proof -
    have q: "silent (conn_fd c) (self c) w v" "same_out c d"
      using run_api_silent [OF wake that] by blast+
    from silent_sound [OF q(1) snd] show ?thesis by (simp add: same_out_preds(5) [OF q(2)])
  qed
  show "sound cont d v" if "d = c" "v = closeTimeoutConn S c w"
    using silent_sound [OF timer_silent [OF wake] snd] that by simp
  show "sound cont d v" if "d = c" "around (conn_fd c) (self c) w v"
    using around_sound [OF that(2) snd] that(1) by simp
qed

section \<open>From creation on\<close>

text \<open>A descriptor and a connection number that have not been used before.\<close>

definition fresh :: "int \<Rightarrow> nat \<Rightarrow> ('k, 'z) loop_scheme \<Rightarrow> bool" where
  "fresh fd i w \<longleftrightarrow>
     mx_wakeEventFd (multi w) \<noteq> fd \<and> sent fd (trace w) = [] \<and> received fd (trace w) = [] \<and>
     closes fd (trace w) = 0 \<and> ctls fd (trace w) = [] \<and>
     submitted i (trace w) = [] \<and> delivered i (trace w) = [] \<and> goodbyes i (trace w) = []"

definition with_callbacks :: "('rb, 'bb) conn \<Rightarrow> ('rb, 'bb) conn" where
  "with_callbacks c =
     SetWriteCompleteCallback (SetMessageCallback (SetConnectCloseCallback c))"

text \<open>
  The states of a connection that was created and registered the way the server does it: \<open>New\<close>,
  the callbacks, some time later \<open>ConnectedHandle\<close> in the loop, then any steps.
\<close>

inductive conn_reachable ::
  "('rb, 'bb) bufs \<Rightarrow> 'k sys \<Rightarrow> ('rb, 'bb, ('k, 'z) loop_scheme) app \<Rightarrow> ICodec \<Rightarrow>
     ('rb, 'bb) conn \<times> ('k, 'z) loop_scheme \<Rightarrow> bool"
  for R S A cd where
  connected: "conn_reachable R S A cd (c, w)"
    if "fresh fd i w0" and "Connect_New R S i fd sa idle cd out0 in0 w0 = (Inr c0, w1)"
      and "around fd i w1 w2" and "ConnectedHandle S (with_callbacks c0) w2 = (err, c, w)"
      and "state c = Connected"
| step: "conn_reachable R S A cd s'" if "conn_reachable R S A cd s" and "conn_step R S A s s'"

text \<open>What \<open>New\<close> returns.\<close>

definition newborn :: "('rb \<Rightarrow> bytes) \<Rightarrow> int \<Rightarrow> nat \<Rightarrow> ICodec \<Rightarrow> ('rb, 'bb) conn \<Rightarrow> bool" where
  "newborn cont fd i cd c \<longleftrightarrow>
     conn_fd c = fd \<and> self c = i \<and> codeImp c = cd \<and> state c = Disconnected \<and>
     eventFd (event c) = fd \<and> eventAddr (event c) = ConnEvent i \<and>
     readHandle (event c) = Some (ReadHandler i) \<and> writeHandle (event c) = Some (WriteHandler i) \<and>
     errorHandle (event c) = Some (ErrHandler i) \<and> closeHandle (event c) = Some (CloseHandler i) \<and>
     cont (inBuffer c) = [] \<and> cont (outBuffer c) = []"

lemma Connect_New_newborn:
  assumes R: "bufs_ok R cont" and s: "Connect_New R S i fd sa idle cd out0 in0 w = (Inr c, v)"
  shows "newborn cont fd i cd c" "newborn cont fd i cd (with_callbacks c)"
    "fresh fd i w \<Longrightarrow> fresh fd i v"
  using s R
  by (auto simp: Connect_New_def newborn_def with_callbacks_def SetWriteCompleteCallback_def
      SetMessageCallback_def SetConnectCloseCallback_def NewEvent_def updateActivityTime_def
      setNoDelay_def sys_set_nonblock_def buf_laws fresh_def emit_def Let_def
      split: prod.splits option.splits if_splits)

lemma Register_linked:
  assumes "Register S e w = (None, v)" "mx_wakeEventFd (multi w) \<noteq> eventFd e"
    "closes (eventFd e) (trace w) = 0" "ctls (eventFd e) (trace w) = []" "goodbyes (self c) (trace w) = []"
    "eventFd e = conn_fd c" "eventAddr e = ConnEvent (self c)"
  shows "linked (c\<lparr>state := Connected, event := e\<rparr>) v"
  using assms
  by (auto simp: Register_def EventCtrl_addEvent_def Multiplex_AddEvent_def epollCtrl_def
      sys_epoll_ctl_def linked_def interest_def interest1_def EPOLL_CTL_ADD_def EPOLL_CTL_DEL_def
      split: prod.splits)

lemma Register_fresh:
  "Register S e w = (r, v) \<Longrightarrow> fresh fd i w \<Longrightarrow>
     sent fd (trace v) = [] \<and> submitted i (trace v) = [] \<and> received fd (trace v) = [] \<and>
     delivered i (trace v) = []"
  by (auto simp: Register_def EventCtrl_addEvent_def Multiplex_AddEvent_def epollCtrl_def
      sys_epoll_ctl_def fresh_def split: prod.splits)

lemma ConnectedHandle_sound:
  assumes nb: "newborn cont fd i cd c" and fr: "fresh fd i w"
    and s: "ConnectedHandle S c w = (err, d, v)" and st: "state d = Connected"
  shows "sound cont d v"
proof -
  obtain e0 w1 where 1: "Register S (event c) w = (e0, w1)" by fastforce
  have none: "e0 = None"
    using s st nb 1 by (cases e0) (auto simp: ConnectedHandle_def newborn_def)
  define c1 where "c1 = c\<lparr>state := Connected\<rparr>"
  have l1: "linked c1 w1" "fifo cont c1 w1"
    using Register_linked [of S "event c" w w1 c] 1 none nb fr Register_fresh [OF 1 fr]
    by (auto simp: newborn_def fresh_def c1_def fifo_def)
  obtain e2 ev2 w2 where 2: "Event_update S (set_mask EventRead True (event c1)) w1 = (e2, ev2, w2)"
    by (metis prod_cases3)
  define c2 where "c2 = c1\<lparr>event := ev2\<rparr>"
  have fd: "eventFd (set_mask m b (event c1)) = conn_fd c1" for m b
    using l1(1) by (simp add: linked_def)
  have l2: "linked c2 w2" "fifo cont c2 w2"
    using update_linked [OF l1(1) 2 fd] l1(2) by (simp_all add: c2_def)
  have ev2: "ev2 = set_mask EventRead True (event c1)" using Event_update_quiet [OF 2] by simp
  obtain e3 ev3 w3 where 3: "Event_update S (set_mask EventErr True (event c2)) w2 = (e3, ev3, w3)"
    by (metis prod_cases3)
  have fd2: "eventFd (set_mask EventErr True (event c2)) = conn_fd c2"
    using l2(1) by (simp add: linked_def)
  have l3: "linked (c2\<lparr>event := ev3\<rparr>) w3" "fifo cont (c2\<lparr>event := ev3\<rparr>) w3"
    using update_linked [OF l2(1) 3 fd2] l2(2) by simp_all
  have "d = c2\<lparr>event := ev3\<rparr>" "v = w3"
    using s 1 none 2 3
    by (auto simp: ConnectedHandle_def EnableReading_def EnableErrorEvent_def c1_def c2_def Let_def)
  moreover have "IsReading ev3"
    using Event_update_quiet [OF 3] ev2 by (simp add: c2_def)
  moreover have "cont (outBuffer c2) = []"
    using nb by (simp add: newborn_def c1_def c2_def)
  ultimately show ?thesis using l3 by (simp add: sound_def pushes_def pulls_def)
qed

lemma conn_reachable_sound:
  assumes "bufs_ok R cont" "sys_ok S" "app_ok A"
  shows "conn_reachable R S A cd s \<Longrightarrow> sound cont (fst s) (snd s)"
proof (induction rule: conn_reachable.induct)
  case (connected fd i w0 sa idle out0 in0 c0 w1 w2 err c w)
  have "newborn cont fd i cd (with_callbacks c0)" "fresh fd i w1"
    using Connect_New_newborn [OF assms(1) connected(2)] connected(1) by blast+
  moreover from this(2) have "fresh fd i w2"
    using around_views [OF connected(3)] connected(3) by (simp add: fresh_def around_def)
  ultimately show ?case using ConnectedHandle_sound connected(4,5) by simp blast
next
  case (step s s')
  then show ?case using conn_step_sound [OF assms] by (cases s; cases s') simp
qed

section \<open>Input in all reachable states\<close>

text \<open>
  \<open>J\<close> relates the bytes received, the frames delivered and the undecoded rest. A relation that
  is kept by cutting one more segment into frames is kept by every step.
\<close>

definition input_rel ::
  "('rb \<Rightarrow> bytes) \<Rightarrow> ICodec \<Rightarrow> (bytes \<Rightarrow> bytes list \<Rightarrow> bytes \<Rightarrow> bool) \<Rightarrow>
     ('rb, 'bb) conn \<Rightarrow> ('k, 'z) loop_scheme \<Rightarrow> bool" where
  "input_rel cont cd J c w \<longleftrightarrow>
     codeImp c = cd \<and> messageCallback c \<and>
     J (received (conn_fd c) (trace w)) (delivered (self c) (trace w)) (cont (inBuffer c))"

lemma calm_input: "calm c w (d, v) \<Longrightarrow> input_rel cont cd J c w \<Longrightarrow> input_rel cont cd J d v"
  by (auto simp: calm_def same_input_def input_rel_def quiet_views)

lemma timer_calm: "calm c w (c, closeTimeoutConn S c w)"
  by (auto simp: closeTimeoutConn_def Connect_Close_def calm_def same_input_def RunInLoop_quiet
      Let_def intro: quiet_emit)

lemma readEvent_input:
  assumes R: "bufs_ok R cont" and A: "app_ok A" and cd: "codec_safe cd"
    and law: "\<And>x fs r bs. J x fs r \<Longrightarrow> J (x @ bs) (fs @ fst (frames (frame_of cd) (r @ bs)))
      (snd (frames (frame_of cd) (r @ bs)))"
    and J: "input_rel cont cd J c w" and s: "readEvent R S A c w = Ret (d, v)"
  shows "input_rel cont cd J d v"
proof -
  have c: "codeImp c = cd" "messageCallback c" using J by (simp_all add: input_rel_def)
  have same: "input_rel cont cd J c v0"
    if "sys_read S (conn_fd c) 65535 w = (r, v0)" "r = Inr [] \<or> (\<exists>e. r = Inl e)" for r v0
    using J that(2) sys_read_trace [OF that(1)] by (auto simp: input_rel_def)
  have more: "input_rel cont cd J d v"
    if "sys_read S (conn_fd c) 65535 w = (Inr bs, v0)"
      "hands (fst (frames (frame_of cd) (cont (inBuffer c) @ bs))) c v0 d v"
      "cont (inBuffer d) = snd (frames (frame_of cd) (cont (inBuffer c) @ bs))" for bs v0
    using J that(2,3) sys_read_trace [OF that(1)]
      law [of "received (conn_fd c) (trace w)" "delivered (self c) (trace w)" "cont (inBuffer c)" bs]
    by (simp add: input_rel_def hands_def)
  have cdc: "codec_safe (codeImp c)" using cd c(1) by simp
  show ?thesis
  proof (cases rule: readEvent_frames [OF R A cdc c(2), of S w])
    case (1 d' v')
    then show ?thesis using calm_input [OF 1(2) J] s by simp
  next
    case (2 r w1 d' v')
    then show ?thesis using calm_input [OF 2(4) same [OF 2(1,2)]] s by simp
  next
    case (3 bs w1 d' v')
    then show ?thesis using more [OF 3(1)] s c(1) by simp
  qed
qed

lemma conn_step_input:
  assumes R: "bufs_ok R cont" and A: "app_ok A" and cd: "codec_safe cd"
    and law: "\<And>x fs r bs. J x fs r \<Longrightarrow> J (x @ bs) (fs @ fst (frames (frame_of cd) (r @ bs)))
      (snd (frames (frame_of cd) (r @ bs)))"
    and J: "input_rel cont cd J c w" and s: "conn_step R S A (c, w) (d, v)"
  shows "input_rel cont cd J d v"
  using s
proof (rule conn_stepE)
  note calm = calm_input [OF _ J]
  show ?thesis if "run_handler R S A h c w = Ret (d, v)" for h
    using that readEvent_input [OF R A cd law J] calm writeEvent_calm [OF A] closeEvent_calm [OF A]
    by (cases h) (auto simp: errEvent_def, metis+)
  show ?thesis if "run_task R S A t c w = (d, v)" for t
    using that calm conn_write_calm [OF A] closeEvent_calm [OF A] by (cases t) (auto, metis+)
  show ?thesis if "run_api S [a] c w = (d, v)" for a
    using that calm run_api_calm by metis
  show ?thesis if "d = c" "v = closeTimeoutConn S c w"
    using that calm timer_calm by metis
  show ?thesis if "d = c" "around (conn_fd c) (self c) w v"
    using that(1) J by (simp add: input_rel_def around_views [OF that(2)])
qed

lemma conn_reachable_input:
  assumes R: "bufs_ok R cont" and A: "app_ok A" and cd: "codec_safe cd"
    and law: "\<And>x fs r bs. J x fs r \<Longrightarrow> J (x @ bs) (fs @ fst (frames (frame_of cd) (r @ bs)))
      (snd (frames (frame_of cd) (r @ bs)))"
    and base: "J [] [] []"
  shows "conn_reachable R S A cd s \<Longrightarrow> input_rel cont cd J (fst s) (snd s)"
proof (induction rule: conn_reachable.induct)
  case (connected fd i w0 sa idle out0 in0 c0 w1 w2 err c w)
  have nb: "newborn cont fd i cd (with_callbacks c0)" "fresh fd i w1"
    using Connect_New_newborn [OF R connected(2)] connected(1) by blast+
  then have fr: "fresh fd i w2"
    using around_views [OF connected(3)] connected(3) by (simp add: fresh_def around_def)
  obtain e0 w3 where 1: "Register S (event (with_callbacks c0)) w2 = (e0, w3)" by fastforce
  have "same_input (with_callbacks c0) c \<and> quiet w3 w"
    using connected(4) 1
    by (auto simp: ConnectedHandle_def same_input_def EnableReading_def EnableErrorEvent_def
        Let_def dest!: Event_update_quiet intro: quiet_trans split: prod.splits option.splits)
  then have c: "same_input (with_callbacks c0) c" "quiet w3 w" by simp_all
  from Register_fresh [OF 1 fr] nb base c(1) show ?case
    by (simp add: input_rel_def same_input_def newborn_def quiet_views [OF c(2)])
       (simp add: with_callbacks_def SetWriteCompleteCallback_def SetMessageCallback_def
          SetConnectCloseCallback_def)
next
  case (step s s')
  then show ?case using conn_step_input [where J = J, OF R A cd law] by (cases s; cases s') simp
qed

text \<open>The two relations: all frames of what was received, or all bytes of it.\<close>

lemma conn_reachable_frames:
  assumes "bufs_ok R cont" and "app_ok A" and "incremental cd" and "codec_wf cd"
    and "conn_reachable R S A cd (c, w)"
  shows "frames (frame_of cd) (received (conn_fd c) (trace w)) =
           (delivered (self c) (trace w), cont (inBuffer c))"
proof -
  let ?J = "\<lambda>x fs r. frames (frame_of cd) x = (fs, r)"
  have "?J (x @ bs) (fs @ fst (frames (frame_of cd) (r @ bs))) (snd (frames (frame_of cd) (r @ bs)))"
    if "?J x fs r" for x fs r bs
    using incremental_frames_append [OF assms(3) that, of bs] by simp
  then have "input_rel cont cd ?J c w"
    using conn_reachable_input [where J = ?J, OF assms(1,2) codec_wf_safe [OF assms(4)] _ _ assms(5)]
    by simp
  then show ?thesis by (simp add: input_rel_def)
qed

lemma conn_reachable_bytes:
  assumes "bufs_ok R cont" and "app_ok A" and "\<not> incremental cd" and "codec_wf cd"
    and "conn_reachable R S A cd (c, w)"
  shows "concat (delivered (self c) (trace w)) = received (conn_fd c) (trace w) \<and> cont (inBuffer c) = []"
proof -
  let ?J = "\<lambda>x fs r. concat fs = x \<and> r = ([] :: bytes)"
  have "input_rel cont cd ?J c w"
    using conn_reachable_input [where J = ?J, OF assms(1,2) codec_wf_safe [OF assms(4)] _ _ assms(5)]
      eager_frames [OF assms(3)]
    by simp
  then show ?thesis by (simp add: input_rel_def)
qed

end
