(* ===== verification/Demo.thy ===== *)
theory Demo
  imports Instances ConnSystem
begin

text \<open>
  A run of the model on the stand-ins of \<open>Instances\<close>: descriptor 7 is connected as connection
  0 and one read event is handled. Its states are reachable and can be computed, so they show
  that the hypotheses of the theorems on reachable states hold somewhere.
\<close>

definition start_loop :: "(errno + bytes) list \<Rightarrow> (errno + nat) list \<Rightarrow> script loop" where
  "start_loop rs ws = (a_loop rs ws)\<lparr>eventPool := Map.empty\<rparr>"

definition demo_start ::
  "(errno + bytes) list \<Rightarrow> (errno + nat) list \<Rightarrow> ICodec \<Rightarrow> (bytes, bytes) conn \<times> script loop" where
  "demo_start rs ws cd =
     (case Connect_New list_bufs script_sys 0 7 (SockaddrInet4 [10, 0, 0, 1] 80) 0 cd [] []
             (start_loop rs ws) of
        (Inr c, w) \<Rightarrow> (case ConnectedHandle script_sys (with_callbacks c) w of (_, c, w) \<Rightarrow> (c, w))
      | (Inl _, w) \<Rightarrow> (a_conn cd, w))"

lemma echo_app_ok: "app_ok echo_app"
  by (simp add: app_ok_def echo_app_def same_loop_def)

lemma demo_start_reachable:
  "conn_reachable list_bufs script_sys echo_app cd (demo_start rs ws cd)"
proof -
  obtain r w1 where 1: "Connect_New list_bufs script_sys 0 7 (SockaddrInet4 [10, 0, 0, 1] 80) 0 cd
      [] [] (start_loop rs ws) = (r, w1)" by fastforce
  then obtain c0 where c0: "r = Inr c0"
    by (auto simp: Connect_New_def setNoDelay_def sys_set_nonblock_def script_sys_def Let_def)
  obtain e c w where 2: "ConnectedHandle script_sys (with_callbacks c0) w1 = (e, c, w)"
    by (metis prod_cases3)
  have "state c = Connected"
    using 2 by (auto simp: ConnectedHandle_def Register_def EventCtrl_addEvent_def
        Multiplex_AddEvent_def epollCtrl_def sys_epoll_ctl_def script_sys_def Let_def
        split: prod.splits)
  moreover have "fresh 7 0 (start_loop rs ws)"
    by (simp add: fresh_def start_loop_def a_loop_def)
  moreover have "around 7 0 w1 w1" by (simp add: around_def)
  ultimately have "conn_reachable list_bufs script_sys echo_app cd (c, w)"
    using conn_reachable.connected 1 2 c0 by metis
  then show ?thesis using 1 2 c0 by (simp add: demo_start_def)
qed

lemma demo_peer: "JoinHostPort (IP_String [10, 0, 0, 1]) (Itoa 80) = ''10.0.0.1:80''"
  by code_simp

lemma demo_start_eq:
  "demo_start rs ws cd =
     ((a_conn cd)\<lparr>event := (event (a_conn cd))\<lparr>oldEvents := EventRead\<rparr>\<rparr>,
      (a_loop rs ws)\<lparr>trace := [EffCtl 3 1 7 0 None, EffCtl 3 3 7 3 None, EffCtl 3 3 7 11 None]\<rparr>)"
  by (simp add: demo_start_def Connect_New_def setNoDelay_def sys_set_nonblock_def script_sys_def
      start_loop_def a_loop_def a_conn_def NewEvent_def with_callbacks_def demo_peer
      SetWriteCompleteCallback_def SetMessageCallback_def SetConnectCloseCallback_def
      ConnectedHandle_def Register_def EventCtrl_addEvent_def EventCtrl_modifyEvent_def
      Multiplex_ModifyEvent_def Multiplex_AddEvent_def epollCtrl_def sys_epoll_ctl_def emit_def
      EnableReading_def EnableErrorEvent_def Event_update_def set_mask_def
      GetEpollEventsFromIOEvent_def mask_defs list_bufs_def EPOLL_CTL_ADD_def EPOLL_CTL_MOD_def
      Let_def)

text \<open>One read event on it, with any codec that cannot panic.\<close>

lemma demo_reads:
  assumes cd: "codec_safe cd" and bs: "bs \<noteq> []" "length bs \<le> 65535"
  shows "\<exists>c (w :: script loop). conn_reachable list_bufs script_sys echo_app cd (c, w) \<and> conn_fd c = 7 \<and>
    self c = 0 \<and> received 7 (trace w) = bs"
proof -
  obtain c w where cw: "demo_start [Inr bs] [] cd = (c, w)" by fastforce
  then have c: "codeImp c = cd" "messageCallback c" "conn_fd c = 7" "self c = 0" "outBuffer c = []"
    "kern w = \<lparr>s_reads = [Inr bs], s_writes = [], s_now = 0\<rparr>" "received 7 (trace w) = []"
    "eventPool w 7 = Some (ConnEvent 0)" "HandleEvent (event c) EventRead = Some (ReadHandler 0)"
    by (auto simp: demo_start_eq a_conn_def a_loop_def HandleEvent_def mask_defs)
  obtain w1 where r: "sys_read script_sys 7 65535 w = (Inr bs, w1)"
    using c bs by (simp add: sys_read_def script_sys_def)
  have w1: "received 7 (trace w1) = bs" using c sys_read_trace [OF r] by simp
  have safe: "codec_safe (codeImp c)" and fd: "sys_read script_sys (conn_fd c) 65535 w = (Inr bs, w1)"
    using cd c r by simp_all
  obtain d v where dv: "readEvent list_bufs script_sys echo_app c w = Ret (d, v)"
    "hands (fst (frames (frame_of (codeImp c)) (inBuffer c @ bs))) c w1 d v"
    using readEvent_data [OF list_bufs_ok echo_app_ok safe c(2,5) fd bs(1)] by blast
  have "conn_reachable list_bufs script_sys echo_app cd (c, w)"
    using demo_start_reachable cw by metis
  moreover have "conn_step list_bufs script_sys echo_app (c, w) (d, v)"
    using c dv(1) by (intro conn_step.dispatch [of w c EventRead]) auto
  ultimately have "conn_reachable list_bufs script_sys echo_app cd (d, v)"
    by (rule conn_reachable.step)
  moreover have "conn_fd d = 7" "self d = 0" "received 7 (trace v) = bs"
    using dv(2) c w1 by (simp_all add: hands_def)
  ultimately show ?thesis by blast
qed

text \<open>
  A queued write of three bytes of which the kernel takes one, and then the error event.
\<close>

definition demo_part :: "ICodec \<Rightarrow> (bytes, bytes) conn \<times> script loop" where
  "demo_part cd = (case demo_start [] [Inr 1] cd of (c, w) \<Rightarrow>
     conn_write list_bufs script_sys echo_app [1, 2, 3] c w)"

lemma demo_part_reachable: "conn_reachable list_bufs script_sys echo_app cd (demo_part cd)"
proof -
  obtain c w where cw: "demo_start [] [Inr 1] cd = (c, w)" by fastforce
  have "run_task list_bufs script_sys echo_app (TaskWrite 0 [1, 2, 3]) c w = demo_part cd"
    unfolding demo_part_def cw by simp
  then have "conn_step list_bufs script_sys echo_app (c, w) (demo_part cd)"
    by (metis conn_step.queued surj_pair)
  with demo_start_reachable [of cd "[]" "[Inr 1]"] cw show ?thesis
    by (metis conn_reachable.step)
qed

lemma demo_part_eq:
  "demo_part cd =
     ((a_conn cd)\<lparr>outBuffer := [2, 3], event := (event (a_conn cd))\<lparr>
         oldEvents := EventRead OR EventErr, events := EventRead OR EventErr OR EventWrite\<rparr>\<rparr>,
      (a_loop [] [])\<lparr>trace := [EffCtl 3 1 7 0 None, EffCtl 3 3 7 3 None, EffCtl 3 3 7 11 None,
         EffSubmit 0 [1, 2, 3], EffWrite 7 [1, 2, 3] (Inr 1), EffCtl 3 3 7 15 None]\<rparr>)"
  by (simp add: demo_part_def demo_start_eq conn_write_def list_bufs_def sys_write_def
      script_sys_def a_loop_def a_conn_def enable_writing_def EnableWriting_def Event_update_def
      EventCtrl_modifyEvent_def Multiplex_ModifyEvent_def epollCtrl_def sys_epoll_ctl_def emit_def
      set_mask_def GetEpollEventsFromIOEvent_def mask_defs NewEvent_def EPOLL_CTL_MOD_def)

end
