(* ===== verification/CodecClaims.thy ===== *)
theory CodecClaims
  imports CodecEdge Demo
begin

unbundle bit_operations_syntax

text \<open>
  What the codecs guarantee, each property at a concrete input too: they decode a connection's
  two buffers as one stream, do not depend on how it is segmented, do not panic when the
  configuration is sound, and where encoding and decoding do not fit together.
\<close>

section \<open>Configurations for the witnesses\<close>

definition ec2 :: EncoderConfig where
  "ec2 = \<lparr>ec_ByteOrder = Some BigEndian, ec_LengthFieldLength = 2, ec_LengthAdjustment = 0,
          ec_LengthIncludesLengthFieldLength = False\<rparr>"

definition dc2 :: DecoderConfig where
  "dc2 = \<lparr>dc_ByteOrder = Some BigEndian, dc_LengthFieldOffset = 0, dc_LengthFieldLength = 2,
          dc_LengthAdjustment = 0, dc_InitialBytesToStrip = 2\<rparr>"

lemma ec2_dc2: "lf_match ec2 dc2" "lf_fits ec2 [7, 8]" "lf_fits ec2 []"
  by (simp_all add: lf_match_def lf_fits_def lf_total_def ec2_def dc2_def)

section \<open>Decoding\<close>

text \<open>C20: every codec decodes a connection exactly as its stream function says, wherever the
  boundary between the in buffer and the new segment lies.\<close>

theorem connect_decode_refines:
  assumes "bufs_ok R cont" and "next_frame cd (stream_of cont c) = Ret (r, k)"
  shows "\<exists>d. ICodec_Decode cd (connect_Conn R) c = Ret (r, d) \<and>
           stream_of cont d = drop k (stream_of cont c) \<and> same_shell c d"
  using connect_Decode [OF assms] by metis

theorem connect_decode_refines_witness:
  "\<exists>d. ICodec_Decode LineBasedFrameCodec (connect_Conn list_bufs)
      ((a_conn LineBasedFrameCodec)\<lparr>inBuffer := [104], temporaryBuf := [105, 10, 106]\<rparr>)
      = Ret (Inr (Some [104, 105]), d) \<and> stream_of (\<lambda>r. r) d = [106]"
  using connect_decode_refines [OF list_bufs_ok, of LineBasedFrameCodec
      "(a_conn LineBasedFrameCodec)\<lparr>inBuffer := [104], temporaryBuf := [105, 10, 106]\<rparr>"
      "Inr (Some [104, 105])" 3]
  by (auto simp: stream_of_def delim_next_def CRLFByte_def Let_def)

text \<open>C21: for the line, delimiter and length field codecs it does not matter how the kernel cuts the
  input: a read event that finds \<open>s @ t\<close> hands over the same frames and keeps the same rest as one
  that finds \<open>s\<close> and a later one, once the answers are written, that finds \<open>t\<close>. Kernel, handler
  and everything else may differ between the two runs.\<close>

theorem segmentation_independent:
  assumes "bufs_ok R cont" and "app_ok A" and "app_ok B" and "incremental (codeImp c)" and "codec_wf (codeImp c)"
    and "messageCallback c" and "cont (outBuffer c) = []" and "s \<noteq> []" and "t \<noteq> []"
    and "sys_read S (conn_fd c) 65535 w = (Inr (s @ t), w1)"
    and "sys_read T (conn_fd c) 65535 u = (Inr s, u1)"
  shows "\<exists>d v fs d1 v1 fs1. readEvent R S A c w = Ret (d, v) \<and> readEvent R T B c u = Ret (d1, v1) \<and>
    delivered (self c) (trace v) = delivered (self c) (trace w) @ fs \<and>
    delivered (self c) (trace v1) = delivered (self c) (trace u) @ fs1 \<and>
    (\<forall>e x x1. self e = self d1 \<and> codeImp e = codeImp d1 \<and> messageCallback e = messageCallback d1 \<and>
       cont (inBuffer e) = cont (inBuffer d1) \<and> cont (outBuffer e) = [] \<and>
       sys_read T (conn_fd e) 65535 x = (Inr t, x1) \<longrightarrow>
       (\<exists>d2 v2 fs2. readEvent R T B e x = Ret (d2, v2) \<and>
          delivered (self c) (trace v2) = delivered (self c) (trace x) @ fs2 \<and>
          fs = fs1 @ fs2 \<and> cont (inBuffer d2) = cont (inBuffer d)))"
proof -
  let ?p = "frames (frame_of (codeImp c))"
  note data = readEvent_data [OF assms(1) _ codec_wf_safe]
  obtain fs1 r1 fs2 r2 where cut: "?p (cont (inBuffer c) @ s) = (fs1, r1)" "?p (r1 @ t) = (fs2, r2)" by fastforce
  from incremental_frames_append [OF assms(4) cut]
  have whole: "?p (cont (inBuffer c) @ s @ t) = (fs1 @ fs2, r2)" by simp
  obtain d v where dv: "readEvent R S A c w = Ret (d, v)" "hands (fs1 @ fs2) c w1 d v" "cont (inBuffer d) = r2"
    using data [OF assms(2,5-7,10)] assms(8) whole by auto
  obtain d1 v1 where dv1: "readEvent R T B c u = Ret (d1, v1)" "hands fs1 c u1 d1 v1" "cont (inBuffer d1) = r1"
    using data [OF assms(3,5-7,11,8)] cut(1) by auto
  have d1: "codeImp d1 = codeImp c" "messageCallback d1" "self d1 = self c"
    using dv1(2) assms(6) by (simp_all add: hands_def)
  have later: "\<exists>d2 v2. readEvent R T B e x = Ret (d2, v2) \<and> hands fs2 e x1 d2 v2 \<and> cont (inBuffer d2) = r2"
    if e: "codeImp e = codeImp d1" "messageCallback e = messageCallback d1" "cont (inBuffer e) = cont (inBuffer d1)"
      "cont (outBuffer e) = []" "sys_read T (conn_fd e) 65535 x = (Inr t, x1)" for e x x1
    using data [OF assms(3), of e T x t x1] e d1 dv1(3) assms(5,9) cut(2) by auto
  have "\<exists>d2 v2 fs2'. readEvent R T B e x = Ret (d2, v2) \<and>
      delivered (self c) (trace v2) = delivered (self c) (trace x) @ fs2' \<and>
      fs1 @ fs2 = fs1 @ fs2' \<and> cont (inBuffer d2) = cont (inBuffer d)"
    if e: "self e = self d1 \<and> codeImp e = codeImp d1 \<and> messageCallback e = messageCallback d1 \<and>
      cont (inBuffer e) = cont (inBuffer d1) \<and> cont (outBuffer e) = [] \<and>
      sys_read T (conn_fd e) 65535 x = (Inr t, x1)" for e x x1
  proof -
    obtain d2 v2 where 2: "readEvent R T B e x = Ret (d2, v2)" "hands fs2 e x1 d2 v2" "cont (inBuffer d2) = r2"
      using later [of e x x1] e by blast
    moreover have "trace x1 = trace x @ [EffRead (conn_fd e) (Inr t)]" using e sys_read_trace by blast
    ultimately show ?thesis using d1(3) dv(3) e by (intro exI [of _ d2] exI [of _ v2] exI [of _ fs2]) (simp add: hands_def)
  qed
  moreover have "delivered (self c) (trace v) = delivered (self c) (trace w) @ fs1 @ fs2"
    "delivered (self c) (trace v1) = delivered (self c) (trace u) @ fs1"
    using dv(2) dv1(2) sys_read_trace [OF assms(10)] sys_read_trace [OF assms(11)] by (simp_all add: hands_def)
  ultimately show ?thesis using dv(1) dv1(1) by blast
qed

theorem segmentation_independent_witness:
  "\<exists>d v d1 v1 d2 v2. readEvent list_bufs script_sys echo_app (a_conn LineBasedFrameCodec)
       (a_loop [Inr [1, 10, 2, 10]] []) = Ret (d, v) \<and>
     readEvent list_bufs script_sys echo_app (a_conn LineBasedFrameCodec) (a_loop [Inr [1, 10, 2]] []) = Ret (d1, v1) \<and>
     readEvent list_bufs script_sys echo_app (d1\<lparr>outBuffer := []\<rparr>) (a_loop [Inr [10]] []) = Ret (d2, v2) \<and>
     delivered 0 (trace v) = delivered 0 (trace v1) @ delivered 0 (trace v2) \<and> inBuffer d2 = inBuffer d"
proof -
  have c: "incremental (codeImp (a_conn LineBasedFrameCodec))" "codec_wf (codeImp (a_conn LineBasedFrameCodec))"
    "messageCallback (a_conn LineBasedFrameCodec)" "outBuffer (a_conn LineBasedFrameCodec) = []"
    "self (a_conn LineBasedFrameCodec) = 0" by (simp_all add: a_conn_def)
  have r: "\<exists>u. sys_read script_sys fd 65535 (a_loop [Inr bs] []) = (Inr (take 65535 bs), u)" for fd and bs :: bytes
    by (simp add: sys_read_def script_sys_def a_loop_def)
  obtain u1 u2 where "sys_read script_sys (conn_fd (a_conn LineBasedFrameCodec)) 65535 (a_loop [Inr [1, 10, 2, 10]] []) = (Inr ([1, 10, 2] @ [10]), u1)"
    "sys_read script_sys (conn_fd (a_conn LineBasedFrameCodec)) 65535 (a_loop [Inr [1, 10, 2]] []) = (Inr [1, 10, 2], u2)"
    using r [of _ "[1, 10, 2, 10]"] r [of _ "[1, 10, 2]"] by fastforce
  from segmentation_independent [OF list_bufs_ok echo_app_ok echo_app_ok c(1-4) list.distinct(2) list.distinct(2) this, unfolded c(5)]
  obtain d v d1 v1 fs fs1 where 1:
    "readEvent list_bufs script_sys echo_app (a_conn LineBasedFrameCodec) (a_loop [Inr [1, 10, 2, 10]] []) = Ret (d, v)"
    "readEvent list_bufs script_sys echo_app (a_conn LineBasedFrameCodec) (a_loop [Inr [1, 10, 2]] []) = Ret (d1, v1)"
    "delivered 0 (trace v) = delivered 0 (trace (a_loop [Inr [1, 10, 2, 10]] [])) @ fs"
    "delivered 0 (trace v1) = delivered 0 (trace (a_loop [Inr [1, 10, 2]] [])) @ fs1"
    and later: "\<forall>e (x :: script loop) x1. self e = self d1 \<and> codeImp e = codeImp d1 \<and> messageCallback e = messageCallback d1 \<and>
       inBuffer e = inBuffer d1 \<and> outBuffer e = [] \<and> sys_read script_sys (conn_fd e) 65535 x = (Inr [10], x1) \<longrightarrow>
       (\<exists>d2 v2 fs2. readEvent list_bufs script_sys echo_app e x = Ret (d2, v2) \<and>
          delivered 0 (trace v2) = delivered 0 (trace x) @ fs2 \<and> fs = fs1 @ fs2 \<and> inBuffer d2 = inBuffer d)"
    by (elim exE conjE) (rule that; assumption)
  obtain u3 where "sys_read script_sys (conn_fd (d1\<lparr>outBuffer := []\<rparr>)) 65535 (a_loop [Inr [10]] []) = (Inr [10], u3)"
    using r [of _ "[10]"] by fastforce
  with later [rule_format, of "d1\<lparr>outBuffer := []\<rparr>" "a_loop [Inr [10]] []" u3]
  obtain d2 v2 fs2 where "readEvent list_bufs script_sys echo_app (d1\<lparr>outBuffer := []\<rparr>) (a_loop [Inr [10]] []) = Ret (d2, v2)"
    "delivered 0 (trace v2) = delivered 0 (trace (a_loop [Inr [10]] [])) @ fs2" "fs = fs1 @ fs2" "inBuffer d2 = inBuffer d"
    by auto
  with 1 show ?thesis by (auto simp: a_loop_def)
qed

text \<open>C29: with a sound configuration no input makes a decode or an encode panic.\<close>

theorem codec_no_panic:
  assumes "bufs_ok R cont" and "codec_wf cd"
  shows "ICodec_Decode cd (connect_Conn R) c \<noteq> Panic \<and> ICodec_Encode cd m \<noteq> Panic"
proof -
  have safe: "next_frame cd (stream_of cont c) \<noteq> None" "ICodec_Encode cd m \<noteq> None"
    using codec_wf_safe [OF assms(2)] by (simp_all add: codec_safe_def)
  then obtain r k where "next_frame cd (stream_of cont c) = Ret (r, k)"
    by (cases "next_frame cd (stream_of cont c)") auto
  from connect_Decode [OF assms(1) this] safe(2) show ?thesis by fastforce
qed

theorem codec_no_panic_witness:
  "ICodec_Decode (LengthFieldBasedFrameCodec ec2 dc2) (connect_Conn list_bufs)
     ((a_conn LineBasedFrameCodec)\<lparr>inBuffer := [0], temporaryBuf := [0, 1]\<rparr>) \<noteq> Panic"
  using codec_no_panic [OF list_bufs_ok, of "LengthFieldBasedFrameCodec ec2 dc2"]
  by (simp add: ec2_def dc2_def)

text \<open>Without that condition a peer can make the decoder panic: with four bytes to strip, a
  two byte length field and one byte of payload is a frame that is cut behind its end.\<close>

theorem short_frame_panics:
  "next_frame (LengthFieldBasedFrameCodec ec2 (dc2\<lparr>dc_InitialBytesToStrip := 4\<rparr>)) [0, 1, 7] = Panic"
  by (simp add: lf_next_def dc2_def lf_width_def lf_value_def order_Uint_def Uint_def go_int_def
      slice_from_def)

section \<open>Encoding and decoding\<close>

text \<open>C27: what a codec encoded its decoder gives back: on a connection whose unread input starts with
  the encoding of a message the format can carry, \<open>Decode\<close> returns that message and takes exactly
  its encoding off the input, wherever the boundary between the in buffer and the new segment is.\<close>

theorem encode_then_decode:
  assumes "bufs_ok R cont" and "survives cd m" and "stream_of cont c = b @ rest"
    and "ICodec_Encode cd m = Ret (Inr b)"
  shows "\<exists>d. ICodec_Decode cd (connect_Conn R) c = Ret (Inr (Some m), d) \<and> stream_of cont d = rest"
proof -
  have "frame_of cd (stream_of cont c) = Some (m, length b)"
    using survives_frame_of [OF assms(2,4)] assms(3) by simp
  then have "next_frame cd (stream_of cont c) = Ret (Inr (Some m), length b)" by (simp add: frame_of_Some)
  from connect_Decode [OF assms(1) this] assms(3) show ?thesis by (metis append_eq_conv_conj)
qed

theorem encode_then_decode_witness:
  "\<exists>d. ICodec_Decode (LengthFieldBasedFrameCodec ec2 dc2) (connect_Conn list_bufs)
      ((a_conn LineBasedFrameCodec)\<lparr>inBuffer := [0], temporaryBuf := [2, 7, 8, 0]\<rparr>) =
     Ret (Inr (Some [7, 8]), d) \<and> stream_of (\<lambda>r. r) d = [0]"
proof -
  have "enc_len ec2 [7, 8] = 2" by (simp add: enc_len_def ec2_def go_int_def)
  then have "ICodec_Encode (LengthFieldBasedFrameCodec ec2 dc2) [7, 8] = Ret (Inr [0, 2, 7, 8])"
    by (simp add: Encode_enc_len ec2_def order_PutUint_def PutUint_def put_le_def upt_rec)
  then show ?thesis
    using ec2_dc2 by (intro encode_then_decode [OF list_bufs_ok]) (auto simp: lf_ok_def stream_of_def)
qed

text \<open>C28: a successful length field encode is a header and the message; the header reads back as
  the adjusted length, modulo the width of the field, and only the four byte field can lose
  anything because the other widths are checked.\<close>

theorem encode_header:
  assumes "LengthFieldBasedFrameCodec_Encode ec m = Ret (Inr b)"
  shows "\<exists>hdr w. b = hdr @ m \<and> ec_LengthFieldLength ec = int w \<and> 0 \<le> enc_len ec m \<and>
    reads_back (ec_ByteOrder ec) (enc_len ec m) w hdr \<and> (w \<noteq> 4 \<longrightarrow> enc_len ec m < 2 ^ (8 * w))"
  using assms by (rule lf_encode_header)

theorem encode_header_witness:
  "\<exists>hdr w. [2, 7, 8] = hdr @ [7, 8 :: byte] \<and> w = 1 \<and> reads_back None 2 w hdr"
proof -
  let ?ec = "ec2\<lparr>ec_LengthFieldLength := 1, ec_ByteOrder := None\<rparr>"
  have len: "enc_len ?ec [7, 8] = 2" by (simp add: enc_len_def ec2_def go_int_def)
  then have "LengthFieldBasedFrameCodec_Encode ?ec [7, 8] = Ret (Inr [2, 7, 8])"
    by (simp add: Encode_enc_len)
  from encode_header [OF this] len show ?thesis by auto
qed

text \<open>The four byte field does lose it: two lengths \<open>2 ^ 32\<close> apart get the same header.\<close>

theorem encode_truncates:
  "LengthFieldBasedFrameCodec_Encode (ec2\<lparr>ec_LengthFieldLength := 4\<rparr>) m =
   LengthFieldBasedFrameCodec_Encode (ec2\<lparr>ec_LengthFieldLength := 4, ec_LengthAdjustment := 2 ^ 32\<rparr>) m"
  if "length m < 2 ^ 62"
proof -
  let ?ec = "ec2\<lparr>ec_LengthFieldLength := 4, ec_LengthAdjustment := 2 ^ 32\<rparr>"
  have code: "LengthFieldBasedFrameCodec_Encode ec m = do {
      out \<leftarrow> order_PutUint (Some BigEndian) 4 (word_of_int (enc_len ec m) :: 32 word); Ret (Inr (out @ m)) }"
    if "0 \<le> enc_len ec m" "ec_LengthFieldLength ec = 4" "ec_ByteOrder ec = Some BigEndian" for ec
    using that by (simp add: Encode_enc_len)
  have m: "int (length m) < 2 ^ 62" using that by (metis of_nat_less_iff of_nat_numeral of_nat_power)
  have l: "enc_len (ec2\<lparr>ec_LengthFieldLength := 4\<rparr>) m = int (length m)"
    "enc_len ?ec m = int (length m) + 2 ^ 32"
    using m by (simp_all add: enc_len_def ec2_def go_int_id)
  have "(word_of_int (int (length m) + 2 ^ 32) :: 32 word) = word_of_int (int (length m))"
    by (simp add: word_of_int_eq_iff take_bit_eq_mod)
  then have "(word_of_int (enc_len ?ec m) :: 32 word) = word_of_int (enc_len (ec2\<lparr>ec_LengthFieldLength := 4\<rparr>) m)"
    unfolding l .
  moreover have "0 \<le> enc_len ?ec m" "0 \<le> enc_len (ec2\<lparr>ec_LengthFieldLength := 4\<rparr>) m"
    unfolding l by simp_all
  ultimately show ?thesis by (subst (1 2) code) (simp_all add: ec2_def)
qed

theorem encode_truncates_witness:
  "LengthFieldBasedFrameCodec_Encode (ec2\<lparr>ec_LengthFieldLength := 4\<rparr>) [7] =
   LengthFieldBasedFrameCodec_Encode (ec2\<lparr>ec_LengthFieldLength := 4, ec_LengthAdjustment := 2 ^ 32\<rparr>) [7]"
  by (rule encode_truncates) simp

text \<open>The three byte length is read back as it was written, modulo \<open>2 ^ 24\<close>.\<close>

theorem uint24_read_write: "readUint24 bo (writeUint24 bo v) = word_of_int (v mod 2 ^ 24)"
  by (rule uint24_roundtrip)

text \<open>C38: an encoded empty message blocks the connection: with matching configurations, on a
  connection whose unread input starts with it, \<open>Decode\<close> fails and leaves the input as it was,
  whatever follows it and however much more is received.\<close>

theorem empty_message_blocks:
  assumes "bufs_ok R cont" and "lf_match ec dc" and "lf_fits ec []"
  shows "\<exists>b. LengthFieldBasedFrameCodec_Encode ec [] = Ret (Inr b) \<and>
    (\<forall>c rest. stream_of cont c = b @ rest \<longrightarrow>
       (\<exists>d. LengthFieldBasedFrameCodec_Decode dc (connect_Conn R) c = Ret (Inl errUnexpectedEOF, d) \<and>
          stream_of cont d = b @ rest))"
proof -
  obtain b where b: "LengthFieldBasedFrameCodec_Encode ec [] = Ret (Inr b)"
    "\<And>rest. lf_next dc (b @ rest) = Ret (Inl errUnexpectedEOF, 0)"
    using lf_empty_stuck [OF assms(2,3)] by blast
  have "\<exists>d. LengthFieldBasedFrameCodec_Decode dc (connect_Conn R) c = Ret (Inl errUnexpectedEOF, d) \<and>
      stream_of cont d = b @ rest" if s: "stream_of cont c = b @ rest" for c rest
  proof -
    have "next_frame (LengthFieldBasedFrameCodec ec dc) (stream_of cont c) = Ret (Inl errUnexpectedEOF, 0)"
      using b(2) s by simp
    from connect_Decode [OF assms(1) this] s show ?thesis by auto
  qed
  with b(1) show ?thesis by blast
qed

theorem empty_message_blocks_witness:
  "\<exists>b d. LengthFieldBasedFrameCodec_Encode ec2 [] = Ret (Inr b) \<and>
    LengthFieldBasedFrameCodec_Decode dc2 (connect_Conn list_bufs)
      ((a_conn LineBasedFrameCodec)\<lparr>inBuffer := b, temporaryBuf := [0, 1, 7]\<rparr>) = Ret (Inl errUnexpectedEOF, d) \<and>
    inBuffer d @ temporaryBuf d = b @ [0, 1, 7]"
  using empty_message_blocks [OF list_bufs_ok ec2_dc2(1,3)] by (fastforce simp: stream_of_def)

text \<open>The fixed length decoder hands over fewer bytes than its frame length.\<close>

theorem fixed_length_short_frame:
  assumes "s \<noteq> []" and "int (length s) < n"
  shows "frames (frame_of (FixedLengthFrameCodec n)) s = ([s], [])"
  using assms by (rule fixed_short)

theorem fixed_length_short_frame_witness:
  "frames (frame_of (FixedLengthFrameCodec 4)) [1, 2] = ([[1, 2]], [])"
  by (rule fixed_length_short_frame) simp_all

end
