(* ===== verification/ConnLife.thy ===== *)
theory ConnLife
  imports ConnSystem
begin

unbundle bit_operations_syntax

text \<open>
  The end of a connection and its idle timer: a disconnected connection stays disconnected, does
  nothing more for the application and ignores the public methods; the timer closes an idle
  connection, counting its activity from the start of the second it was in.
\<close>

section \<open>Disconnected connections\<close>

lemma closed_api:
  assumes "state c = Disconnected"
  shows "run_api S as c w = (c, w)"
proof (induction as)
  case (Cons a as)
  with assms show ?case
    by (cases a) (simp_all add: Connect_Close_def WriteInSelfLoop_def ShutdownWrite_def)
qed simp

lemma closed_close: "state c = Disconnected \<Longrightarrow> closeEvent S A c w = (c, w)"
  by (simp add: closeEvent_def)

lemma closed_write:
  assumes "state c = Disconnected" "conn_write R S A b c w = (d, v)"
  shows "state d = Disconnected" "received fd (trace v) = received fd (trace w)"
    "delivered i (trace v) = delivered i (trace w)"
proof -
  obtain r w1 where r: "sys_write S (conn_fd c) b (emit (EffSubmit (self c) b) w) = (r, w1)"
    by fastforce
  have q: "quiet w w1" using quiet_sys(1) [OF r] by (rule quiet_emit_left [rotated]) simp
  have en: "quiet w v' \<and> state d' = Disconnected"
    if "enable_writing S True (c\<lparr>outBuffer := x\<rparr>) w1 = (d', v')" for x d' v'
    using that assms(1) quiet_trans [OF q]
    by (auto dest!: enable_event(1) Event_update_quiet)
  have "quiet w v \<and> state d = Disconnected"
    using assms r q en quiet_emit [OF quiet_refl, of "EffSubmit (self c) b" w]
    by (auto simp: conn_write_def closed_close Let_def split: if_splits sum.splits)
  then show "state d = Disconnected" "received fd (trace v) = received fd (trace w)"
    "delivered i (trace v) = delivered i (trace w)"
    by (simp_all add: quiet_views)
qed

lemma closed_step:
  assumes snd: "sound cont c w" and st: "state c = Disconnected"
    and s: "conn_step R S A (c, w) (d, v)"
  shows "state d = Disconnected \<and> self d = self c \<and> conn_fd d = conn_fd c \<and>
    received (conn_fd c) (trace v) = received (conn_fd c) (trace w) \<and>
    delivered (self c) (trace v) = delivered (self c) (trace w)"
  using s
proof (rule conn_stepE)
  assume "eventPool w (conn_fd c) = Some (ConnEvent (self c))"
  with snd st show ?thesis by (simp add: sound_def linked_def)
next
  fix t
  assume t: "run_task R S A t c w = (d, v)"
  show ?thesis
  proof (cases t)
    case (TaskWrite i b)
    with t have cw: "conn_write R S A b c w = (d, v)" by simp
    have "self d = self c \<and> conn_fd d = conn_fd c"
      using cw st by (auto simp: conn_write_def closed_close Let_def split: if_splits sum.splits prod.splits
          dest!: enable_event(1))
    with closed_write [OF st cw] show ?thesis by simp
  qed (use t st in \<open>auto simp: closed_close\<close>)
next
  fix a
  assume "run_api S [a] c w = (d, v)"
  then have "(d, v) = (c, w)" by (simp only: closed_api [OF st])
  then show ?thesis using st by simp
next
  assume "d = c" "v = closeTimeoutConn S c w"
  with st show ?thesis by (simp add: closeTimeoutConn_def Connect_Close_def Let_def)
next
  assume "d = c" "around (conn_fd c) (self c) w v"
  with st show ?thesis by (simp add: around_views)
qed

lemma closed_steps:
  assumes laws: "bufs_ok R cont" "sys_ok S" "app_ok A"
    and "(conn_step R S A)\<^sup>*\<^sup>* s s'" and "sound cont (fst s) (snd s)" and "state (fst s) = Disconnected"
  shows "state (fst s') = Disconnected \<and>
    received (conn_fd (fst s)) (trace (snd s')) = received (conn_fd (fst s)) (trace (snd s)) \<and>
    delivered (self (fst s)) (trace (snd s')) = delivered (self (fst s)) (trace (snd s))"
proof -
  have "sound cont (fst s') (snd s') \<and> state (fst s') = Disconnected \<and>
    self (fst s') = self (fst s) \<and> conn_fd (fst s') = conn_fd (fst s) \<and>
    received (conn_fd (fst s)) (trace (snd s')) = received (conn_fd (fst s)) (trace (snd s)) \<and>
    delivered (self (fst s)) (trace (snd s')) = delivered (self (fst s)) (trace (snd s))"
    using assms(4)
  proof induction
    case base
    then show ?case using assms(5,6) by simp
  next
    case (step u u')
    obtain c w d v where u: "u = (c, w)" "u' = (d, v)" by (cases u; cases u')
    with step have st: "sound cont c w" "state c = Disconnected" "conn_step R S A (c, w) (d, v)" by simp_all
    from closed_step [OF st] conn_step_sound [OF laws st(3) st(1)] step.IH u show ?case by auto
  qed
  then show ?thesis by blast
qed

section \<open>What happens after a close inside a handler\<close>

lemma closeEvent_trace:
  assumes A: "app_ok A" and st: "state c \<noteq> Disconnected"
  obtains d v es where "closeEvent S A c w = (d, v)" "trace v = trace w @ es" "EffClose (conn_fd c) \<in> set es"
    "EffPutBuffers (self c) \<in> set es" "state d = Disconnected" "same_input c d" "outBuffer d = outBuffer c"
proof -
  obtain c1 w2 c3 w3 w4 where s: "closing S A c w c1 w2 c3 w3 w4"
    "closeEvent S A c w = (c3, emit (EffPutBuffers (self c3)) w4)" using closeEvent_steps [OF st] .
  note c = s(1) [unfolded closing_def]
  have c1: "same_input c c1" "outBuffer c1 = outBuffer c" "state c1 = Disconnected" using c by (auto simp: same_input_def)
  have "quiet w w2" using c by (auto dest!: Event_update_quiet UnRegister_quiet intro: quiet_trans)
  moreover have "c3 = c1 \<and> quiet w2 w3"
    using c callback_calm(1) [OF A, of "EffConnectClose (self c)"] c1(3)
    by (auto simp: closed_api calm_def split: if_splits prod.splits) (metis quiet_emit_left quiet_app(2) [OF A] quiet_eff.simps)
  ultimately obtain es where "c3 = c1" "trace w3 = trace w @ es" using quiet_trans by (fastforce simp: quiet_def)
  moreover have "trace w4 = trace w3 @ [EffClose (conn_fd c3)]" using c by (auto dest: sys_close_trace)
  ultimately show thesis using that [OF s(2)] c1 by (simp add: same_input_def)
qed

lemma deliver_answer:
  "messageCallback c \<Longrightarrow> on_message A c f (emit (EffMessage (self c) f) w) = ((Some a, []), emit (EffMessage (self c) f) w) \<Longrightarrow>
   ICodec_Encode (codeImp c) a = Ret (Inr out) \<Longrightarrow> out \<noteq> [] \<Longrightarrow>
   deliver R S A f c w = Ret (conn_write R S A out c (emit (EffMessage (self c) f) w))"
  by (simp add: deliver_def)

lemma first_frame:
  "frames (frame_of cd) s = (f # fs, r) \<Longrightarrow> \<exists>k. frame_of cd s = Some (f, k) \<and> frames (frame_of cd) (drop k s) = (fs, r)"
  by (cases "frame_of cd s") (auto simp: codec.frames_None codec.frames_Some split: prod.splits)

text \<open>The two ways of a write on an empty out buffer: the kernel refuses it, or it is tried.\<close>

lemma refused_write:
  assumes "bufs_ok R cont" and "k_write S (conn_fd c) b (kern w) = (Inl err, k)" and "err \<noteq> EAGAIN" and "cont (outBuffer c) = []"
  shows "\<exists>w'. conn_write R S A b c w = closeEvent S A c w' \<and>
    trace w' = trace w @ [EffSubmit (self c) b, EffWrite (conn_fd c) b (Inl err)]"
  using assms
  by (intro exI [of _ "emit (EffWrite (conn_fd c) b (Inl err)) (emit (EffSubmit (self c) b) w\<lparr>kern := k\<rparr>)"])
    (simp add: conn_write_def buf_laws sys_write_def Let_def)

lemma attempted_write:
  assumes "bufs_ok R cont" and A: "app_ok A" and "cont (outBuffer c) = []" and s: "conn_write R S A b c w = (d, v)"
  shows "\<exists>r es. trace v = trace w @ [EffSubmit (self c) b, EffWrite (conn_fd c) b r] @ es"
proof -
  obtain r w1 where r: "sys_write S (conn_fd c) b (emit (EffSubmit (self c) b) w) = (r, w1)" by fastforce
  have en: "quiet w1 v'" if "enable_writing S True c' w1 = (d', v')" for c' d' v'
    using enable_calm(1) [of c' w1 S True] that by (simp add: calm_def)
  have "quiet w1 v"
    using assms(1,3) s r en closeEvent_calm [OF A, of c w1 S]
    by (auto simp: conn_write_def buf_laws calm_def Let_def split: if_splits sum.splits)
  with sys_write_trace [OF r] show ?thesis by (auto simp: quiet_def)
qed

lemma closed_deliver:
  assumes A: "app_ok A" and st: "state c = Disconnected" and s: "deliver R S A f c w = Ret (d, v)"
  shows "state d = Disconnected \<and> (\<exists>es. trace v = trace w @ es)"
proof -
  obtain out acts w1 where 1: "on_message A c f (emit (EffMessage (self c) f) w) = ((out, acts), w1)"
    by (metis surj_pair)
  have w1: "trace w1 = trace w @ [EffMessage (self c) f]" using app_okD(1) [OF A 1] by simp
  have "(d, v) = (c, w1) \<or> (\<exists>o'. conn_write R S A o' c w1 = (d, v))"
  proof (cases out)
    case None
    with s 1 show ?thesis by (simp add: deliver_def closed_api [OF st] split: if_splits)
  next
    case (Some b)
    with s 1 obtain r where "ICodec_Encode (codeImp c) b = Ret r"
      by (auto simp: deliver_def closed_api [OF st] bind_eq_Some_conv split: if_splits)
    with Some s 1 show ?thesis by (cases r) (auto simp: deliver_def closed_api [OF st] split: if_splits)
  qed
  then show ?thesis
  proof
    assume "\<exists>o'. conn_write R S A o' c w1 = (d, v)"
    then obtain o' where o': "conn_write R S A o' c w1 = (d, v)" by blast
    then have "quiet w1 v" using conn_write_calm [OF A, of c w1 R S o'] by (simp add: calm_def)
    with closed_write(1) [OF st o'] w1 show ?thesis by (auto simp: quiet_def)
  qed (use w1 st in simp)
qed

lemma closed_read_loop:
  assumes R: "bufs_ok R cont" and A: "app_ok A" and st: "state c = Disconnected"
    and s: "read_loop R S A c w = Ret (d, v)"
  shows "state d = Disconnected \<and> (\<exists>es. trace v = trace w @ es)"
proof -
  let ?Q = "\<lambda>d v. state d = Disconnected \<and> (\<exists>es. trace v = trace w @ es)"
  have "?Q (fst (d, v)) (snd (d, v))"
  proof (rule read_loop_keeps [where Q = ?Q, OF _ _ s])
    show "?Q c v" if "?Q b v" "ICodec_Decode (codeImp b) (connect_Conn R) b = Ret (r, c)" for b c v r
      using that decode_shell [OF R that(2)] by (simp add: same_shell_def)
    show "?Q c v" if "?Q b u" "deliver R S A f b u = Ret (c, v)" for b c u v f
      using that closed_deliver [OF A _ that(2)] by auto
  qed (use st in simp)
  then show ?thesis by simp
qed

section \<open>The idle timer\<close>

lemma active_seconds:
  assumes "0 \<le> t" "t < 2 ^ 63 * 10 ^ 9" "idleTime c > 0" "k_now S (kern w) = t"
  shows "sint (activeTime (updateActivityTime S c w)) = t div 10 ^ 9"
proof -
  have "0 \<le> t div 10 ^ 9" "t div 10 ^ 9 < 2 ^ 63"
    using assms(1,2) by (simp_all add: div_less_iff_less_mult pos_imp_zdiv_nonneg_iff)
  then have "uint (word_of_int (t div 10 ^ 9) :: 64 word) = t div 10 ^ 9"
    by (simp add: uint_word_of_int_eq take_bit_int_eq_self)
  with \<open>t div 10 ^ 9 < 2 ^ 63\<close> have "sint (word_of_int (t div 10 ^ 9) :: 64 word) = t div 10 ^ 9"
    by (subst sint64_uint) simp_all
  then show ?thesis using assms(3,4) by (simp add: updateActivityTime_def Int64_Swap_def)
qed

text \<open>
  A timer that fires at \<open>now\<close> on a connection last active at \<open>t\<close> counts from the start of the second
  \<open>t\<close> is in.
\<close>

lemma idle_timer:
  fixes S c w
  defines "d \<equiv> updateActivityTime S c w"
  assumes t: "0 \<le> t" "t < 2 ^ 63 * 10 ^ 9" "k_now S (kern w) = t" and idle: "idleTime c > 0"
    and now: "k_now S (kern v) = now"
  shows "closeTimeoutConn S d v =
    (if idleTime c \<le> now - t + t mod 10 ^ 9 then snd (Connect_Close S d v)
     else emit (EffAfterFunc (self c) (idleTime c - (now - t + t mod 10 ^ 9))) v)"
proof -
  have a: "sint (activeTime d) = t div 10 ^ 9"
    unfolding d_def using active_seconds t idle by blast
  have shell: "idleTime d = idleTime c" "self d = self c"
    by (simp_all add: d_def updateActivityTime_def)
  have "t div 10 ^ 9 * 10 ^ 9 = t - t mod 10 ^ 9" by (simp add: minus_mod_eq_div_mult)
  then have "now - t div 10 ^ 9 * 10 ^ 9 = now - t + t mod 10 ^ 9" by simp
  then show ?thesis unfolding closeTimeoutConn_def Int64_Get_def a now shell Let_def by (simp only:)
qed

section \<open>Draining the out buffer\<close>

text \<open>From its state \<open>k\<close> on, the kernel takes the next two writes to the descriptor whole.\<close>

definition takes_all :: "'k sys \<Rightarrow> int \<Rightarrow> 'k \<Rightarrow> bool" where
  "takes_all S fd k \<longleftrightarrow> (\<forall>d. \<exists>k1. k_write S fd d k = (Inr (length d), k1) \<and>
     (\<forall>d'. \<exists>k2. k_write S fd d' k1 = (Inr (length d'), k2)))"

lemma takes_allD:
  assumes "takes_all S fd (kern w)" and 1: "sys_write S fd d w = (r, v)"
  shows "r = Inr (length d)" "sys_write S fd d' v = (r', u) \<Longrightarrow> r' = Inr (length d')"
proof -
  from assms(1) obtain k1 where k1: "k_write S fd d (kern w) = (Inr (length d), k1)"
    and k2: "\<forall>d'. \<exists>k2. k_write S fd d' k1 = (Inr (length d'), k2)"
    unfolding takes_all_def by blast
  with 1 show "r = Inr (length d)" by (simp add: sys_write_def)
  from 1 k1 have "kern v = k1" by (auto simp: sys_write_def)
  moreover obtain k where "k_write S fd d' k1 = (Inr (length d'), k)" using k2 by blast
  ultimately show "sys_write S fd d' v = (r', u) \<Longrightarrow> r' = Inr (length d')"
    by (simp add: sys_write_def)
qed

lemma run_api_same_out: "run_api S as c w = (d, v) \<Longrightarrow> same_out c d"
proof (induction as arbitrary: c w)
  case (Cons a as)
  show ?case
  proof (cases a)
    case ApiShutdownWrite
    obtain e c1 w1 where 1: "ShutdownWrite S c w = (e, c1, w1)" by (metis prod_cases3)
    then have "same_out c c1"
      by (auto simp: ShutdownWrite_def same_out_def split: if_splits prod.splits)
    with 1 ApiShutdownWrite Cons show ?thesis by (auto intro: same_out_trans)
  qed (use Cons in auto)
qed simp

lemma write_drained_empty:
  assumes R: "bufs_ok R cont" and e: "cont (outBuffer c) = []"
    and s: "write_drained R S A c w = (d, v)"
  shows "outBuffer d = outBuffer c \<and> (state d = Disconnected \<longleftrightarrow> state c = Disconnected) \<and>
    \<not> IsWriting (event d)"
proof -
  obtain c1 w1 where 1: "(if IsWriting (event c) then enable_writing S False c w else (c, w)) = (c1, w1)"
    by fastforce
  obtain c2 w2 where 2:
    "(if \<not> IsReading (event c1) then enable_reading S True c1 w1 else (c1, w1)) = (c2, w2)"
    by fastforce
  have c2: "outBuffer c2 = outBuffer c \<and> state c2 = state c \<and> \<not> IsWriting (event c2)"
    using 1 2 by (auto split: if_splits dest!: enable_event)
  show ?thesis
  proof (cases "writeCompleteCallback c2")
    case False
    with c2 s R e 1 2 show ?thesis by (auto simp: write_drained_def buf_laws)
  next
    case True
    obtain acts w3 where 3: "on_write_complete A c2 (emit (EffWriteComplete (self c2)) w2) = (acts, w3)"
      by fastforce
    then have "run_api S acts c2 w3 = (d, v)"
      using s True R e 1 2 by (simp add: write_drained_def buf_laws)
    from run_api_same_out [OF this] c2 show ?thesis by (simp add: same_out_def)
  qed
qed

lemma writeEvent_drains:
  assumes R: "bufs_ok R cont" and S: "sys_ok S" and A: "app_ok A" and all: "takes_all S (conn_fd c) (kern w)"
    and snd: "sound cont c w" and st: "state c \<noteq> Disconnected"
    and s: "writeEvent R S A c w = (d, v)"
  shows "state d \<noteq> Disconnected \<and> cont (outBuffer d) = [] \<and> \<not> IsWriting (event d) \<and> IsReading (event d)"
proof -
  define c0 where "c0 = updateActivityTime S c w"
  have c0: "conn_fd c0 = conn_fd c" "outBuffer c0 = outBuffer c" "state c0 = state c"
    by (simp_all add: c0_def updateActivityTime_def)
  obtain f e where fe: "rb_PeekAll R (outBuffer c0) = (f, e)" by fastforce
  have out: "cont (outBuffer c0) = f @ e" using bufs_PeekAll [OF R fe] .
  obtain r1 w1 where 1: "sys_write S (conn_fd c0) f w = (r1, w1)" by fastforce
  have r1: "r1 = Inr (length f)" using takes_allD(1) [OF all] 1 c0 by simp
  define c1 where "c1 = c0\<lparr>outBuffer := rb_Retrieve R (outBuffer c0) (int (length f))\<rparr>"
  have out1: "cont (outBuffer c1) = e"
    using bufs_Retrieve [OF R, of "length f" "outBuffer c0"] out by (simp add: c1_def)
  have code: "(d, v) = (if length e > 0 then
      (case sys_write S (conn_fd c1) e w1 of
         (Inl err, w) \<Rightarrow> if err = EAGAIN then (c1, w) else closeEvent S A c1 w
       | (Inr n, w) \<Rightarrow>
           write_drained R S A (c1\<lparr>outBuffer := rb_Retrieve R (outBuffer c1) (int n)\<rparr>) w)
      else write_drained R S A c1 w1)"
    using s unfolding writeEvent_def Let_def c0_def [symmetric] fe prod.case 1 r1 sum.case
      c1_def [symmetric] by simp
  have "\<exists>u c2. write_drained R S A c2 u = (d, v) \<and> cont (outBuffer c2) = [] \<and> state c2 = state c"
  proof (cases "e = []")
    case True
    have "write_drained R S A c1 w1 = (d, v)" using code True by simp
    moreover have "cont (outBuffer c1) = []" "state c1 = state c"
      using out1 True c0 by (simp_all add: c1_def)
    ultimately show ?thesis by blast
  next
    case False
    obtain r2 w2 where 2: "sys_write S (conn_fd c1) e w1 = (r2, w2)" by fastforce
    have r2: "r2 = Inr (length e)" using takes_allD(2) [OF all] 1 2 c0 by (simp add: c1_def)
    define c2 where "c2 = c1\<lparr>outBuffer := rb_Retrieve R (outBuffer c1) (int (length e))\<rparr>"
    have "write_drained R S A c2 w2 = (d, v)"
      using code False r2 2 by (simp add: c2_def)
    moreover have "cont (outBuffer c2) = []"
      using bufs_Retrieve [OF R, of "length e" "outBuffer c1"] out1 by (simp add: c2_def)
    moreover have "state c2 = state c" using c0 by (simp add: c1_def c2_def)
    ultimately show ?thesis by blast
  qed
  with write_drained_empty [OF R] st have d: "cont (outBuffer d) = [] \<and> state d \<noteq> Disconnected \<and> \<not> IsWriting (event d)"
    by (metis (no_types, lifting))
  have "sound cont d v" using writeEvent_sound [OF R S A snd s] .
  with d show ?thesis by (simp add: sound_def pulls_def)
qed

end
