(* ===== verification/ConnClaims.thy ===== *)
theory ConnClaims
  imports Demo ConnLife
begin

unbundle bit_operations_syntax

text \<open>
  Properties of one connection beyond those of the root theory: handling a read event ends and
  delivers what it should, a closed connection stays inert, the timer keeps the idle time,
  write events drain the out buffer, and epoll's masks select the handler.
\<close>

section \<open>Reading\<close>

text \<open>Handling a read event ends normally: with a usable codec configuration the frame loop
  terminates and nothing panics, whatever bytes the peer sent and whatever the kernel answers.\<close>

theorem readEvent_returns:
  assumes "bufs_ok R cont" and "app_ok A" and "codec_wf (codeImp c)" and "messageCallback c"
  shows "\<exists>d v. readEvent R S A c w = Ret (d, v)"
  by (rule readEvent_frames [OF assms(1,2) codec_wf_safe [OF assms(3)] assms(4)]) blast+

theorem readEvent_returns_witness:
  "\<exists>d v. readEvent list_bufs script_sys echo_app (a_conn LineBasedFrameCodec)
     (a_loop [Inr [10, 10]] [Inl EAGAIN]) = Ret (d, v)"
  using readEvent_returns [OF list_bufs_ok echo_app_ok, of "a_conn LineBasedFrameCodec"]
  by (simp add: a_conn_def)

text \<open>A read event on a connection with nothing left to send hands over exactly the frames of
  the buffered bytes and those just read, in order, and keeps the undecoded rest; the frames are
  those of the abstract cut, whatever the codec.\<close>

theorem readEvent_delivers:
  assumes "bufs_ok R cont" and "app_ok A" and "codec_wf (codeImp c)" and "messageCallback c"
    and "cont (outBuffer c) = []" and "sys_read S (conn_fd c) 65535 w = (Inr bs, w1)" and "bs \<noteq> []"
    and "readEvent R S A c w = Ret (d, v)"
  shows "frames (frame_of (codeImp c)) (cont (inBuffer c) @ bs) = (fs, rest) \<Longrightarrow>
    delivered (self c) (trace v) = delivered (self c) (trace w) @ fs \<and> cont (inBuffer d) = rest"
  using readEvent_data [OF assms(1,2) codec_wf_safe [OF assms(3)] assms(4-7)] assms(8)
    sys_read_trace [OF assms(6)]
  by (auto simp: hands_def)

theorem readEvent_delivers_witness:
  "\<exists>d v. readEvent list_bufs script_sys echo_app ((a_conn LineBasedFrameCodec)\<lparr>inBuffer := [1]\<rparr>)
     (a_loop [Inr [2, 10, 3]] []) = Ret (d, v) \<and> delivered 0 (trace v) = [[1, 2]] \<and> inBuffer d = [3]"
proof -
  let ?c = "(a_conn LineBasedFrameCodec)\<lparr>inBuffer := [1]\<rparr>"
  let ?w = "a_loop [Inr [2, 10, 3]] []"
  have c: "codec_wf (codeImp ?c)" "messageCallback ?c" "outBuffer ?c = []" "self ?c = 0"
    "codeImp ?c = LineBasedFrameCodec" "inBuffer ?c = [1]" "trace ?w = []"
    by (simp_all add: a_conn_def a_loop_def)
  obtain d v where dv: "readEvent list_bufs script_sys echo_app ?c ?w = Ret (d, v)"
    by (rule readEvent_frames [OF list_bufs_ok echo_app_ok codec_wf_safe [OF c(1)] c(2)]) blast+
  obtain w1 where r: "sys_read script_sys (conn_fd ?c) 65535 ?w = (Inr [2, 10, 3], w1)"
    by (simp add: sys_read_def script_sys_def a_loop_def)
  have "frame_of LineBasedFrameCodec [1, 2, 10, 3] = Some ([1, 2], 3)"
    "frame_of LineBasedFrameCodec [3] = None"
    by (simp_all add: frame_of_def delim_next_def CRLFByte_def Let_def)
  then have "frames (frame_of (codeImp ?c)) (inBuffer ?c @ [2, 10, 3]) = ([[1, 2]], [3])"
    by (simp add: codec.frames_eqs a_conn_def)
  from readEvent_delivers [OF list_bufs_ok echo_app_ok c(1-3) r _ dv this] dv c show ?thesis by auto
qed

text \<open>A codec without a delimiter or length (the built-in and the fixed length one) hands over
  every byte as soon as it is read: in every reachable state the delivered frames together are
  the bytes received and nothing is held back.\<close>

theorem reachable_bytes:
  assumes "bufs_ok R cont" and "app_ok A" and "\<not> incremental cd" and "codec_wf cd"
    and "conn_reachable R S A cd (c, w)"
  shows "concat (delivered (self c) (trace w)) = received (conn_fd c) (trace w) \<and> cont (inBuffer c) = []"
  using assms by (rule conn_reachable_bytes)

theorem reachable_bytes_witness:
  "\<exists>(c :: (bytes, bytes) conn) (w :: script loop).
     conn_reachable list_bufs script_sys echo_app (FixedLengthFrameCodec 4) (c, w) \<and>
     concat (delivered 0 (trace w)) = [1, 2, 3, 4, 5] \<and> inBuffer c = []"
proof -
  obtain c w where cw: "conn_reachable list_bufs script_sys echo_app (FixedLengthFrameCodec 4)
      (c, w :: script loop)" "conn_fd c = 7" "self c = 0" "received 7 (trace w) = [1, 2, 3, 4, 5]"
    using demo_reads [OF codec_wf_safe, of "FixedLengthFrameCodec 4" "[1, 2, 3, 4, 5]"] by auto
  from reachable_bytes [OF list_bufs_ok echo_app_ok _ _ cw(1)] cw show ?thesis by auto
qed

section \<open>Closing\<close>

text \<open>C22: closing is final: once an operation (a handler, a queued function) has ended with the
  connection disconnected, it stays so, and no later operation reads a byte from its descriptor for
  it or hands a frame over. The read event in which the close happens is another matter: it may go
  on with the frames of its segment (\<open>message_after_close\<close>).\<close>

theorem closed_forever:
  assumes "bufs_ok R cont" and "sys_ok S" and "app_ok A" and "conn_reachable R S A cd (c, w)"
    and "state c = Disconnected" and "(conn_step R S A)\<^sup>*\<^sup>* (c, w) (d, v)"
  shows "state d = Disconnected \<and> received (conn_fd c) (trace v) = received (conn_fd c) (trace w) \<and>
    delivered (self c) (trace v) = delivered (self c) (trace w)"
  using closed_steps [OF assms(1-3,6)] conn_reachable_sound [OF assms(1-4)] assms(5) by simp

text \<open>The error event on the state of \<open>demo_part\<close>.\<close>

definition demo_closed :: "ICodec \<Rightarrow> (bytes, bytes) conn \<times> script loop" where
  "demo_closed cd = (case demo_part cd of (c, w) \<Rightarrow> closeEvent script_sys echo_app c w)"

lemma demo_closed_reachable: "conn_reachable list_bufs script_sys echo_app cd (demo_closed cd)"
proof -
  obtain c w d v where cw: "demo_part cd = (c, w)" and dv: "closeEvent script_sys echo_app c w = (d, v)"
    by (metis surj_pair)
  then have "conn_step list_bufs script_sys echo_app (c, w) (d, v)"
    by (intro conn_step.queued [where t = "TaskCloseEvent 0"]) simp
  with demo_part_reachable [of cd] cw have "conn_reachable list_bufs script_sys echo_app cd (d, v)"
    by (metis conn_reachable.step)
  with cw dv show ?thesis by (simp add: demo_closed_def)
qed

lemma demo_closed_state: "state (fst (demo_closed cd)) = Disconnected"
  by (simp add: demo_closed_def demo_part_eq a_conn_def closeEvent_def echo_app_def Let_def
      split: prod.splits)

theorem closed_forever_witness:
  "state (fst (closeEvent script_sys echo_app (fst (demo_closed LineBasedFrameCodec))
     (snd (demo_closed LineBasedFrameCodec)))) = Disconnected"
proof -
  obtain c w d v where cw: "demo_closed LineBasedFrameCodec = (c, w)"
    and dv: "closeEvent script_sys echo_app c w = (d, v)" by (metis surj_pair)
  have "conn_step list_bufs script_sys echo_app (c, w) (d, v)"
    using dv by (intro conn_step.queued [where t = "TaskCloseEvent 0"]) simp
  from closed_forever [OF list_bufs_ok script_sys_ok echo_app_ok _ _ r_into_rtranclp, OF _ _ this]
    demo_closed_reachable [of LineBasedFrameCodec] demo_closed_state [of LineBasedFrameCodec] cw dv
  show ?thesis by simp
qed

text \<open>C33: a write that was queued while the connection was open is carried out after it has been
  closed: its bytes go to a descriptor that \<open>close\<close> has already been called on, and that the kernel
  may have given to another connection since.\<close>

theorem late_write_to_closed:
  assumes "bufs_ok R cont" and "sys_ok S" and "app_ok A" and "conn_reachable R S A cd (c, w)"
    and "state c = Disconnected" and "cont (outBuffer c) = []"
  shows "closes (conn_fd c) (trace w) = 1 \<and>
    (\<exists>r es. trace (snd (run_task R S A (TaskWrite i b) c w)) =
       trace w @ [EffSubmit (self c) b, EffWrite (conn_fd c) b r] @ es)"
proof
  show "closes (conn_fd c) (trace w) = 1"
    using conn_reachable_sound [OF assms(1-4)] assms(5) by (simp add: sound_def linked_def)
  obtain r w1 where r: "sys_write S (conn_fd c) b (emit (EffSubmit (self c) b) w) = (r, w1)" by fastforce
  obtain d v where dv: "conn_write R S A b c w = (d, v)" by fastforce
  have w1: "trace w1 = trace w @ [EffSubmit (self c) b, EffWrite (conn_fd c) b r]"
    using sys_write_trace [OF r] by simp
  have en: "\<exists>es. trace v' = trace w1 @ es" if "enable_writing S True c' w1 = (d', v')" for c' d' v'
    using that by (auto simp: enable_writing_def EnableWriting_def Event_update_def EventCtrl_modifyEvent_def
        Multiplex_ModifyEvent_def epollCtrl_def sys_epoll_ctl_def split: prod.splits)
  have "\<exists>es. trace v = trace w1 @ es"
    using dv r en assms(1,5,6)
    by (auto simp: conn_write_def buf_laws closed_close Let_def split: if_splits sum.splits)
  with w1 dv show "\<exists>r es. trace (snd (run_task R S A (TaskWrite i b) c w)) =
       trace w @ [EffSubmit (self c) b, EffWrite (conn_fd c) b r] @ es" by auto
qed

theorem late_write_to_closed_witness:
  "\<exists>(c :: (bytes, bytes) conn) (w :: script loop) r es. closes 7 (trace w) = 1 \<and>
     trace (snd (run_task list_bufs script_sys echo_app (TaskWrite 0 [1]) c w)) =
       trace w @ [EffSubmit 0 [1], EffWrite 7 [1] r] @ es"
proof -
  obtain c0 w0 where cw0: "demo_start [] [] LineBasedFrameCodec = (c0, w0)" by fastforce
  obtain c w where cw: "closeEvent script_sys echo_app c0 w0 = (c, w)" by fastforce
  have "conn_step list_bufs script_sys echo_app (c0, w0) (c, w)"
    using cw by (intro conn_step.queued [where t = "TaskCloseEvent 0"]) simp
  then have re: "conn_reachable list_bufs script_sys echo_app LineBasedFrameCodec (c, w)"
    using demo_start_reachable [of LineBasedFrameCodec "[]" "[]"] cw0 by (metis conn_reachable.step)
  have c: "state c = Disconnected" "outBuffer c = []" "conn_fd c = 7" "self c = 0"
    using cw0 cw by (auto simp: demo_start_eq a_conn_def closeEvent_def echo_app_def Let_def split: prod.splits)
  from late_write_to_closed [OF list_bufs_ok script_sys_ok echo_app_ok re c(1,2), of 0 "[1]", unfolded c(3,4)]
  show ?thesis by blast
qed

text \<open>C34: a connection that is closed while a segment is being handled goes on: let the segment
  complete at least two frames, the handler answer each, and the kernel refuse the first answer.
  Then the connection is closed, its descriptor and its buffers released, and after that the second
  frame is handed to the application and its answer written to the closed descriptor.\<close>

theorem message_after_close:
  assumes "bufs_ok R cont" and "app_ok A" and "codec_wf (codeImp c)" and "messageCallback c"
    and "state c \<noteq> Disconnected" and "cont (outBuffer c) = []"
    and "sys_read S (conn_fd c) 65535 w = (Inr bs, w1)" and "bs \<noteq> []"
    and "frames (frame_of (codeImp c)) (cont (inBuffer c) @ bs) = (f # g # fs, rest)"
    and "\<And>e h u. on_message A e h u = ((Some (ans h), []), u)"
    and "ICodec_Encode (codeImp c) (ans f) = Ret (Inr out)" and "out \<noteq> []"
    and "ICodec_Encode (codeImp c) (ans g) = Ret (Inr out')" and "out' \<noteq> []"
    and "k_write S (conn_fd c) out (kern w1) = (Inl err, k0)" and "err \<noteq> EAGAIN"
  shows "\<exists>d v es r gs. readEvent R S A c w = Ret (d, v) \<and> state d = Disconnected \<and>
    trace v = trace w @ [EffRead (conn_fd c) (Inr bs), EffMessage (self c) f,
        EffSubmit (self c) out, EffWrite (conn_fd c) out (Inl err)] @ es @
      [EffMessage (self c) g, EffSubmit (self c) out', EffWrite (conn_fd c) out' r] @ gs \<and>
    EffClose (conn_fd c) \<in> set es \<and> EffPutBuffers (self c) \<in> set es"
proof -
  define c0 where "c0 = (updateActivityTime S c w)\<lparr>temporaryBuf := bs\<rparr>"
  have c0: "codeImp c0 = codeImp c" "self c0 = self c" "conn_fd c0 = conn_fd c" "messageCallback c0"
    "outBuffer c0 = outBuffer c" "state c0 \<noteq> Disconnected" "stream_of cont c0 = cont (inBuffer c) @ bs"
    using assms(4,5) by (simp_all add: c0_def updateActivityTime_def stream_of_def)
  have up: "outBuffer (updateActivityTime S c w) = outBuffer c" "conn_fd (updateActivityTime S c w) = conn_fd c"
    by (simp_all add: updateActivityTime_def)
  from first_frame [OF assms(9)] obtain k where f: "frame_of (codeImp c) (stream_of cont c0) = Some (f, k)"
    and 1: "frames (frame_of (codeImp c)) (drop k (stream_of cont c0)) = (g # fs, rest)" unfolding c0(7) by blast
  from first_frame [OF 1] obtain k' where g: "frame_of (codeImp c) (drop k (stream_of cont c0)) = Some (g, k')" by blast
  obtain c1 where c1: "ICodec_Decode (codeImp c0) (connect_Conn R) c0 = Ret (Inr (Some f), c1)"
    "stream_of cont c1 = drop k (stream_of cont c0)" "same_shell c0 c1"
    using connect_Decode [OF assms(1) f [unfolded frame_of_Some, folded c0(1)]] by blast
  note s1 = c1(3) [unfolded same_shell_def] c0
  have "k_write S (conn_fd c1) out (kern (emit (EffMessage (self c1) f) w1)) = (Inl err, k0)" "cont (outBuffer c1) = []"
    using assms(6,15) s1 by simp_all
  from refused_write [OF assms(1) this(1) assms(16) this(2)] obtain w2 where
    w2: "conn_write R S A out c1 (emit (EffMessage (self c1) f) w1) = closeEvent S A c1 w2"
    "trace w2 = trace w1 @ [EffMessage (self c) f, EffSubmit (self c) out, EffWrite (conn_fd c) out (Inl err)]"
    using s1 by auto
  have "state c1 \<noteq> Disconnected" using s1 by simp
  from closeEvent_trace [OF assms(2) this, of S w2] obtain c2 w3 es where
    c2: "closeEvent S A c1 w2 = (c2, w3)" "trace w3 = trace w2 @ es" "EffClose (conn_fd c1) \<in> set es"
      "EffPutBuffers (self c1) \<in> set es" "state c2 = Disconnected" "same_input c1 c2" "outBuffer c2 = outBuffer c1" .
  note s2 = c2(6) [unfolded same_input_def] s1
  have st2: "stream_of cont c2 = drop k (stream_of cont c0)" using s2 c1(2) by (simp add: stream_of_def)
  have "deliver R S A f c1 w1 = Ret (conn_write R S A out c1 (emit (EffMessage (self c1) f) w1))"
    using s1 assms(10-12) by (intro deliver_answer) simp_all
  then have d1: "deliver R S A f c1 w1 = Ret (c2, w3)" using w2(1) c2(1) by simp
  have "next_frame (codeImp c2) (stream_of cont c2) = Ret (Inr (Some g), k')"
    using g s2 st2 by (simp add: frame_of_Some)
  from connect_Decode [OF assms(1) this] obtain c3 where
    c3: "ICodec_Decode (codeImp c2) (connect_Conn R) c2 = Ret (Inr (Some g), c3)" "same_shell c2 c3" by blast
  note s3 = c3(2) [unfolded same_shell_def] s2
  obtain c4 w4 where c4: "conn_write R S A out' c3 (emit (EffMessage (self c3) g) w3) = (c4, w4)" by fastforce
  have d2: "deliver R S A g c3 w3 = Ret (c4, w4)"
    using s3 assms(10,13,14) c4 deliver_answer [where c = c3 and f = g and w = w3 and out = out'] by simp
  obtain r gs where w4: "trace w4 = trace w3 @ [EffMessage (self c) g, EffSubmit (self c) out', EffWrite (conn_fd c) out' r] @ gs"
    using attempted_write [OF assms(1,2) _ c4] s3 c2(7) assms(6) by auto
  have "codec_safe (codeImp c3)" "messageCallback c3" using codec_wf_safe [OF assms(3)] s3 by simp_all
  from deliver_hands [OF assms(2) this] d2 have "hands [g] c3 w3 c4 w4" by (metis option.inject prod.inject)
  then have cl4: "state c4 = Disconnected" "messageCallback c4" "codeImp c4 = codeImp c"
    using closed_deliver [OF assms(2) _ d2] s3 c2(5) by (simp_all add: hands_def)
  obtain d v where dv: "read_loop R S A c4 w4 = Ret (d, v)"
    using read_loop_frames [OF assms(1,2), where c = c4 and w = w4 and S = S] codec_wf_safe [OF assms(3)] cl4 by auto
  from closed_read_loop [OF assms(1,2) cl4(1) dv] obtain ys where v: "state d = Disconnected" "trace v = trace w4 @ ys" by blast
  have "read_loop R S A c0 w1 = Ret (d, v)"
    by (subst read_loop.simps, simp add: c1(1) d1, subst read_loop.simps, simp add: c3(1) d2 dv)
  then have "readEvent R S A c w = Ret (d\<lparr>inBuffer := rb_Write R (inBuffer d) (temporaryBuf d)\<rparr>, v)"
    using assms(1,6-8) up by (simp add: readEvent_def buf_laws Let_def flip: c0_def)
  moreover have "trace v = trace w @ [EffRead (conn_fd c) (Inr bs), EffMessage (self c) f,
        EffSubmit (self c) out, EffWrite (conn_fd c) out (Inl err)] @ es @
      [EffMessage (self c) g, EffSubmit (self c) out', EffWrite (conn_fd c) out' r] @ gs @ ys"
    using v(2) w2(2) w4 c2(2) sys_read_trace [OF assms(7)] by simp
  ultimately show ?thesis using c2(3,4) s1 v(1) by fastforce
qed

text \<open>Two lines in one segment, and an answer refused with \<open>EPIPE\<close>.\<close>

theorem message_after_close_witness:
  "\<exists>d v es r gs. readEvent list_bufs script_sys echo_app (a_conn LineBasedFrameCodec)
     (a_loop [Inr [1, 10, 2, 10]] [Inl (Errno 32)]) = Ret (d, v) \<and> state d = Disconnected \<and>
     trace v = [EffRead 7 (Inr [1, 10, 2, 10]), EffMessage 0 [1],
        EffSubmit 0 [1, 10], EffWrite 7 [1, 10] (Inl (Errno 32))] @ es @
      [EffMessage 0 [2], EffSubmit 0 [2, 10], EffWrite 7 [2, 10] r] @ gs \<and>
     EffClose 7 \<in> set es \<and> EffPutBuffers 0 \<in> set es"
proof -
  let ?c = "a_conn LineBasedFrameCodec" and ?w = "a_loop [Inr [1, 10, 2, 10]] [Inl (Errno 32)]"
  have c: "codec_wf (codeImp ?c)" "messageCallback ?c" "state ?c \<noteq> Disconnected" "outBuffer ?c = []"
    "codeImp ?c = LineBasedFrameCodec" "self ?c = 0" "conn_fd ?c = 7" "inBuffer ?c = []" "trace ?w = []"
    by (simp_all add: a_conn_def a_loop_def)
  obtain w1 where r: "sys_read script_sys (conn_fd ?c) 65535 ?w = (Inr [1, 10, 2, 10], w1)"
    "kern w1 = \<lparr>s_reads = [], s_writes = [Inl (Errno 32)], s_now = 0\<rparr>"
    by (simp add: sys_read_def script_sys_def a_loop_def emit_def)
  have "frame_of LineBasedFrameCodec [1, 10, 2, 10] = Some ([1], 2)" "frame_of LineBasedFrameCodec [2, 10] = Some ([2], 2)"
    by (simp_all add: frame_of_def delim_next_def CRLFByte_def Let_def)
  then have fs: "frames (frame_of (codeImp ?c)) (inBuffer ?c @ [1, 10, 2, 10]) = ([1] # [2] # [], [])"
    by (simp add: codec.frames_Some a_conn_def)
  have e: "ICodec_Encode (codeImp ?c) [b] = Ret (Inr [b, 10])" for b
    unfolding c(5) by (simp add: LineBasedFrameCodec_Encode_def CRLFByte_def)
  have k: "k_write script_sys (conn_fd ?c) [1, 10] (kern w1) = (Inl (Errno 32), \<lparr>s_reads = [], s_writes = [], s_now = 0\<rparr>)"
    by (simp add: r(2) script_sys_def)
  have "on_message echo_app e h u = ((Some h, []), u)" for e :: "(bytes, bytes) conn" and h and u :: "script loop"
    by (simp add: echo_app_def)
  from message_after_close [where ans = "\<lambda>h. h", OF list_bufs_ok echo_app_ok c(1-4) r(1) _ fs this e _ e _ k]
  show ?thesis unfolding c(6,7,9) by simp
qed

section \<open>Draining the out buffer\<close>

text \<open>Output makes progress: once the kernel takes what it is offered, one write event empties
  the out buffer of an open connection, all bytes handed to \<open>write\<close> have been taken by the
  kernel in order, write events are off again and read events are on.\<close>

theorem writeEvent_progress:
  assumes "bufs_ok R cont" and "sys_ok S" and "app_ok A" and "conn_reachable R S A cd (c, w)"
    and "takes_all S (conn_fd c) (kern w)" and "state c \<noteq> Disconnected"
    and "writeEvent R S A c w = (d, v)"
  shows "state d \<noteq> Disconnected \<and> cont (outBuffer d) = [] \<and>
    submitted (self d) (trace v) = sent (conn_fd d) (trace v) \<and>
    \<not> IsWriting (event d) \<and> IsReading (event d)"
proof -
  have snd: "sound cont c w" using conn_reachable_sound [OF assms(1-4)] by simp
  from writeEvent_drains [OF assms(1-3,5) snd assms(6,7)] writeEvent_sound [OF assms(1-3) snd assms(7)]
  show ?thesis by (simp add: sound_def fifo_def)
qed

theorem writeEvent_progress_witness:
  "\<exists>d v. demo_part LineBasedFrameCodec = (d, v) \<and> outBuffer d = [2, 3] \<and>
     outBuffer (fst (writeEvent list_bufs script_sys echo_app d v)) = []"
proof -
  obtain c w d v where cw: "demo_part LineBasedFrameCodec = (c, w)"
    and dv: "writeEvent list_bufs script_sys echo_app c w = (d, v)" by (metis surj_pair)
  have "takes_all script_sys (conn_fd c) (kern w)" "state c \<noteq> Disconnected" "outBuffer c = [2, 3]"
    using cw by (auto simp: demo_part_eq a_conn_def a_loop_def takes_all_def script_sys_def)
  with writeEvent_progress [OF list_bufs_ok script_sys_ok echo_app_ok _ _ _ dv]
    demo_part_reachable [of LineBasedFrameCodec] cw dv
  show ?thesis by (metis (no_types, lifting) fst_conv)
qed

section \<open>The idle timer\<close>

text \<open>C30: what the timer does when it fires at \<open>now\<close> on a connection last active at \<open>t\<close>: activity is
  kept in whole seconds, so the idle time counts from the start of the second \<open>t\<close> is in. If it is
  over the timer asks for the close; otherwise it starts again for exactly what is left of it. A
  connection is therefore never closed late, and up to a second early.\<close>

theorem idle_timeout:
  assumes "0 \<le> t" and "t < 2 ^ 63 * 10 ^ 9" and "k_now S (kern w) = t" and "idleTime c > 0"
    and "k_now S (kern v) = now" and "d = updateActivityTime S c w"
  shows "closeTimeoutConn S d v =
    (if idleTime c \<le> now - t + t mod 10 ^ 9 then snd (Connect_Close S d v)
     else emit (EffAfterFunc (self c) (idleTime c - (now - t + t mod 10 ^ 9))) v)"
  using idle_timer [OF assms(1-5)] assms(6) by simp

text \<open>Active at 2.9 s with an idle time of 5 s: at 6.9 s the timer starts again for 0.1 s, at 7.0 s
  it closes.\<close>

theorem idle_timeout_witness:
  "closeTimeoutConn script_sys
       (updateActivityTime script_sys ((a_conn LineBasedFrameCodec)\<lparr>idleTime := 5 * 10 ^ 9\<rparr>)
          ((a_loop [] [])\<lparr>kern := \<lparr>s_reads = [], s_writes = [], s_now = 2900000000\<rparr>\<rparr>))
       ((a_loop [] [])\<lparr>kern := \<lparr>s_reads = [], s_writes = [], s_now = 6900000000\<rparr>\<rparr>) =
     emit (EffAfterFunc 0 100000000)
       ((a_loop [] [])\<lparr>kern := \<lparr>s_reads = [], s_writes = [], s_now = 6900000000\<rparr>\<rparr>) \<and>
   closeTimeoutConn script_sys
       (updateActivityTime script_sys ((a_conn LineBasedFrameCodec)\<lparr>idleTime := 5 * 10 ^ 9\<rparr>)
          ((a_loop [] [])\<lparr>kern := \<lparr>s_reads = [], s_writes = [], s_now = 2900000000\<rparr>\<rparr>))
       ((a_loop [] [])\<lparr>kern := \<lparr>s_reads = [], s_writes = [], s_now = 7000000000\<rparr>\<rparr>) =
     RunInLoop script_sys (TaskCloseEvent 0)
       ((a_loop [] [])\<lparr>kern := \<lparr>s_reads = [], s_writes = [], s_now = 7000000000\<rparr>\<rparr>)"
  using idle_timeout [of 2900000000 script_sys
      "(a_loop [] [])\<lparr>kern := \<lparr>s_reads = [], s_writes = [], s_now = 2900000000\<rparr>\<rparr>"
      "(a_conn LineBasedFrameCodec)\<lparr>idleTime := 5 * 10 ^ 9\<rparr>"
      "(a_loop [] [])\<lparr>kern := \<lparr>s_reads = [], s_writes = [], s_now = 6900000000\<rparr>\<rparr>" 6900000000, OF _ _ _ _ _ refl]
    idle_timeout [of 2900000000 script_sys
      "(a_loop [] [])\<lparr>kern := \<lparr>s_reads = [], s_writes = [], s_now = 2900000000\<rparr>\<rparr>"
      "(a_conn LineBasedFrameCodec)\<lparr>idleTime := 5 * 10 ^ 9\<rparr>"
      "(a_loop [] [])\<lparr>kern := \<lparr>s_reads = [], s_writes = [], s_now = 7000000000\<rparr>\<rparr>" 7000000000, OF _ _ _ _ _ refl]
  by (auto simp: script_sys_def a_conn_def Connect_Close_def updateActivityTime_def)

section \<open>Event masks and dispatch\<close>

text \<open>An interest survives the translation to epoll and back: for every mask, what the program
  asks epoll for comes back as exactly the read, write and error bits of that mask.\<close>

theorem event_mask_roundtrip:
  "ioevent_of_epoll (GetEpollEventsFromIOEvent e) = e AND (EventRead OR EventWrite OR EventErr)"
  by (rule event_epoll_event)

text \<open>Which handler an epoll report runs: the close handler exactly on a hang-up with nothing
  left to read, else the error handler on an error, else the write handler when the socket is
  writable, else the read handler on data, priority data or a peer that shut down.\<close>

theorem dispatch_of_epoll:
  "HandleEvent e (ioevent_of_epoll ev) =
     (if ev AND POLLHUP \<noteq> 0 \<and> ev AND EPOLLIN = 0 then closeHandle e
      else if ev AND EPOLLERR \<noteq> 0 then errorHandle e
      else if ev AND EPOLLOUT \<noteq> 0 then writeHandle e
      else if ev AND (EPOLLIN OR EPOLLPRI OR EPOLLRDHUP) \<noteq> 0 then readHandle e else None)"
proof -
  have bits: "r AND EventClose = EventNone \<longleftrightarrow> \<not> bit r 8" "r AND EventErr = EventNone \<longleftrightarrow> \<not> bit r 7"
    "r AND EventWrite = EventNone \<longleftrightarrow> \<not> bit r 1" "r AND EventRead = EventNone \<longleftrightarrow> \<not> bit r 0" for r
    unfolding mask_bits and_exp_eq_0_iff_not_bit by rule+
  have "POLLIN = EPOLLIN" by (simp add: mask_defs)
  with epoll_tests have ein: "ev AND EPOLLIN = 0 \<longleftrightarrow> \<not> bit ev 0" by metis
  show ?thesis
    unfolding HandleEvent_def bits bit_event_of_epoll epoll_tests ein by auto
qed

section \<open>Addresses\<close>

text \<open>The key under which a connection is pooled identifies its peer: two IPv4 peers with the
  same printed address have the same address and port.\<close>

theorem peer_key_unique:
  assumes "length a = 4" and "length b = 4" and "0 \<le> p" and "0 \<le> q"
    and "sockAddrToString (SockaddrInet4 a p) = sockAddrToString (SockaddrInet4 b q)"
  shows "a = b \<and> p = q"
  using assms by (rule sockAddrToString_inet4_inj)

theorem peer_key_unique_witness:
  "sockAddrToString (SockaddrInet4 [10, 0, 0, 1] 80) = ''10.0.0.1:80'' \<and>
   [10, 0, 0, 1] = [10, 0, 0, 257 :: byte] \<and> (80 :: int) = 40 + 40"
proof -
  have "sockAddrToString (SockaddrInet4 [10, 0, 0, 1] 80) = ''10.0.0.1:80''"
    by (simp only: sockAddrToString.simps demo_peer)
  moreover have "[10, 0, 0, 257 :: byte] = [10, 0, 0, 1]" by simp
  then have "sockAddrToString (SockaddrInet4 [10, 0, 0, 1] 80) =
      sockAddrToString (SockaddrInet4 [10, 0, 0, 257] (40 + 40))" by (simp only: numeral_plus_numeral) simp
  from peer_key_unique [OF _ _ _ _ this]
  have "[10, 0, 0, 1] = [10, 0, 0, 257 :: byte] \<and> (80 :: int) = 40 + 40" by simp
  ultimately show ?thesis by blast
qed

end
