(* ===== verification/LoopProtocol.thy ===== *)
theory LoopProtocol
  imports ConnLemmas
begin

text \<open>
  The goroutine of a loop (\<open>Run\<close>), the goroutines that call \<open>RunInLoop\<close> and the one that calls
  \<open>Stop\<close>, as an interleaving of atomic steps on the loop's state. What \<open>RunInLoop\<close> does is one
  step, because it and the swap of the queue hold the same mutex. The steps are made of the
  operations of \<open>EventLoop\<close> and \<open>Multiplex\<close>; whether a wake-up is pending is read off the trace
  of the eventfd. \<open>posted\<close> and \<open>executed\<close> record the history.
\<close>

section \<open>States and steps\<close>

text \<open>
  Where the loop's goroutine is: before \<open>Run\<close>, in \<open>epoll_wait\<close>, in the loop over the reported
  events, running the functions it took out of the queue, before the test of \<open>running\<close>, and
  after \<open>Run\<close> returned; and where \<open>Stop\<close> is.
\<close>

datatype loop_pc = NotStarted | Waiting | Handling | Executing "task list" | Checking | Exited

datatype stop_pc = NoStop | StopRefused | StopChecked | StopSignalled | Stopped

record ('k, 'z) proto =
  lw :: "('k, 'z) loop_scheme"
  pc :: loop_pc
  spc :: stop_pc
  posted :: "task list"
  executed :: "task list"

fun wake_eff :: "int \<Rightarrow> effect \<Rightarrow> bool \<Rightarrow> bool" where
  "wake_eff fd (EffWrite fd' d (Inr n)) b = (fd' = fd \<or> b)"
| "wake_eff fd (EffRead fd' r) b = (fd' \<noteq> fd \<and> b)"
| "wake_eff fd _ b = b"

definition wake_pending :: "('k, 'z) loop_scheme \<Rightarrow> bool" where
  "wake_pending w = fold (wake_eff (mx_wakeEventFd (multi w))) (trace w) False"

fun on_wake_fd :: "int \<Rightarrow> effect \<Rightarrow> bool" where
  "on_wake_fd fd (EffWrite fd' d r) = (fd' = fd)"
| "on_wake_fd fd (EffRead fd' r) = (fd' = fd)"
| "on_wake_fd fd _ = False"

text \<open>What handlers and queued functions do besides posting: anything but using the wake-up
  descriptor, the queue and the \<open>running\<close> flag.\<close>

definition aside :: "('k, 'z) loop_scheme \<Rightarrow> ('k, 'z) loop_scheme \<Rightarrow> bool" where
  "aside w w' \<longleftrightarrow>
     (\<exists>es. trace w' = trace w @ es \<and> list_all (\<lambda>e. \<not> on_wake_fd (mx_wakeEventFd (multi w)) e) es) \<and>
     mx_fd (multi w') = mx_fd (multi w) \<and> mx_wakeEventFd (multi w') = mx_wakeEventFd (multi w) \<and>
     loopFunctions w' = loopFunctions w \<and> running w' = running w"

fun busy :: "loop_pc \<Rightarrow> bool" where
  "busy Handling = True"
| "busy (Executing fs) = True"
| "busy _ = False"

text \<open>
  \<open>execute\<close> starts the next function taken out of the queue; what a handler or a function then
  does are \<open>act\<close> and \<open>post\<close> steps.
\<close>

inductive proto_step :: "'k sys \<Rightarrow> ('k, 'z) proto \<Rightarrow> ('k, 'z) proto \<Rightarrow> bool" for S where
  run: "proto_step S s (s\<lparr>pc := Waiting, lw := (lw s)\<lparr>running := snd (Bool_Set True (running (lw s)))\<rparr>\<rparr>)"
    if "pc s = NotStarted"
| post: "proto_step S s (s\<lparr>lw := RunInLoop S f (lw s), posted := posted s @ [f]\<rparr>)"
| wait_ret: "proto_step S s (s\<lparr>pc := Handling\<rparr>)" if "pc s = Waiting"
| wake_read: "proto_step S s (s\<lparr>lw := wakeHandlerRead S (multi (lw s)) (lw s)\<rparr>)"
    if "pc s = Handling"
| act: "proto_step S s (s\<lparr>lw := w\<rparr>)" if "busy (pc s)" and "aside (lw s) w"
| swap: "proto_step S s (s\<lparr>pc := Executing (loopFunctions (lw s)), lw := (lw s)\<lparr>loopFunctions := []\<rparr>\<rparr>)"
    if "pc s = Handling"
| execute: "proto_step S s (s\<lparr>pc := Executing fs, executed := executed s @ [f]\<rparr>)"
    if "pc s = Executing (f # fs)"
| batch_end: "proto_step S s (s\<lparr>pc := Checking\<rparr>)" if "pc s = Executing []"
| go_on: "proto_step S s (s\<lparr>pc := Waiting\<rparr>)" if "pc s = Checking" and "Bool_Get (running (lw s))"
| leave: "proto_step S s (s\<lparr>pc := Exited\<rparr>)" if "pc s = Checking" and "\<not> Bool_Get (running (lw s))"
| refuse: "proto_step S s (s\<lparr>spc := StopRefused\<rparr>)"
    if "spc s = NoStop" and "\<not> Bool_Get (running (lw s))"
| stop: "proto_step S s (s\<lparr>spc := StopChecked\<rparr>)" if "spc s = NoStop" and "Bool_Get (running (lw s))"
| signal: "proto_step S s (s\<lparr>spc := StopSignalled,
      lw := (lw s)\<lparr>running := snd (Bool_Set False (running (lw s)))\<rparr>\<rparr>)" if "spc s = StopChecked"
| finish: "proto_step S s (s\<lparr>spc := Stopped, lw := EventCtrl_Stop S (lw s)\<rparr>)"
    if "spc s = StopSignalled" and "pc s = Exited"

inductive_cases proto_stepE: "proto_step S s s'"

definition proto_init :: "('k, 'z) loop_scheme \<Rightarrow> ('k, 'z) proto" where
  "proto_init w = \<lparr>lw = w, pc = NotStarted, spc = NoStop, posted = [], executed = []\<rparr>"

definition proto_reachable :: "'k sys \<Rightarrow> ('k, 'z) proto \<Rightarrow> bool" where
  "proto_reachable S s \<longleftrightarrow> (\<exists>w. loopFunctions w = [] \<and> running w = 0 \<and>
     (proto_step S)\<^sup>*\<^sup>* (proto_init w) s)"

text \<open>eventfd(2): writing the number one to the eventfd \<open>fd\<close> succeeds (its counter does not overflow).\<close>

definition eventfd_ok :: "'k sys \<Rightarrow> int \<Rightarrow> bool" where
  "eventfd_ok S fd \<longleftrightarrow> (\<forall>k. \<exists>n k'. k_write S fd wakeBytes k = (Inr n, k'))"

abbreviation eventfd_of :: "('k, 'z) proto \<Rightarrow> int" where
  "eventfd_of s \<equiv> mx_wakeEventFd (multi (lw s))"

fun batch :: "loop_pc \<Rightarrow> task list" where
  "batch (Executing fs) = fs"
| "batch _ = []"

section \<open>How the operations change the queue and the wake-up\<close>

lemma wakeHandlerRead_fields [simp]:
  "multi (wakeHandlerRead S m w) = multi w" "loopFunctions (wakeHandlerRead S m w) = loopFunctions w"
  "running (wakeHandlerRead S m w) = running w"
  by (auto simp: wakeHandlerRead_def sys_read_def emit_def split: prod.splits)

lemma Multiplex_Close_fields [simp]:
  "multi (Multiplex_Close S m w) = multi w" "loopFunctions (Multiplex_Close S m w) = loopFunctions w"
  "running (Multiplex_Close S m w) = running w"
  by (auto simp: Multiplex_Close_def sys_close_def emit_def split: prod.splits)

lemma RunInLoop_fields [simp]:
  "multi (RunInLoop S f w) = multi w" "running (RunInLoop S f w) = running w"
  by (auto simp: RunInLoop_def Multiplex_Wake_def sys_write_def split: prod.splits sum.splits)

lemma wake_pending_loop [simp]:
  "wake_pending (w\<lparr>loopFunctions := fs\<rparr>) = wake_pending w"
  "wake_pending (w\<lparr>running := r\<rparr>) = wake_pending w"
  by (simp_all add: wake_pending_def)

lemma wake_pending_post: "eventfd_ok S (mx_wakeEventFd (multi w)) \<Longrightarrow> wake_pending (RunInLoop S f w)"
proof -
  assume "eventfd_ok S (mx_wakeEventFd (multi w))"
  then obtain n k where "k_write S (mx_wakeEventFd (multi w)) wakeBytes (kern w) = (Inr n, k)"
    unfolding eventfd_ok_def by blast
  then show ?thesis
    by (simp add: RunInLoop_def Multiplex_Wake_def sys_write_def wake_pending_def emit_def)
qed

lemma wake_eff_other: "\<not> on_wake_fd fd e \<Longrightarrow> wake_eff fd e b = b"
proof (cases e)
  case (EffWrite fd' d r)
  then show "\<not> on_wake_fd fd e \<Longrightarrow> ?thesis" by (cases r) simp_all
qed simp_all

lemma wake_pending_aside: "aside w w' \<Longrightarrow> wake_pending w' = wake_pending w"
proof -
  assume "aside w w'"
  then obtain es where es: "trace w' = trace w @ es" "mx_wakeEventFd (multi w') = mx_wakeEventFd (multi w)"
    "list_all (\<lambda>e. \<not> on_wake_fd (mx_wakeEventFd (multi w)) e) es" by (auto simp: aside_def)
  from es(3) have "fold (wake_eff (mx_wakeEventFd (multi w))) es b = b" for b
    by (induction es arbitrary: b) (auto simp: wake_eff_other)
  then show ?thesis by (simp add: wake_pending_def es(1,2))
qed

lemma wake_pending_close [simp]: "wake_pending (Multiplex_Close S m w) = wake_pending w"
  by (auto simp: wake_pending_def Multiplex_Close_def sys_close_def emit_def split: prod.splits)

section \<open>Invariants\<close>

definition proto_inv :: "('k, 'z) proto \<Rightarrow> bool" where
  "proto_inv s \<longleftrightarrow>
     posted s = executed s @ batch (pc s) @ loopFunctions (lw s) \<and>
     (loopFunctions (lw s) \<noteq> [] \<longrightarrow> wake_pending (lw s) \<or> pc s = Handling) \<and>
     (spc s = Stopped \<longrightarrow> pc s = Exited) \<and>
     (pc s = NotStarted \<longrightarrow> running (lw s) = 0 \<and> spc s \<in> {NoStop, StopRefused}) \<and>
     (pc s = Exited \<longrightarrow> \<not> Bool_Get (running (lw s)))"

lemma same_eventfd: "proto_step S s s' \<Longrightarrow> eventfd_of s' = eventfd_of s"
  by (induction rule: proto_step.induct) (auto simp: aside_def)

lemma same_eventfds: "(proto_step S)\<^sup>*\<^sup>* s s' \<Longrightarrow> eventfd_of s' = eventfd_of s"
  by (induction rule: rtranclp_induct) (auto dest: same_eventfd)

lemma proto_step_inv:
  assumes "eventfd_ok S (eventfd_of s)" "proto_step S s s'" "proto_inv s"
  shows "proto_inv s'"
  using assms(2,3,1)
proof (induction rule: proto_step.induct)
  case (post s f)
  then show ?case using wake_pending_post [OF post(2), of f] by (simp add: proto_inv_def)
next
  case (act s w)
  then show ?case
    using wake_pending_aside [OF act(2)] by (auto simp: proto_inv_def aside_def)
qed (auto simp: proto_inv_def Bool_Get_def Bool_Set_def)

lemma proto_reachable_inv:
  assumes "eventfd_ok S (eventfd_of s)" "proto_reachable S s"
  shows "proto_inv s"
proof -
  obtain w where w: "loopFunctions w = []" "running w = 0" "(proto_step S)\<^sup>*\<^sup>* (proto_init w) s"
    using assms(2) by (auto simp: proto_reachable_def)
  have "proto_inv (proto_init w)" using w by (simp add: proto_inv_def proto_init_def)
  moreover have "eventfd_ok S (eventfd_of (proto_init w))" using same_eventfds [OF w(3)] assms(1) by simp
  ultimately have "proto_inv s \<and> eventfd_ok S (eventfd_of s)"
    by (intro rtranclp_induct [OF w(3), where P = "\<lambda>u. proto_inv u \<and> eventfd_ok S (eventfd_of u)"])
      (auto dest: proto_step_inv same_eventfd)
  then show ?thesis ..
qed

section \<open>A pending queue is served\<close>

lemma aside_refl [simp]: "aside w w"
  by (auto simp: aside_def intro: exI [of _ "[]"])

lemma execute_all:
  "pc s = Executing fs \<Longrightarrow> \<exists>s'. (proto_step S)\<^sup>*\<^sup>* s s' \<and> pc s' = Executing [] \<and>
     executed s' = executed s @ fs \<and> lw s' = lw s \<and> posted s' = posted s"
proof (induction fs arbitrary: s)
  case (Cons f fs)
  let ?s = "s\<lparr>pc := Executing fs, executed := executed s @ [f]\<rparr>"
  have "proto_step S s ?s" using Cons.prems by (rule proto_step.execute)
  moreover obtain s' where "(proto_step S)\<^sup>*\<^sup>* ?s s'" "pc s' = Executing []"
    "executed s' = executed ?s @ fs" "lw s' = lw ?s" "posted s' = posted ?s"
    using Cons.IH [of ?s] by auto
  ultimately show ?case by (intro exI [of _ s']) (auto intro: converse_rtranclp_into_rtranclp)
qed auto

lemma serve:
  assumes "pc s = Waiting"
  shows "\<exists>s'. (proto_step S)\<^sup>*\<^sup>* s s' \<and> posted s' = posted s \<and>
    executed s' = executed s @ loopFunctions (lw s) \<and> loopFunctions (lw s') = [] \<and> pc s' = Executing []"
proof -
  let ?h = "s\<lparr>pc := Handling\<rparr>"
  let ?x = "?h\<lparr>pc := Executing (loopFunctions (lw ?h)), lw := (lw ?h)\<lparr>loopFunctions := []\<rparr>\<rparr>"
  have "proto_step S s ?h" using assms by (rule proto_step.wait_ret)
  moreover have "proto_step S ?h ?x" by (rule proto_step.swap) simp
  moreover obtain s' where "(proto_step S)\<^sup>*\<^sup>* ?x s'" "executed s' = executed ?x @ loopFunctions (lw s)"
    "lw s' = lw ?x" "posted s' = posted ?x" "pc s' = Executing []"
    using execute_all [of ?x "loopFunctions (lw s)" S] by auto
  ultimately show ?thesis
    by (intro exI [of _ s']) (auto intro: converse_rtranclp_into_rtranclp)
qed

section \<open>After the loop has returned\<close>

lemma exited_step:
  "proto_step S s s' \<Longrightarrow> pc s = Exited \<Longrightarrow> pc s' = Exited \<and> executed s' = executed s"
  by (induction rule: proto_step.induct) auto

lemma exited_steps:
  "(proto_step S)\<^sup>*\<^sup>* s s' \<Longrightarrow> pc s = Exited \<Longrightarrow> pc s' = Exited \<and> executed s' = executed s"
  by (induction rule: rtranclp_induct) (auto dest: exited_step)

section \<open>One pass runs everything posted before it\<close>

lemma posted_grows: "proto_step S s s' \<Longrightarrow> \<exists>fs. posted s' = posted s @ fs"
  by (induction rule: proto_step.induct) auto

lemma pass_serves:
  assumes ok: "eventfd_ok S (eventfd_of s)" and inv: "proto_inv s" and start: "pc s = Waiting"
    and steps: "(proto_step S)\<^sup>*\<^sup>* s s'"
  shows "\<exists>fs. posted s' = posted s @ fs"
    "pc s' \<notin> {Waiting, Handling} \<Longrightarrow> length (posted s) \<le> length (executed s') + length (batch (pc s'))"
proof -
  have "proto_inv s' \<and> (\<exists>fs. posted s' = posted s @ fs) \<and>
      (pc s' \<notin> {Waiting, Handling} \<longrightarrow>
         length (posted s) \<le> length (executed s') + length (batch (pc s')))"
    using steps
  proof induction
    case base
    with inv start show ?case by simp
  next
    case (step u u')
    then have inv: "proto_inv u" and grow: "\<exists>fs. posted u = posted s @ fs" by simp_all
    have "pc u' \<notin> {Waiting, Handling} \<longrightarrow>
        length (posted s) \<le> length (executed u') + length (batch (pc u'))"
    proof -
      have "length (posted u) =
          length (executed u) + length (batch (pc u)) + length (loopFunctions (lw u))"
        using inv by (simp add: proto_inv_def)
      moreover have "length (posted s) \<le> length (posted u)" using grow by auto
      ultimately show ?thesis using step(3) by (cases rule: proto_step.cases [OF step(2)]) auto
    qed
    have "eventfd_ok S (eventfd_of u)" using ok same_eventfds [OF step(1)] by simp
    from proto_step_inv [OF this step(2) inv] posted_grows [OF step(2)] grow \<open>pc u' \<notin> _ \<longrightarrow> _\<close> show ?case by auto
  qed
  then show "\<exists>fs. posted s' = posted s @ fs"
    "pc s' \<notin> {Waiting, Handling} \<Longrightarrow> length (posted s) \<le> length (executed s') + length (batch (pc s'))"
    by blast+
qed

end
