(* ===== verification/LoopClaims.thy ===== *)
theory LoopClaims
  imports LoopProtocol Instances
begin

text \<open>
  Properties of a loop's queue of functions under every interleaving of the loop's goroutine with
  those that call \<open>RunInLoop\<close> and \<open>Stop\<close>.
\<close>

section \<open>A run of the protocol\<close>

text \<open>The loop starts, goes through a pass and is asked to stop; a function posted between the swap
  of the queue and the end of the pass stays behind.\<close>

lemma run_to_exit:
  assumes "loopFunctions w = []" "running w = 0"
  shows "\<exists>s s'. (proto_step S)\<^sup>*\<^sup>* (proto_init w) s \<and> pc s = Executing [] \<and> spc s = NoStop \<and>
    Bool_Get (running (lw s)) \<and> posted s = [] \<and>
    (proto_step S)\<^sup>*\<^sup>* (s\<lparr>lw := RunInLoop S f (lw s), posted := posted s @ [f]\<rparr>) s' \<and>
    pc s' = Exited \<and> spc s' = StopSignalled \<and> posted s' = [f] \<and> executed s' = []"
proof -
  let ?s1 = "(proto_init w)\<lparr>pc := Waiting,
    lw := (lw (proto_init w))\<lparr>running := snd (Bool_Set True (running (lw (proto_init w))))\<rparr>\<rparr>"
  let ?s2 = "?s1\<lparr>pc := Handling\<rparr>"
  let ?s3 = "?s2\<lparr>pc := Executing (loopFunctions (lw ?s2)), lw := (lw ?s2)\<lparr>loopFunctions := []\<rparr>\<rparr>"
  let ?s4 = "?s3\<lparr>lw := RunInLoop S f (lw ?s3), posted := posted ?s3 @ [f]\<rparr>"
  let ?s5 = "?s4\<lparr>spc := StopChecked\<rparr>"
  let ?s6 = "?s5\<lparr>spc := StopSignalled,
    lw := (lw ?s5)\<lparr>running := snd (Bool_Set False (running (lw ?s5)))\<rparr>\<rparr>"
  let ?s7 = "?s6\<lparr>pc := Checking\<rparr>"
  let ?s8 = "?s7\<lparr>pc := Exited\<rparr>"
  have "proto_step S (proto_init w) ?s1" by (rule proto_step.run) (simp add: proto_init_def)
  moreover have "proto_step S ?s1 ?s2" by (rule proto_step.wait_ret) simp
  moreover have "proto_step S ?s2 ?s3" by (rule proto_step.swap) simp
  ultimately have "(proto_step S)\<^sup>*\<^sup>* (proto_init w) ?s3"
    by (meson converse_rtranclp_into_rtranclp rtranclp.rtrancl_refl)
  moreover have "proto_step S ?s4 ?s5" by (rule proto_step.stop) (simp_all add: proto_init_def)
  moreover have "proto_step S ?s5 ?s6" by (rule proto_step.signal) simp
  moreover have "proto_step S ?s6 ?s7"
    by (rule proto_step.batch_end) (simp add: proto_init_def assms)
  moreover have "proto_step S ?s7 ?s8" by (rule proto_step.leave) simp_all
  ultimately have "(proto_step S)\<^sup>*\<^sup>* (proto_init w) ?s3 \<and> (proto_step S)\<^sup>*\<^sup>* ?s4 ?s8"
    by (meson converse_rtranclp_into_rtranclp rtranclp.rtrancl_refl)
  moreover have "pc ?s3 = Executing []" "spc ?s3 = NoStop" "Bool_Get (running (lw ?s3))" "posted ?s3 = []"
    "pc ?s8 = Exited" "spc ?s8 = StopSignalled" "posted ?s8 = [f]" "executed ?s8 = []"
    by (simp_all add: proto_init_def assms)
  ultimately show ?thesis by blast
qed

lemma script_eventfd_ok:
  "eventfd_ok (script_sys\<lparr>k_write := (\<lambda>fd d k. (Inr (length d), k))\<rparr>) fd"
  by (simp add: eventfd_ok_def)

abbreviation (input) wake_sys :: "script sys" where
  "wake_sys \<equiv> script_sys\<lparr>k_write := (\<lambda>fd d k. (Inr (length d), k))\<rparr>"

lemma demo_waiting:
  "\<exists>s :: (script, unit) proto. proto_reachable wake_sys s \<and> pc s = Waiting \<and>
     loopFunctions (lw s) = [TaskAcceptClose] \<and> posted s = [TaskAcceptClose] \<and> executed s = []"
proof -
  let ?w = "(a_loop [] [])\<lparr>running := 0\<rparr>"
  let ?s1 = "(proto_init ?w)\<lparr>pc := Waiting,
    lw := (lw (proto_init ?w))\<lparr>running := snd (Bool_Set True (running (lw (proto_init ?w))))\<rparr>\<rparr>"
  let ?s2 = "?s1\<lparr>lw := RunInLoop wake_sys TaskAcceptClose (lw ?s1), posted := posted ?s1 @ [TaskAcceptClose]\<rparr>"
  have "proto_step wake_sys (proto_init ?w) ?s1" by (rule proto_step.run) (simp add: proto_init_def)
  moreover have "proto_step wake_sys ?s1 ?s2" by (rule proto_step.post)
  ultimately have "(proto_step wake_sys)\<^sup>*\<^sup>* (proto_init ?w) ?s2"
    by (meson converse_rtranclp_into_rtranclp rtranclp.rtrancl_refl)
  moreover have "loopFunctions ?w = []" "running ?w = 0" by (simp_all add: a_loop_def)
  ultimately have "proto_reachable wake_sys ?s2" unfolding proto_reachable_def by blast
  then show ?thesis
    by (intro exI [of _ ?s2]) (simp add: proto_init_def a_loop_def)
qed

section \<open>Order, wake-up, progress\<close>

text \<open>C15: the functions handed to a loop are taken in the order of the calls, and none is lost or
  doubled on the way: at any moment the functions posted are those executed, then those the loop has
  taken out, then the queue. (What is left in the queue when the loop returns is never executed:
  \<open>stop_may_lose_function\<close>.)\<close>

theorem queue_is_fifo:
  assumes "eventfd_ok S (eventfd_of s)" and "proto_reachable S s"
  shows "posted s = executed s @ batch (pc s) @ loopFunctions (lw s)"
  using proto_reachable_inv [OF assms] by (simp add: proto_inv_def)

theorem queue_is_fifo_witness:
  "\<exists>s :: (script, unit) proto. proto_reachable wake_sys s \<and> posted s = [TaskAcceptClose] \<and>
     posted s = executed s @ batch (pc s) @ loopFunctions (lw s)"
  using demo_waiting queue_is_fifo [OF script_eventfd_ok] by metis

text \<open>C16: no wake-up is lost: when the loop's goroutine waits in \<open>epoll_wait\<close> while functions are
  queued, the eventfd has been written since it was last read, so the wait returns.\<close>

theorem no_lost_wakeup:
  assumes "eventfd_ok S (eventfd_of s)" and "proto_reachable S s" and "pc s = Waiting"
    and "loopFunctions (lw s) \<noteq> []"
  shows "wake_pending (lw s)"
  using proto_reachable_inv [OF assms(1,2)] assms(3,4) by (simp add: proto_inv_def)

theorem no_lost_wakeup_witness:
  "\<exists>s :: (script, unit) proto. proto_reachable wake_sys s \<and> pc s = Waiting \<and> wake_pending (lw s)"
  using demo_waiting no_lost_wakeup [OF script_eventfd_ok] by (metis list.distinct(1))

text \<open>C19: a pass serves what came before it: whatever the other goroutines do meanwhile, when a loop
  that was waiting reaches the end of a pass, every function posted before that pass has been
  executed, in order.\<close>

theorem pass_executes_posted:
  assumes "eventfd_ok S (eventfd_of s)" and "proto_reachable S s" and "pc s = Waiting"
    and "(proto_step S)\<^sup>*\<^sup>* s s'" and "pc s' = Checking"
  shows "take (length (posted s)) (executed s') = posted s"
proof -
  have inv: "proto_inv s" by (rule proto_reachable_inv [OF assms(1,2)])
  obtain fs where fs: "posted s' = posted s @ fs" using pass_serves(1) [OF assms(1) inv assms(3,4)] ..
  have len: "length (posted s) \<le> length (executed s')"
    using pass_serves(2) [OF assms(1) inv assms(3,4)] assms(5) by simp
  have "proto_reachable S s'"
    using assms(2,4) unfolding proto_reachable_def by (meson rtranclp_trans)
  then have "posted s' = executed s' @ loopFunctions (lw s')"
    using proto_reachable_inv [of S s'] assms(1,5) same_eventfds [OF assms(4)] by (auto simp: proto_inv_def)
  with fs have "take (length (posted s)) (executed s' @ loopFunctions (lw s')) = posted s" by simp
  with len show ?thesis by simp
qed

theorem pass_executes_posted_witness:
  "\<exists>(s :: (script, unit) proto) s'. proto_reachable wake_sys s \<and> (proto_step wake_sys)\<^sup>*\<^sup>* s s' \<and>
     pc s' = Checking \<and> take 1 (executed s') = [TaskAcceptClose]"
proof -
  obtain s :: "(script, unit) proto" where s: "proto_reachable wake_sys s" "pc s = Waiting"
    "posted s = [TaskAcceptClose]" using demo_waiting by blast
  obtain u where u: "(proto_step wake_sys)\<^sup>*\<^sup>* s u" "pc u = Executing []" using serve [OF s(2)] by blast
  have "proto_step wake_sys u (u\<lparr>pc := Checking\<rparr>)" using u(2) by (rule proto_step.batch_end)
  with u(1) have steps: "(proto_step wake_sys)\<^sup>*\<^sup>* s (u\<lparr>pc := Checking\<rparr>)" by (rule rtranclp.rtrancl_into_rtrancl)
  have "take (length (posted s)) (executed (u\<lparr>pc := Checking\<rparr>)) = posted s"
    by (rule pass_executes_posted [OF script_eventfd_ok s(1,2) steps]) simp
  with s steps show ?thesis by (intro exI [of _ s] exI [of _ "u\<lparr>pc := Checking\<rparr>"]) simp
qed

text \<open>A loop that is running can always serve its queue: from every reachable state in which its
  goroutine waits, it can get to a state where all functions posted so far have been executed
  and the queue is empty.\<close>

theorem queue_is_served:
  assumes "eventfd_ok S (eventfd_of s)" and "proto_reachable S s" and "pc s = Waiting"
  shows "\<exists>s'. (proto_step S)\<^sup>*\<^sup>* s s' \<and> executed s' = posted s \<and> loopFunctions (lw s') = []"
proof -
  have "posted s = executed s @ loopFunctions (lw s)"
    using proto_reachable_inv [OF assms(1,2)] assms(3) by (auto simp: proto_inv_def)
  with serve [OF assms(3), of S] show ?thesis by metis
qed

theorem queue_is_served_witness:
  "\<exists>(s :: (script, unit) proto) s'. proto_reachable wake_sys s \<and> executed s = [] \<and>
     (proto_step wake_sys)\<^sup>*\<^sup>* s s' \<and> executed s' = [TaskAcceptClose]"
  using demo_waiting queue_is_served [OF script_eventfd_ok] by metis

section \<open>Stopping\<close>

text \<open>Stopping is orderly: the multiplexer is closed only after the loop's goroutine has
  returned, and from then on no function is executed.\<close>

theorem stop_after_exit:
  assumes "eventfd_ok S (eventfd_of s)" and "proto_reachable S s" and "spc s = Stopped"
    and "(proto_step S)\<^sup>*\<^sup>* s s'"
  shows "pc s = Exited \<and> pc s' = Exited \<and> executed s' = executed s"
  using proto_reachable_inv [OF assms(1,2)] assms(3) exited_steps [OF assms(4)]
  by (simp add: proto_inv_def)

theorem stop_after_exit_witness:
  "\<exists>s :: (script, unit) proto. proto_reachable wake_sys s \<and> spc s = Stopped \<and> pc s = Exited"
proof -
  let ?w = "(a_loop [] [])\<lparr>running := 0\<rparr>"
  obtain u s where u: "(proto_step wake_sys)\<^sup>*\<^sup>* (proto_init ?w) u"
    "(proto_step wake_sys)\<^sup>*\<^sup>* (u\<lparr>lw := RunInLoop wake_sys TaskAcceptClose (lw u), posted := posted u @ [TaskAcceptClose]\<rparr>) s"
    and s: "pc s = Exited" "spc s = StopSignalled"
    using run_to_exit [of ?w wake_sys TaskAcceptClose] by (auto simp: a_loop_def)
  have run: "(proto_step wake_sys)\<^sup>*\<^sup>* (proto_init ?w) s"
    using u proto_step.post [of wake_sys u TaskAcceptClose] by (meson rtranclp.rtrancl_into_rtrancl rtranclp_trans)
  let ?t = "s\<lparr>spc := Stopped, lw := EventCtrl_Stop wake_sys (lw s)\<rparr>"
  have "proto_step wake_sys s ?t" using s(2,1) by (rule proto_step.finish)
  with run have "(proto_step wake_sys)\<^sup>*\<^sup>* (proto_init ?w) ?t" by (rule rtranclp.rtrancl_into_rtrancl)
  moreover have "loopFunctions ?w = []" "running ?w = 0" by (simp_all add: a_loop_def)
  ultimately have "proto_reachable wake_sys ?t" unfolding proto_reachable_def by blast
  with stop_after_exit [OF script_eventfd_ok this, of ?t] show ?thesis by (intro exI [of _ ?t]) simp
qed

text \<open>C31: a function posted while the loop is running, before \<open>Stop\<close> is called, may never run: for every
  kernel there is a reachable state in which the loop's goroutine is inside \<open>Run\<close>, \<open>running\<close> is set
  and \<open>Stop\<close> has not been called; \<open>f\<close> is posted there; and the run can go on so that \<open>Stop\<close> returns
  and in no state after that \<open>f\<close> has been executed.\<close>

theorem stop_may_lose_function:
  "\<exists>(s :: ('k, 'z) proto) s'. proto_reachable S s \<and> pc s \<notin> {NotStarted, Exited} \<and>
     Bool_Get (running (lw s)) \<and> spc s = NoStop \<and> posted s = [] \<and>
     (proto_step S)\<^sup>*\<^sup>* (s\<lparr>lw := RunInLoop S f (lw s), posted := posted s @ [f]\<rparr>) s' \<and>
     spc s' = Stopped \<and> executed ` {s''. (proto_step S)\<^sup>*\<^sup>* s' s''} = {[]}"
proof -
  let ?w = "(undefined :: ('k, 'z) loop_scheme)\<lparr>loopFunctions := [], running := 0\<rparr>"
  obtain s s' where s: "(proto_step S)\<^sup>*\<^sup>* (proto_init ?w) s" "pc s = Executing []" "spc s = NoStop"
    "Bool_Get (running (lw s))" "posted s = []"
    "(proto_step S)\<^sup>*\<^sup>* (s\<lparr>lw := RunInLoop S f (lw s), posted := posted s @ [f]\<rparr>) s'"
    "pc s' = Exited" "spc s' = StopSignalled" "executed s' = []"
    using run_to_exit [of ?w S f] by auto
  have "proto_reachable S s" unfolding proto_reachable_def using s(1) by (intro exI [of _ ?w]) simp
  moreover let ?t = "s'\<lparr>spc := Stopped, lw := EventCtrl_Stop S (lw s')\<rparr>"
  have "proto_step S s' ?t" using s(8,7) by (rule proto_step.finish)
  moreover have "executed ` {s''. (proto_step S)\<^sup>*\<^sup>* ?t s''} = {[]}"
    using exited_steps [of S ?t] s(7,9) by (auto intro!: image_eqI [of _ _ ?t])
  ultimately show ?thesis using s(2-6) rtranclp.rtrancl_into_rtrancl [OF s(6)]
    by (intro exI [of _ s] exI [of _ ?t]) simp
qed

end
