(* ===== verification/Lifecycle.thy ===== *)
theory Lifecycle
  imports LoopProtocol
begin

text \<open>
  Starting and stopping a server: a list of loops, the main loop first, each with its goroutine,
  its queue and its callers as in \<open>LoopProtocol\<close>. \<open>Start\<close> runs every loop in a goroutine of its own,
  \<open>Stop\<close> stops them one by one, and \<open>Start\<close> returns when all have left \<open>Run\<close>. Every loop has its
  own view of the kernel here: what the other loops do is among what it may find there.
\<close>

section \<open>The server\<close>

definition stop_returned :: "('k, 'z) proto \<Rightarrow> bool" where
  "stop_returned s \<longleftrightarrow> spc s = StopRefused \<or> spc s = Stopped"

text \<open>\<open>Stop\<close> calls the \<open>Stop\<close> of a loop after those of the loops before it have returned.\<close>

inductive server_proto_step :: "'k sys \<Rightarrow> ('k, 'z) proto list \<Rightarrow> ('k, 'z) proto list \<Rightarrow> bool" for S where
  loop: "server_proto_step S ss (ss[i := s])"
    if "i < length ss" and "proto_step S (ss ! i) s"
      and "spc s = spc (ss ! i) \<or> (\<forall>j < i. stop_returned (ss ! j))"

definition in_Run :: "('k, 'z) proto \<Rightarrow> bool" where
  "in_Run s \<longleftrightarrow> pc s \<notin> {NotStarted, Exited}"

text \<open>The two descriptors of a loop's multiplexer have been closed.\<close>

definition multiplexer_closed :: "('k, 'z) proto \<Rightarrow> bool" where
  "multiplexer_closed s \<longleftrightarrow> {EffClose (mx_fd (multi (lw s))), EffClose (eventfd_of s)} \<subseteq> set (trace (lw s))"

section \<open>One loop from the moment it runs\<close>

definition up :: "('k, 'z) proto \<Rightarrow> bool" where
  "up s \<longleftrightarrow> pc s \<noteq> NotStarted \<and> spc s \<noteq> StopRefused \<and>
     (Bool_Get (running (lw s)) \<longleftrightarrow> spc s = NoStop \<or> spc s = StopChecked) \<and>
     (pc s = Exited \<longrightarrow> \<not> Bool_Get (running (lw s))) \<and>
     (spc s = Stopped \<longrightarrow> pc s = Exited \<and> multiplexer_closed s)"

lemma RunInLoop_trace: "set (trace w) \<subseteq> set (trace (RunInLoop S f w))"
  by (auto simp: RunInLoop_def Multiplex_Wake_def sys_write_def split: prod.splits sum.splits)

lemma multiplexer_closes: "multiplexer_closed (s\<lparr>spc := p, lw := EventCtrl_Stop S (lw s)\<rparr>)"
  by (auto simp: multiplexer_closed_def Multiplex_Close_def sys_close_def emit_def split: prod.splits)

lemma up_step: "proto_step S s s' \<Longrightarrow> up s \<Longrightarrow> up s'"
proof (induction rule: proto_step.induct)
  case (post s f)
  then show ?case using RunInLoop_trace [of "lw s" S f] by (auto simp: up_def multiplexer_closed_def)
next
  case (finish s)
  then show ?case using multiplexer_closes [where s = s and p = Stopped and S = S] by (auto simp: up_def)
qed (auto simp: up_def aside_def multiplexer_closed_def)

text \<open>Asked to stop, a loop leaves \<open>Run\<close> at the next test of \<open>running\<close>.\<close>

lemma up_leaves: "up s \<Longrightarrow> spc s = StopSignalled \<Longrightarrow> proto_step S s s' \<Longrightarrow> pc s = Checking \<Longrightarrow> pc s' \<in> {Checking, Exited}"
  by (erule proto_stepE) (auto simp: up_def)

text \<open>A goroutine inside \<open>Run\<close> can always get to the test of \<open>running\<close>.\<close>

lemma reaches_test:
  assumes "in_Run s"
  shows "\<exists>s'. (proto_step S)\<^sup>*\<^sup>* s s' \<and> pc s' = Checking \<and> spc s' = spc s"
proof -
  have exe: "\<exists>s'. (proto_step S)\<^sup>*\<^sup>* s s' \<and> pc s' = Checking \<and> spc s' = spc s" if "pc s = Executing fs" for s fs
    using that
  proof (induction fs arbitrary: s)
    case Nil
    then have "proto_step S s (s\<lparr>pc := Checking\<rparr>)" by (rule proto_step.batch_end)
    then show ?case by (intro exI [of _ "s\<lparr>pc := Checking\<rparr>"]) simp
  next
    case (Cons f fs)
    let ?s = "s\<lparr>pc := Executing fs, executed := executed s @ [f]\<rparr>"
    have "proto_step S s ?s" using Cons.prems by (rule proto_step.execute)
    with Cons.IH [of ?s] show ?case by (auto intro: converse_rtranclp_into_rtranclp)
  qed
  have handle: "\<exists>s'. (proto_step S)\<^sup>*\<^sup>* s s' \<and> pc s' = Checking \<and> spc s' = spc s" if "pc s = Handling" for s
  proof -
    let ?s = "s\<lparr>pc := Executing (loopFunctions (lw s)), lw := (lw s)\<lparr>loopFunctions := []\<rparr>\<rparr>"
    have "proto_step S s ?s" using that by (rule proto_step.swap)
    with exe [of ?s] show ?thesis by (auto intro: converse_rtranclp_into_rtranclp)
  qed
  show ?thesis
  proof (cases "pc s")
    case Waiting
    then have "proto_step S s (s\<lparr>pc := Handling\<rparr>)" by (rule proto_step.wait_ret)
    with handle [of "s\<lparr>pc := Handling\<rparr>"] show ?thesis by (auto intro: converse_rtranclp_into_rtranclp)
  qed (use assms handle exe in \<open>auto simp: in_Run_def\<close>)
qed

lemma up_steps: "(proto_step S)\<^sup>*\<^sup>* s s' \<Longrightarrow> up s \<Longrightarrow> up s'"
  by (induction rule: rtranclp_induct) (auto intro: up_step)

lemma signalled_stops:
  assumes "up s" "spc s = StopSignalled"
  shows "\<exists>s'. (proto_step S)\<^sup>*\<^sup>* s s' \<and> spc s' = Stopped"
proof -
  have "\<exists>u. (proto_step S)\<^sup>*\<^sup>* s u \<and> pc u = Exited \<and> spc u = StopSignalled"
  proof (cases "pc s = Exited")
    case False
    then obtain u where u: "(proto_step S)\<^sup>*\<^sup>* s u" "pc u = Checking" "spc u = StopSignalled"
      using reaches_test [of s S] assms by (auto simp: in_Run_def up_def)
    then have "proto_step S u (u\<lparr>pc := Exited\<rparr>)"
      using up_steps [OF u(1) assms(1)] by (intro proto_step.leave) (auto simp: up_def)
    with u show ?thesis by (intro exI [of _ "u\<lparr>pc := Exited\<rparr>"]) auto
  qed (use assms in auto)
  then obtain u where u: "(proto_step S)\<^sup>*\<^sup>* s u" "spc u = StopSignalled" "pc u = Exited" by blast
  from proto_step.finish [OF u(2,3), where S = S] u(1) show ?thesis
    by (intro exI [of _ "u\<lparr>spc := Stopped, lw := EventCtrl_Stop S (lw u)\<rparr>"]) auto
qed

text \<open>From wherever \<open>Stop\<close> is, it can return.\<close>

lemma stop_finishes:
  assumes "up s"
  shows "\<exists>s'. (proto_step S)\<^sup>*\<^sup>* s s' \<and> stop_returned s'"
proof -
  have checked: "\<exists>s'. (proto_step S)\<^sup>*\<^sup>* s s' \<and> stop_returned s'" if "up s" "spc s = StopChecked" for s
  proof -
    let ?s = "s\<lparr>spc := StopSignalled, lw := (lw s)\<lparr>running := snd (Bool_Set False (running (lw s)))\<rparr>\<rparr>"
    have "proto_step S s ?s" using that(2) by (rule proto_step.signal)
    moreover from up_step [OF this that(1)] obtain s' where "(proto_step S)\<^sup>*\<^sup>* ?s s'" "spc s' = Stopped"
      using signalled_stops [of ?s S] by auto
    ultimately show ?thesis by (auto simp: stop_returned_def intro: converse_rtranclp_into_rtranclp)
  qed
  show ?thesis
  proof (cases "spc s")
    case NoStop
    let ?s = "s\<lparr>spc := StopChecked\<rparr>"
    have "proto_step S s ?s" using NoStop assms by (intro proto_step.stop) (auto simp: up_def)
    with checked [OF up_step [OF this assms]] show ?thesis by (auto intro: converse_rtranclp_into_rtranclp)
  next
    case StopSignalled
    with signalled_stops [OF assms, of S] show ?thesis by (auto simp: stop_returned_def)
  qed (use assms checked in \<open>auto simp: stop_returned_def\<close>)
qed

section \<open>All loops\<close>

lemma server_step_length: "server_proto_step S ss ss' \<Longrightarrow> length ss' = length ss"
  by (induction rule: server_proto_step.induct) simp

lemma server_steps_length: "(server_proto_step S)\<^sup>*\<^sup>* ss ss' \<Longrightarrow> length ss' = length ss"
  by (induction rule: rtranclp_induct) (auto dest: server_step_length)

text \<open>What every step of a loop keeps, every step of the server keeps.\<close>

lemma server_steps_keep:
  assumes "\<And>s s'. proto_step S s s' \<Longrightarrow> P s \<Longrightarrow> P s'"
  shows "(server_proto_step S)\<^sup>*\<^sup>* ss ss' \<Longrightarrow> list_all P ss \<Longrightarrow> list_all P ss'"
proof (induction rule: rtranclp_induct)
  case (step ts us)
  then have "list_all P ts" by simp
  with step(2) show ?case
    by cases (use assms in \<open>auto simp: list_all_iff dest!: set_update_subset_insert [THEN subsetD]\<close>)
qed

text \<open>Steps of one loop, all \<open>Stop\<close>s before it having returned.\<close>

lemma steps_of_loop:
  assumes "(proto_step S)\<^sup>*\<^sup>* (ss ! i) s" "i < length ss" "\<forall>j < i. stop_returned (ss ! j)"
  shows "(server_proto_step S)\<^sup>*\<^sup>* ss (ss[i := s])"
  using assms(1)
proof induction
  case base
  then show ?case by simp
next
  case (step s t)
  have "server_proto_step S (ss[i := s]) ((ss[i := s])[i := t])"
    using assms(2,3) step(2) by (intro server_proto_step.loop) auto
  with step show ?case by (simp add: rtranclp.rtrancl_into_rtrancl)
qed

text \<open>Doing something in every loop, in order, after which its \<open>Stop\<close> has returned.\<close>

lemma each_loop:
  assumes "\<And>i. i < length ss \<Longrightarrow> \<exists>s. (proto_step S)\<^sup>*\<^sup>* (ss ! i) s \<and> stop_returned s \<and> Q s"
  shows "\<exists>ss'. (server_proto_step S)\<^sup>*\<^sup>* ss ss' \<and> list_all (\<lambda>s. stop_returned s \<and> Q s) ss'"
proof -
  have "\<exists>ss'. (server_proto_step S)\<^sup>*\<^sup>* ss ss' \<and> (\<forall>j < k. stop_returned (ss' ! j) \<and> Q (ss' ! j)) \<and>
      (\<forall>j. k \<le> j \<longrightarrow> ss' ! j = ss ! j)" if "k \<le> length ss" for k
    using that
  proof (induction k)
    case 0
    then show ?case by auto
  next
    case (Suc k)
    then obtain ts where ts: "(server_proto_step S)\<^sup>*\<^sup>* ss ts" "\<forall>j < k. stop_returned (ts ! j) \<and> Q (ts ! j)"
      "\<forall>j. k \<le> j \<longrightarrow> ts ! j = ss ! j" by auto
    have len: "length ts = length ss" using server_steps_length [OF ts(1)] .
    obtain s where s: "(proto_step S)\<^sup>*\<^sup>* (ts ! k) s" "stop_returned s" "Q s"
      using assms [of k] Suc.prems ts(3) by auto
    have "(server_proto_step S)\<^sup>*\<^sup>* ts (ts[k := s])"
      using s(1) ts(2) Suc.prems len by (intro steps_of_loop) auto
    with ts s Suc.prems len show ?case
      by (intro exI [of _ "ts[k := s]"]) (auto simp: nth_list_update less_Suc_eq)
  qed
  from this [OF order_refl] obtain ts where ts: "(server_proto_step S)\<^sup>*\<^sup>* ss ts"
    "\<forall>j < length ss. stop_returned (ts ! j) \<and> Q (ts ! j)" by blast
  with server_steps_length [OF ts(1)] show ?thesis by (intro exI [of _ ts]) (simp add: list_all_length)
qed

section \<open>Stopping too early\<close>

text \<open>A loop whose \<open>Stop\<close> was refused before its goroutine got to \<open>Run\<close>.\<close>

definition deaf :: "('k, 'z) proto \<Rightarrow> bool" where
  "deaf s \<longleftrightarrow> spc s = StopRefused \<and> pc s \<noteq> Exited \<and> (pc s \<noteq> NotStarted \<longrightarrow> Bool_Get (running (lw s)))"

lemma deaf_step: "proto_step S s s' \<Longrightarrow> deaf s \<Longrightarrow> deaf s'"
  by (induction rule: proto_step.induct) (auto simp: deaf_def aside_def)

end
