(* ===== verification/LifeClaims.thy ===== *)
theory LifeClaims
  imports Lifecycle Instances
begin

text \<open>
  Starting and stopping whole servers: \<open>Stop\<close> after \<open>Start\<close> has got all loops running brings every
  loop to its end, \<open>Stop\<close> before that may miss them all.
\<close>

section \<open>Stop\<close>

text \<open>C17: \<open>Stop\<close> works once all loops run. Whatever the goroutines of the loops, their callers and
  \<open>Stop\<close> have done since: a loop that \<open>Stop\<close> has asked to end leaves \<open>Run\<close> at its next test of
  \<open>running\<close>; \<open>Stop\<close> can still return; and when it has, every loop has left \<open>Run\<close> and both
  descriptors of its multiplexer have been closed.\<close>

theorem stop_stops_all:
  assumes "\<forall>s \<in> set ss. in_Run s \<and> Bool_Get (running (lw s)) \<and> spc s = NoStop"
    and "(server_proto_step S)\<^sup>*\<^sup>* ss ss'"
  shows "(list_all stop_returned ss' \<longrightarrow>
       list_all (\<lambda>s. pc s = Exited \<and> spc s = Stopped \<and> multiplexer_closed s) ss') \<and>
    (\<exists>ss''. (server_proto_step S)\<^sup>*\<^sup>* ss' ss'' \<and> list_all stop_returned ss'') \<and>
    (\<forall>s \<in> set ss'. \<forall>s'. spc s = StopSignalled \<and> pc s = Checking \<and> proto_step S s s' \<longrightarrow>
       pc s' \<in> {Checking, Exited})"
proof -
  have "list_all up ss" using assms(1) by (auto simp: list_all_iff up_def in_Run_def)
  from server_steps_keep [where P = up, OF up_step assms(2) this] have up: "list_all up ss'" .
  then have "list_all stop_returned ss' \<longrightarrow>
      list_all (\<lambda>s. pc s = Exited \<and> spc s = Stopped \<and> multiplexer_closed s) ss'"
    by (auto simp: list_all_iff up_def stop_returned_def)
  moreover have "\<exists>ss''. (server_proto_step S)\<^sup>*\<^sup>* ss' ss'' \<and> list_all (\<lambda>s. stop_returned s \<and> True) ss''"
    using up stop_finishes by (intro each_loop) (auto simp: list_all_length)
  moreover have "\<forall>s \<in> set ss'. \<forall>s'. spc s = StopSignalled \<and> pc s = Checking \<and> proto_step S s s' \<longrightarrow>
      pc s' \<in> {Checking, Exited}"
    using up up_leaves by (fastforce simp: list_all_iff)
  ultimately show ?thesis by simp
qed

theorem stop_stops_all_witness:
  "\<exists>ss :: (script, unit) proto list. length ss = 2 \<and>
     list_all (\<lambda>s. pc s = Exited \<and> spc s = Stopped \<and> multiplexer_closed s) ss"
proof -
  let ?s = "(proto_init (a_loop [] []))\<lparr>pc := Waiting\<rparr>"
  have "Bool_Get (running (lw ?s))" by (simp add: proto_init_def a_loop_def Bool_Get_def)
  then have up: "\<forall>s \<in> set [?s, ?s]. in_Run s \<and> Bool_Get (running (lw s)) \<and> spc s = NoStop"
    by (simp add: in_Run_def proto_init_def)
  obtain ss where ss: "(server_proto_step script_sys)\<^sup>*\<^sup>* [?s, ?s] ss" "list_all stop_returned ss"
    using stop_stops_all [OF up rtranclp.rtrancl_refl, of script_sys] by blast
  from stop_stops_all [OF up ss(1)] ss(2) server_steps_length [OF ss(1)] show ?thesis by (intro exI [of _ ss]) simp
qed

text \<open>C32: \<open>Stop\<close> called before the goroutines that \<open>Start\<close> creates have got to \<open>Run\<close> does nothing: it
  is refused by every loop, all loops then run, and no continuation ever ends one of them, so
  \<open>Start\<close> never returns.\<close>

theorem stop_before_run:
  "\<exists>ss. (server_proto_step S)\<^sup>*\<^sup>* (map (\<lambda>w. proto_init (w\<lparr>running := 0\<rparr>)) ws) ss \<and> length ss = length ws \<and>
     list_all (\<lambda>s. spc s = StopRefused \<and> in_Run s) ss \<and>
     \<not> (\<exists>ss'. (server_proto_step S)\<^sup>*\<^sup>* ss ss' \<and> list_ex (\<lambda>s. pc s = Exited) ss')"
proof -
  let ?ss = "map (\<lambda>w. proto_init (w\<lparr>running := 0\<rparr>)) ws"
  have "\<exists>s. (proto_step S)\<^sup>*\<^sup>* (?ss ! i) s \<and> stop_returned s \<and> deaf s \<and> in_Run s" if "i < length ?ss" for i
  proof -
    let ?a = "proto_init ((ws ! i)\<lparr>running := 0\<rparr>)"
    let ?b = "?a\<lparr>spc := StopRefused\<rparr>"
    let ?c = "?b\<lparr>pc := Waiting, lw := (lw ?b)\<lparr>running := snd (Bool_Set True (running (lw ?b)))\<rparr>\<rparr>"
    have "proto_step S ?a ?b" by (rule proto_step.refuse) (simp_all add: proto_init_def Bool_Get_def)
    moreover have "proto_step S ?b ?c" by (rule proto_step.run) (simp add: proto_init_def)
    ultimately have "(proto_step S)\<^sup>*\<^sup>* ?a ?c" by (meson converse_rtranclp_into_rtranclp rtranclp.rtrancl_refl)
    moreover have "stop_returned ?c" "deaf ?c" "in_Run ?c" by (simp_all add: stop_returned_def deaf_def in_Run_def)
    ultimately show ?thesis using that by auto
  qed
  from each_loop [of ?ss S "\<lambda>s. deaf s \<and> in_Run s", OF this]
  obtain ss where ss: "(server_proto_step S)\<^sup>*\<^sup>* ?ss ss" "list_all (\<lambda>s. stop_returned s \<and> deaf s \<and> in_Run s) ss" by blast
  then have "list_all deaf ss" by (simp add: list_all_iff)
  then have "\<not> list_ex (\<lambda>s. pc s = Exited) ss'" if "(server_proto_step S)\<^sup>*\<^sup>* ss ss'" for ss'
    using server_steps_keep [where P = deaf, OF deaf_step that] by (auto simp: list_all_iff list_ex_iff deaf_def)
  with ss server_steps_length [OF ss(1)] show ?thesis
    by (intro exI [of _ ss]) (auto simp: list_all_iff deaf_def)
qed

end
