(* ===== verification/Options.thy ===== *)
theory Options
  imports Codec
begin

text \<open>
  \<open>net/protocol/options.go\<close>: the configuration of a server. A Go functional option is a function
  on \<open>Options\<close>; \<open>NewOptions\<close> applies them in order to the zero value and fills in defaults.
  Durations are nanoseconds; a nil codec is \<open>None\<close>.
\<close>

record NetWorkAndAddressAndOption =
  opt_Network :: string
  opt_Address :: string
  opt_ReusePort :: bool

record Options =
  opt_net :: NetWorkAndAddressAndOption
  opt_NumLoops :: int
  opt_tick :: int
  opt_wheelSize :: int
  opt_IdleTime :: int
  opt_codeImp :: "ICodec option"

type_synonym Option = "Options \<Rightarrow> Options"

definition zero_Options :: Options where
  "zero_Options =
     \<lparr>opt_net = \<lparr>opt_Network = [], opt_Address = [], opt_ReusePort = False\<rparr>, opt_NumLoops = 0,
      opt_tick = 0, opt_wheelSize = 0, opt_IdleTime = 0, opt_codeImp = None\<rparr>"

definition ReusePort :: "bool \<Rightarrow> Option" where
  "ReusePort b opt = opt\<lparr>opt_net := (opt_net opt)\<lparr>opt_ReusePort := b\<rparr>\<rparr>"

definition Network :: "string \<Rightarrow> Option" where
  "Network n opt = opt\<lparr>opt_net := (opt_net opt)\<lparr>opt_Network := n\<rparr>\<rparr>"

definition Address :: "string \<Rightarrow> Option" where
  "Address a opt = opt\<lparr>opt_net := (opt_net opt)\<lparr>opt_Address := a\<rparr>\<rparr>"

definition NumLoops :: "int \<Rightarrow> Option" where
  "NumLoops n opt = opt\<lparr>opt_NumLoops := n\<rparr>"

definition IdleTime :: "int \<Rightarrow> Option" where
  "IdleTime t opt = opt\<lparr>opt_IdleTime := t\<rparr>"

definition CodeImp :: "ICodec \<Rightarrow> Option" where
  "CodeImp cd opt = opt\<lparr>opt_codeImp := Some cd\<rparr>"

definition fill_defaults :: Option where
  "fill_defaults opts =
     (let opts = (if length (opt_Network (opt_net opts)) = 0 then Network ''tcp'' opts else opts);
          opts = (if length (opt_Address (opt_net opts)) = 0 then Address '':58800'' opts else opts);
          opts = (if opt_tick opts = 0 then opts\<lparr>opt_tick := 10 ^ 6\<rparr> else opts);
          opts = (if opt_wheelSize opts = 0 then opts\<lparr>opt_wheelSize := 1000\<rparr> else opts)
      in if opt_codeImp opts = None then CodeImp BuiltInFrameCodec opts else opts)"

definition NewOptions :: "Option list \<Rightarrow> Options" where
  "NewOptions opt = fill_defaults (foldl (\<lambda>opts f. f opts) zero_Options opt)"

definition GetNet :: "Options \<Rightarrow> NetWorkAndAddressAndOption" where "GetNet = opt_net"
definition GetTick :: "Options \<Rightarrow> int" where "GetTick = opt_tick"
definition GetWheelSize :: "Options \<Rightarrow> int" where "GetWheelSize = opt_wheelSize"
definition GetCode :: "Options \<Rightarrow> ICodec option" where "GetCode = opt_codeImp"

section \<open>Every configuration is usable\<close>

lemmas option_defs = ReusePort_def Network_def Address_def NumLoops_def IdleTime_def CodeImp_def

lemma fill_defaults_fields:
  "opt_Network (opt_net (fill_defaults opts)) =
     (if opt_Network (opt_net opts) = [] then ''tcp'' else opt_Network (opt_net opts))"
  "opt_Address (opt_net (fill_defaults opts)) =
     (if opt_Address (opt_net opts) = [] then '':58800'' else opt_Address (opt_net opts))"
  "opt_ReusePort (opt_net (fill_defaults opts)) = opt_ReusePort (opt_net opts)"
  "opt_NumLoops (fill_defaults opts) = opt_NumLoops opts"
  "opt_tick (fill_defaults opts) = (if opt_tick opts = 0 then 10 ^ 6 else opt_tick opts)"
  "opt_wheelSize (fill_defaults opts) = (if opt_wheelSize opts = 0 then 1000 else opt_wheelSize opts)"
  "opt_IdleTime (fill_defaults opts) = opt_IdleTime opts"
  "opt_codeImp (fill_defaults opts) =
     Some (case opt_codeImp opts of None \<Rightarrow> BuiltInFrameCodec | Some cd \<Rightarrow> cd)"
  by (auto simp: fill_defaults_def option_defs Let_def split: option.splits)

end
