(* ===== verification/Accept.thy ===== *)
theory Accept
  imports EventLoop Options
begin

text \<open>
  \<open>net/accept/accept.go\<close>: the listening socket as an event of the main loop. \<open>net.Listen\<close>,
  \<open>reuseport.Listen\<close>, \<open>TCPListener.File\<close> and \<open>Listener.Close\<close> are the record \<open>netlib\<close> over an
  unknown type of listeners \<open>'l\<close>; \<open>nl_listen\<close> is told whether the port is to be reused.
\<close>

record ('k, 'l) netlib =
  nl_listen :: "bool \<Rightarrow> string \<Rightarrow> string \<Rightarrow> 'k \<Rightarrow> (string + 'l) \<times> 'k"
  nl_is_tcp :: "'l \<Rightarrow> bool"
  nl_file :: "'l \<Rightarrow> 'k \<Rightarrow> (string + int) \<times> 'k"
  nl_close :: "'l \<Rightarrow> 'k \<Rightarrow> string option \<times> 'k"

text \<open>The last error is \<open>errors.New("could not get file descriptor")\<close> of \<open>setFd\<close>.\<close>

datatype accept_error = ErrNet string | ErrRegister errno | ErrNoFileDescriptor

record 'l Accept =
  acc_listener :: 'l
  acc_fd :: int
  acc_event :: Event
  acc_newConnectCallback :: bool

definition setFd ::
  "('k, 'l) netlib \<Rightarrow> 'l \<Rightarrow> ('k, 'z) world_scheme \<Rightarrow> (accept_error + int) \<times> ('k, 'z) world_scheme" where
  "setFd N l w =
     (if \<not> nl_is_tcp N l then (Inl ErrNoFileDescriptor, w)
      else case nl_file N l (kern w) of
             (Inl err, k) \<Rightarrow> (Inl (ErrNet err), w\<lparr>kern := k\<rparr>)
           | (Inr fd, k) \<Rightarrow> (Inr fd, w\<lparr>kern := k\<rparr>))"

definition Accept_New ::
  "('k, 'l) netlib \<Rightarrow> 'k sys \<Rightarrow> NetWorkAndAddressAndOption \<Rightarrow> ('k, 'z) loop_scheme \<Rightarrow>
     (accept_error + 'l Accept) \<times> ('k, 'z) loop_scheme" where
  "Accept_New N S opt w =
     (case nl_listen N (opt_ReusePort opt) (opt_Network opt) (opt_Address opt) (kern w) of
        (Inl err, k) \<Rightarrow> (Inl (ErrNet err), w\<lparr>kern := k\<rparr>)
      | (Inr l, k) \<Rightarrow>
          (case setFd N l (w\<lparr>kern := k\<rparr>) of
             (Inl err, w) \<Rightarrow> (Inl err, w)
           | (Inr fd, w) \<Rightarrow>
               (let e = NewEvent AcceptorEvent fd
                in case Register S e w of
                     (Some err, w) \<Rightarrow> (Inl (ErrRegister err), w)
                   | (None, w) \<Rightarrow>
                       (Inr \<lparr>acc_listener = l, acc_fd = fd,
                             acc_event = SetReadFunc AcceptHandle e,
                             acc_newConnectCallback = False\<rparr>, w))))"

definition Accept_Listen ::
  "'k sys \<Rightarrow> 'l Accept \<Rightarrow> ('k, 'z) loop_scheme \<Rightarrow>
     errno option \<times> 'l Accept \<times> ('k, 'z) loop_scheme" where
  "Accept_Listen S a w = (case EnableReading S True (acc_event a) w of
     (err, e, w) \<Rightarrow> (err, a\<lparr>acc_event := e\<rparr>, w))"

definition SetNewConnectCallback :: "'l Accept \<Rightarrow> 'l Accept" where
  "SetNewConnectCallback a = a\<lparr>acc_newConnectCallback := True\<rparr>"

definition Accept_Close :: "'k sys \<Rightarrow> ('k, 'z) loop_scheme \<Rightarrow> ('k, 'z) loop_scheme" where
  "Accept_Close S w = RunInLoop S TaskAcceptClose w"

text \<open>The function \<open>Close\<close> hands to the loop.\<close>

definition Accept_close_task ::
  "('k, 'l) netlib \<Rightarrow> 'k sys \<Rightarrow> 'l Accept \<Rightarrow> ('k, 'z) loop_scheme \<Rightarrow>
     'l Accept \<times> ('k, 'z) loop_scheme" where
  "Accept_close_task N S a w =
     (let (_, e, w) = DisableAll S (acc_event a) w;
          (_, w) = UnRegister S e w;
          (_, k) = nl_close N (acc_listener a) (kern w)
      in (a\<lparr>acc_event := e\<rparr>, w\<lparr>kern := k\<rparr>))"

definition Accept_SetNonblock ::
  "'k sys \<Rightarrow> 'l Accept \<Rightarrow> ('k, 'z) loop_scheme \<Rightarrow> errno option \<times> ('k, 'z) loop_scheme" where
  "Accept_SetNonblock S a w = sys_set_nonblock S (acc_fd a) w"

text \<open>\<open>AcceptHandle\<close>: \<open>newConnect\<close> is the callback; calling a callback that is not set panics.\<close>

definition Accept_AcceptHandle ::
  "'k sys \<Rightarrow> (int \<Rightarrow> sockaddr \<Rightarrow> ('k, 'z) loop_scheme \<Rightarrow> ('k, 'z) loop_scheme go) \<Rightarrow> 'l Accept \<Rightarrow>
     ('k, 'z) loop_scheme \<Rightarrow> ('k, 'z) loop_scheme go" where
  "Accept_AcceptHandle S newConnect a w = (case k_accept S (acc_fd a) (kern w) of
     (Inl err, k) \<Rightarrow> Ret (w\<lparr>kern := k\<rparr>)
   | (Inr (nfd, sa), k) \<Rightarrow>
       if acc_newConnectCallback a then newConnect nfd sa (w\<lparr>kern := k\<rparr>) else Panic)"

end
