(* ===== verification/Sync.thy ===== *)
theory Sync
  imports Prelude
begin

text \<open>
  \<open>net/protocol/sync.go\<close> and \<open>schedule.go\<close>. \<open>WaitGroupWrapper\<close> starts functions as goroutines and
  waits for all of them; it is modelled as the interleaving of its caller and the goroutines on
  the counter of \<open>sync.WaitGroup\<close>. \<open>Server.Start\<close> uses it to run the loops.
\<close>

section \<open>Goroutines and the counter\<close>

text \<open>Where a goroutine of \<open>AddAndRun\<close> is: in the callback, before \<open>Done\<close>, finished.\<close>

datatype go_pc = InCallback | BeforeDone | Finished

text \<open>Where the caller is: it can call \<open>AddAndRun\<close> (after \<open>Add(1)\<close> comes the \<open>go\<close> statement) and then \<open>Wait\<close>.\<close>

datatype caller_pc = Calling | Added | InWait | Returned

record wait_group =
  wg_counter :: nat
  wg_gos :: "go_pc list"
  wg_caller :: caller_pc

inductive wg_step :: "wait_group \<Rightarrow> wait_group \<Rightarrow> bool" where
  add: "wg_step s (s\<lparr>wg_counter := wg_counter s + 1, wg_caller := Added\<rparr>)" if "wg_caller s = Calling"
| spawn: "wg_step s (s\<lparr>wg_gos := wg_gos s @ [InCallback], wg_caller := Calling\<rparr>)" if "wg_caller s = Added"
| cb_returns: "wg_step s (s\<lparr>wg_gos := (wg_gos s)[i := BeforeDone]\<rparr>)"
    if "i < length (wg_gos s)" and "wg_gos s ! i = InCallback"
| done_step: "wg_step s (s\<lparr>wg_counter := wg_counter s - 1, wg_gos := (wg_gos s)[i := Finished]\<rparr>)"
    if "i < length (wg_gos s)" and "wg_gos s ! i = BeforeDone"
| wait: "wg_step s (s\<lparr>wg_caller := InWait\<rparr>)" if "wg_caller s = Calling"
| wait_returns: "wg_step s (s\<lparr>wg_caller := Returned\<rparr>)" if "wg_caller s = InWait" and "wg_counter s = 0"

definition wg_init :: wait_group where
  "wg_init = \<lparr>wg_counter = 0, wg_gos = [], wg_caller = Calling\<rparr>"

definition EveryScheduler_Next :: "int \<Rightarrow> int \<Rightarrow> int" where
  "EveryScheduler_Next Interval prev = prev + Interval"

section \<open>The counter counts\<close>

definition wg_inv :: "wait_group \<Rightarrow> bool" where
  "wg_inv s \<longleftrightarrow>
     wg_counter s = length (filter (\<lambda>g. g \<noteq> Finished) (wg_gos s)) + (if wg_caller s = Added then 1 else 0) \<and>
     (wg_caller s = Returned \<longrightarrow> wg_counter s = 0)"

lemma length_filter_update:
  "i < length xs \<Longrightarrow>
     length (filter P (xs[i := y])) + (if P (xs ! i) then 1 else 0) =
     length (filter P xs) + (if P y then 1 else 0)"
proof (induction xs arbitrary: i)
  case (Cons x xs)
  show ?case
  proof (cases i)
    case (Suc k)
    then show ?thesis using Cons.IH [of k] Cons.prems by simp
  qed simp
qed simp

lemma wg_step_inv: "wg_step s s' \<Longrightarrow> wg_inv s \<Longrightarrow> wg_inv s'"
proof (induction rule: wg_step.induct)
  case (cb_returns i s)
  with length_filter_update [of i "wg_gos s" "\<lambda>g. g \<noteq> Finished" BeforeDone] show ?case by (auto simp: wg_inv_def)
next
  case (done_step i s)
  with length_filter_update [of i "wg_gos s" "\<lambda>g. g \<noteq> Finished" Finished] show ?case by (auto simp: wg_inv_def)
qed (auto simp: wg_inv_def)

lemma wg_reachable_inv: "wg_step\<^sup>*\<^sup>* wg_init s \<Longrightarrow> wg_inv s"
proof (induction rule: rtranclp_induct)
  case base
  then show ?case by (simp add: wg_init_def wg_inv_def)
next
  case (step s s')
  then show ?case using wg_step_inv by blast
qed

text \<open>C25: \<open>Wait\<close> returns only when every function handed to \<open>AddAndRun\<close> has returned, in every
  interleaving; so \<open>Server.Start\<close> returns only after all its loops have been left.\<close>

theorem wait_after_all:
  assumes "wg_step\<^sup>*\<^sup>* wg_init s" and "wg_caller s = Returned"
  shows "set (wg_gos s) \<subseteq> {Finished}"
  using wg_reachable_inv [OF assms(1)] assms(2) by (auto simp: wg_inv_def filter_empty_conv)

theorem wait_after_all_witness:
  "\<exists>s. wg_step\<^sup>*\<^sup>* wg_init s \<and> wg_caller s = Returned \<and> wg_gos s = [Finished] \<and> set (wg_gos s) \<subseteq> {Finished}"
proof -
  let ?s = "\<lambda>n gs c. \<lparr>wg_counter = n, wg_gos = gs, wg_caller = c\<rparr>"
  have "wg_step\<^sup>*\<^sup>* wg_init (?s 0 [] Calling)" by (simp add: wg_init_def)
  then have "wg_step\<^sup>*\<^sup>* wg_init (?s 1 [] Added)"
    using wg_step.add [of "?s 0 [] Calling"] by (simp add: rtranclp.rtrancl_into_rtrancl)
  then have "wg_step\<^sup>*\<^sup>* wg_init (?s 1 [InCallback] Calling)"
    using wg_step.spawn [of "?s 1 [] Added"] by (simp add: rtranclp.rtrancl_into_rtrancl)
  then have "wg_step\<^sup>*\<^sup>* wg_init (?s 1 [InCallback] InWait)"
    using wg_step.wait [of "?s 1 [InCallback] Calling"] by (simp add: rtranclp.rtrancl_into_rtrancl)
  then have "wg_step\<^sup>*\<^sup>* wg_init (?s 1 [BeforeDone] InWait)"
    using wg_step.cb_returns [of 0 "?s 1 [InCallback] InWait"] by (simp add: rtranclp.rtrancl_into_rtrancl)
  then have "wg_step\<^sup>*\<^sup>* wg_init (?s 0 [Finished] InWait)"
    using wg_step.done_step [of 0 "?s 1 [BeforeDone] InWait"] by (simp add: rtranclp.rtrancl_into_rtrancl)
  then have "wg_step\<^sup>*\<^sup>* wg_init (?s 0 [Finished] Returned)"
    using wg_step.wait_returns [of "?s 0 [Finished] InWait"] by (simp add: rtranclp.rtrancl_into_rtrancl)
  from wait_after_all [OF this] this show ?thesis by (intro exI [of _ "?s 0 [Finished] Returned"]) simp
qed

end
