(* ===== verification/Server.thy ===== *)
theory Server
  imports ConnSystem Accept Sync
begin

text \<open>
  \<open>net/server/server.go\<close> and \<open>reference.go\<close>: the acceptor on the main loop hands each new
  connection to the next sub loop. A \<open>server\<close> is the state of the whole program with the fields
  of one loop in view: the loop whose goroutine is running. The others are parked in \<open>loops\<close>
  (0 is the main loop, \<open>Suc j\<close> is \<open>subLoops[j]\<close>); \<open>on_loop\<close> brings another loop into view, as
  a call of its methods does. Connections live in the heap \<open>conns\<close>.
\<close>

section \<open>State\<close>

record loop_core =
  core_SequenceID :: int
  core_eventPool :: "int \<rightharpoonup> eventptr"
  core_multi :: Multiplex
  core_loopFunctions :: "task list"
  core_running :: "32 word"

record ('k, 'rb, 'bb, 'l) server = "'k loop" +
  options :: Options
  tcpAccept :: "'l Accept"
  connectPool :: "string \<rightharpoonup> nat"
  nextLoopIndex :: int
  current :: nat
  loops :: "loop_core list"
  conns :: "nat \<rightharpoonup> ('rb, 'bb) conn"
  conn_loop :: "nat \<Rightarrow> nat"
  next_conn :: nat

definition core_of :: "('k, 'z) loop_scheme \<Rightarrow> loop_core" where
  "core_of w =
     \<lparr>core_SequenceID = SequenceID w, core_eventPool = eventPool w, core_multi = multi w,
      core_loopFunctions = loopFunctions w, core_running = running w\<rparr>"

definition load_core :: "loop_core \<Rightarrow> ('k, 'z) loop_scheme \<Rightarrow> ('k, 'z) loop_scheme" where
  "load_core k w =
     w\<lparr>SequenceID := core_SequenceID k, eventPool := core_eventPool k, multi := core_multi k,
       loopFunctions := core_loopFunctions k, running := core_running k\<rparr>"

definition switch_to :: "nat \<Rightarrow> ('k, 'rb, 'bb, 'l) server \<Rightarrow> ('k, 'rb, 'bb, 'l) server" where
  "switch_to j w =
     (let ls = (loops w)[current w := core_of w]
      in load_core (ls ! j) (w\<lparr>loops := ls, current := j\<rparr>))"

definition on_loop ::
  "nat \<Rightarrow> (('k, 'rb, 'bb, 'l) server \<Rightarrow> ('k, 'rb, 'bb, 'l) server) \<Rightarrow>
     ('k, 'rb, 'bb, 'l) server \<Rightarrow> ('k, 'rb, 'bb, 'l) server" where
  "on_loop j f w = (if j = current w then f w else switch_to (current w) (f (switch_to j w)))"

definition put_conn :: "nat \<Rightarrow> ('rb, 'bb) conn \<Rightarrow> ('k, 'rb, 'bb, 'l) server \<Rightarrow> ('k, 'rb, 'bb, 'l) server" where
  "put_conn i c w = w\<lparr>conns := (conns w)(i \<mapsto> c)\<rparr>"

definition n_subLoops :: "('k, 'rb, 'bb, 'l) server \<Rightarrow> int" where
  "n_subLoops w = int (length (loops w)) - 1"

section \<open>The handler interface\<close>

text \<open>\<open>IHandleEvent\<close>; like the callbacks of a connection, they return the calls they make.\<close>

record ('rb, 'bb, 'w) handle_event =
  ConnectCallback :: "('rb, 'bb) conn \<Rightarrow> 'w \<Rightarrow> api list \<times> 'w"
  MessageCallback :: "('rb, 'bb) conn \<Rightarrow> bytes \<Rightarrow> 'w \<Rightarrow> (bytes option \<times> api list) \<times> 'w"
  WriteCompletCallback :: "('rb, 'bb) conn \<Rightarrow> 'w \<Rightarrow> api list \<times> 'w"
  ConnectCloseCallback :: "('rb, 'bb) conn \<Rightarrow> 'w \<Rightarrow> api list \<times> 'w"

definition HandleEventImpl :: "('rb, 'bb, 'w) handle_event" where
  "HandleEventImpl =
     \<lparr>ConnectCallback = (\<lambda>c w. ([], w)), MessageCallback = (\<lambda>c b w. ((None, []), w)),
      WriteCompletCallback = (\<lambda>c w. ([], w)), ConnectCloseCallback = (\<lambda>c w. ([], w))\<rparr>"

section \<open>The pool of connections and the choice of a loop\<close>

definition addConnect ::
  "string \<Rightarrow> nat \<Rightarrow> ('k, 'rb, 'bb, 'l) server \<Rightarrow> ('k, 'rb, 'bb, 'l) server" where
  "addConnect name i w = w\<lparr>connectPool := (connectPool w)(name \<mapsto> i)\<rparr>"

definition removeConnect :: "string \<Rightarrow> ('k, 'rb, 'bb, 'l) server \<Rightarrow> ('k, 'rb, 'bb, 'l) server" where
  "removeConnect name w =
     (if connectPool w name \<noteq> None then w\<lparr>connectPool := (connectPool w)(name := None)\<rparr> else w)"

definition connectCloseEvent ::
  "('rb, 'bb, ('k, 'rb, 'bb, 'l) server) handle_event \<Rightarrow> ('rb, 'bb) conn \<Rightarrow>
     ('k, 'rb, 'bb, 'l) server \<Rightarrow> api list \<times> ('k, 'rb, 'bb, 'l) server" where
  "connectCloseEvent H c w =
     (let (acts, w) = ConnectCloseCallback H c w in (acts, removeConnect (PeerAddr c) w))"

text \<open>The callbacks \<open>newConnected\<close> gives every connection.\<close>

definition server_app ::
  "('rb, 'bb, ('k, 'rb, 'bb, 'l) server) handle_event \<Rightarrow>
     ('rb, 'bb, ('k, 'rb, 'bb, 'l) server) app" where
  "server_app H =
     \<lparr>on_message = MessageCallback H, on_close = connectCloseEvent H,
      on_write_complete = WriteCompletCallback H\<rparr>"

text \<open>The index of the chosen loop in \<open>loops\<close>; indexing an empty \<open>subLoops\<close> panics.\<close>

definition getOneLoopFromPool ::
  "('k, 'rb, 'bb, 'l) server \<Rightarrow> (nat \<times> ('k, 'rb, 'bb, 'l) server) go" where
  "getOneLoopFromPool w =
     (if 0 \<le> nextLoopIndex w \<and> nextLoopIndex w < n_subLoops w
      then Ret (Suc (nat (nextLoopIndex w)),
                w\<lparr>nextLoopIndex := (nextLoopIndex w + 1) mod n_subLoops w\<rparr>)
      else Panic)"

section \<open>A new connection\<close>

text \<open>
  \<open>P i\<close> are the two buffers \<open>pool.Get\<close> gives for connection \<open>i\<close>. \<open>NewOptions\<close> never leaves the
  codec nil (\<open>fill_defaults_fields\<close>), so that case stands for the nil dereference it would be.
\<close>

definition newConnected ::
  "('rb, 'bb) bufs \<Rightarrow> 'k sys \<Rightarrow> (nat \<Rightarrow> 'rb \<times> 'rb) \<Rightarrow> int \<Rightarrow> sockaddr \<Rightarrow>
     ('k, 'rb, 'bb, 'l) server \<Rightarrow> ('k, 'rb, 'bb, 'l) server go" where
  "newConnected R S P fd sa w = do {
     (j, w) \<leftarrow> getOneLoopFromPool w;
     codec \<leftarrow> GetCode (options w);
     let i = next_conn w;
     (case Connect_New R S i fd sa (opt_IdleTime (options w)) codec (fst (P i)) (snd (P i))
             (w\<lparr>next_conn := Suc i\<rparr>) of
        (Inl err, w) \<Rightarrow> Ret w
      | (Inr c, w) \<Rightarrow>
          (let w = addConnect (PeerAddr c) i w;
               c = SetMessageCallback c;
               c = SetConnectCloseCallback c;
               c = SetWriteCompleteCallback c;
               w = (put_conn i c w)\<lparr>conn_loop := (conn_loop w)(i := j)\<rparr>
           in Ret (on_loop j (RunInLoop S (TaskConnected i)) w)))
   }"

text \<open>The function \<open>newConnected\<close> hands to the loop of the connection.\<close>

definition connected_task ::
  "'k sys \<Rightarrow> ('rb, 'bb, ('k, 'rb, 'bb, 'l) server) handle_event \<Rightarrow> nat \<Rightarrow> ('rb, 'bb) conn \<Rightarrow>
     ('k, 'rb, 'bb, 'l) server \<Rightarrow> ('rb, 'bb) conn \<times> ('k, 'rb, 'bb, 'l) server" where
  "connected_task S H i c w =
     (let (err, c, w) = ConnectedHandle S c w;
          w = (if err \<noteq> None then removeConnect (PeerAddr c) (snd (Connect_Close S c w)) else w);
          (acts, w) = ConnectCallback H c (emit (EffConnect i) w)
      in run_api S acts c w)"

section \<open>Dispatch: what the closures of events and queued functions do\<close>

definition server_deref :: "eventptr \<Rightarrow> ('k, 'rb, 'bb, 'l) server \<Rightarrow> Event option" where
  "server_deref p w = (case p of
     AcceptorEvent \<Rightarrow> Some (acc_event (tcpAccept w))
   | ConnEvent i \<Rightarrow> map_option event (conns w i))"

definition server_handler ::
  "('rb, 'bb) bufs \<Rightarrow> 'k sys \<Rightarrow> (nat \<Rightarrow> 'rb \<times> 'rb) \<Rightarrow>
   ('rb, 'bb, ('k, 'rb, 'bb, 'l) server) handle_event \<Rightarrow> handler \<Rightarrow>
     ('k, 'rb, 'bb, 'l) server \<Rightarrow> ('k, 'rb, 'bb, 'l) server go" where
  "server_handler R S P H h w = (case handler_conn h of
     None \<Rightarrow> Accept_AcceptHandle S (newConnected R S P) (tcpAccept w) w
   | Some i \<Rightarrow> do {
       c \<leftarrow> conns w i;
       (c, w) \<leftarrow> run_handler R S (server_app H) h c w;
       Ret (put_conn i c w)
     })"

definition server_task ::
  "('k, 'l) netlib \<Rightarrow> ('rb, 'bb) bufs \<Rightarrow> 'k sys \<Rightarrow>
   ('rb, 'bb, ('k, 'rb, 'bb, 'l) server) handle_event \<Rightarrow> task \<Rightarrow>
     ('k, 'rb, 'bb, 'l) server \<Rightarrow> ('k, 'rb, 'bb, 'l) server go" where
  "server_task N R S H t w = (case task_conn t of
     None \<Rightarrow> (let (a, w) = Accept_close_task N S (tcpAccept w) w in Ret (w\<lparr>tcpAccept := a\<rparr>))
   | Some i \<Rightarrow> do {
       c \<leftarrow> conns w i;
       let (c, w) = (if t = TaskConnected i then connected_task S H i c w
                     else run_task R S (server_app H) t c w);
       Ret (put_conn i c w)
     })"

text \<open>One pass of the loop in view, with the handlers and functions of the whole server.\<close>

definition server_pass ::
  "('k, 'l) netlib \<Rightarrow> ('rb, 'bb) bufs \<Rightarrow> 'k sys \<Rightarrow> (nat \<Rightarrow> 'rb \<times> 'rb) \<Rightarrow>
   ('rb, 'bb, ('k, 'rb, 'bb, 'l) server) handle_event \<Rightarrow>
     ('k, 'rb, 'bb, 'l) server \<Rightarrow> (bool \<times> ('k, 'rb, 'bb, 'l) server) go" where
  "server_pass N R S P H w =
     Run_pass S server_deref (server_handler R S P H) (server_task N R S H) w"

section \<open>Creation, start and stop\<close>

text \<open>
  \<open>Stop\<close> of a loop up to the point where it waits for the loop's goroutine (which then leaves,
  see \<open>LoopProtocol\<close>), and what it does after that.
\<close>

definition EventLoop_Stop_request :: "('k, 'z) loop_scheme \<Rightarrow> bool \<times> ('k, 'z) loop_scheme" where
  "EventLoop_Stop_request w =
     (if \<not> Bool_Get (running w) then (False, w)
      else (True, w\<lparr>running := snd (Bool_Set False (running w))\<rparr>))"

text \<open>
  The sub loops \<open>New\<close> creates, numbered from \<open>i\<close>. When one cannot be created, \<open>Stop\<close> is called on
  the ones before it, which never ran: it only returns \<open>ErrClosed\<close>.
\<close>

fun new_subLoops ::
  "'k sys \<Rightarrow> int \<Rightarrow> nat \<Rightarrow> 'k world \<Rightarrow> (errno + loop_core list) \<times> 'k world" where
  "new_subLoops S i 0 w = (Inr [], w)"
| "new_subLoops S i (Suc n) w = (case EventLoop_New S i w of
     (Inl err, w) \<Rightarrow> (Inl err, w)
   | (Inr l, w) \<Rightarrow>
       (case new_subLoops S (i + 1) n w of
          (Inl err, w) \<Rightarrow> (Inl err, w)
        | (Inr ls, w) \<Rightarrow> (Inr (core_of l # ls), w)))"

definition world_of :: "('k, 'z) loop_scheme \<Rightarrow> 'k world" where
  "world_of w = \<lparr>kern = kern w, trace = trace w\<rparr>"

datatype server_error = ErrLoop errno | ErrAccept accept_error

definition Server_New ::
  "('k, 'l) netlib \<Rightarrow> 'k sys \<Rightarrow> int \<Rightarrow> Option list \<Rightarrow> 'k world \<Rightarrow>
     (server_error + ('k, 'rb, 'bb, 'l) server) \<times> 'k world" where
  "Server_New N S numCPU opts w = (case EventLoop_New S (- 1) w of
     (Inl err, w) \<Rightarrow> (Inl (ErrLoop err), w)
   | (Inr m, w) \<Rightarrow>
       (let o' = NewOptions opts
        in case Accept_New N S (GetNet o') m of
             (Inl err, m) \<Rightarrow> (Inl (ErrAccept err), world_of m)
           | (Inr a, m) \<Rightarrow>
               (let a = SetNewConnectCallback a;
                    o' = (if opt_NumLoops o' \<le> 0 then o'\<lparr>opt_NumLoops := numCPU\<rparr> else o')
                in case new_subLoops S 0 (nat (opt_NumLoops o')) (world_of m) of
                     (Inl err, w) \<Rightarrow> (Inl (ErrLoop err), w)
                   | (Inr ls, w) \<Rightarrow>
                       (Inr \<lparr>kern = kern w, trace = trace w, SequenceID = SequenceID m,
                             eventPool = eventPool m, multi = multi m,
                             loopFunctions = loopFunctions m, running = running m,
                             options = o', tcpAccept = a, connectPool = Map.empty,
                             nextLoopIndex = 0, current = 0, loops = core_of m # ls,
                             conns = Map.empty, conn_loop = (\<lambda>_. 0), next_conn = 0\<rparr>, w))))"

text \<open>
  \<open>Start\<close> up to the point where the loops run; an error from \<open>Listen\<close> is a panic. \<open>tw\<close> is what
  starting the timing wheel does (below: what stopping it does).
\<close>

definition Server_Start ::
  "('k \<Rightarrow> 'k) \<Rightarrow> 'k sys \<Rightarrow> ('k, 'rb, 'bb, 'l) server \<Rightarrow> ('k, 'rb, 'bb, 'l) server go" where
  "Server_Start tw S w =
     (let w = w\<lparr>kern := tw (kern w)\<rparr>
      in case Accept_Listen S (tcpAccept w) w of
           (Some err, a, w) \<Rightarrow> Panic
         | (None, a, w) \<Rightarrow> Ret (w\<lparr>tcpAccept := a\<rparr>))"

text \<open>
  \<open>Stop\<close> up to the point where it stops the loops: the acceptor and all connections of the pool
  are asked to close, the connections in the order in which the map is traversed.
\<close>

fun close_conns ::
  "'k sys \<Rightarrow> nat list \<Rightarrow> ('k, 'rb, 'bb, 'l) server \<Rightarrow> ('k, 'rb, 'bb, 'l) server" where
  "close_conns S [] w = w"
| "close_conns S (i # is) w = (case conns w i of
     None \<Rightarrow> close_conns S is w
   | Some c \<Rightarrow> close_conns S is (on_loop (conn_loop w i) (\<lambda>w. snd (Connect_Close S c w)) w))"

definition Server_Stop_request ::
  "('k \<Rightarrow> 'k) \<Rightarrow> 'k sys \<Rightarrow> nat list \<Rightarrow> ('k, 'rb, 'bb, 'l) server \<Rightarrow> ('k, 'rb, 'bb, 'l) server" where
  "Server_Stop_request tw S order w =
     (let w = w\<lparr>kern := tw (kern w)\<rparr>
      in close_conns S order (on_loop 0 (Accept_Close S) w))"

text \<open>The loops that \<open>Start\<close> hands to \<open>AddAndRun\<close>, in order: the sub loops, then the main loop.\<close>

definition Start_loops :: "('k, 'rb, 'bb, 'l) server \<Rightarrow> nat list" where
  "Start_loops w = map Suc [0 ..< nat (n_subLoops w)] @ [0]"

lemma Start_loops_all: "0 < length (loops w) \<Longrightarrow> set (Start_loops w) = {..< length (loops w)} \<and> distinct (Start_loops w)"
proof -
  have "{..< Suc m} = insert 0 (Suc ` {..< m})" for m by (rule lessThan_Suc_eq_insert_0)
  from this [of "length (loops w) - 1"] show "0 < length (loops w) \<Longrightarrow> ?thesis"
    by (auto simp: Start_loops_def n_subLoops_def distinct_map nat_diff_distrib atLeast0LessThan)
qed

section \<open>Timers\<close>

text \<open>
  The timing wheel (\<open>github.com/RussellLuo/timingwheel\<close>): \<open>tw_ScheduleFunc\<close> is given the function
  from the previous expiration to the next. Creating the wheel has no effect on the server.
\<close>

record ('k, 'f, 't) timing_wheel =
  tw_Start :: "'k \<Rightarrow> 'k"
  tw_Stop :: "'k \<Rightarrow> 'k"
  tw_AfterFunc :: "int \<Rightarrow> 'f \<Rightarrow> 'k \<Rightarrow> 't \<times> 'k"
  tw_ScheduleFunc :: "(int \<Rightarrow> int) \<Rightarrow> 'f \<Rightarrow> 'k \<Rightarrow> 't \<times> 'k"

definition Server_RunAfter ::
  "('k, 'f, 't) timing_wheel \<Rightarrow> int \<Rightarrow> 'f \<Rightarrow> ('k, 'rb, 'bb, 'l) server \<Rightarrow> 't \<times> ('k, 'rb, 'bb, 'l) server" where
  "Server_RunAfter T d f w = (case tw_AfterFunc T d f (kern w) of (t, k) \<Rightarrow> (t, w\<lparr>kern := k\<rparr>))"

definition Server_RunEvery ::
  "('k, 'f, 't) timing_wheel \<Rightarrow> int \<Rightarrow> 'f \<Rightarrow> ('k, 'rb, 'bb, 'l) server \<Rightarrow> 't \<times> ('k, 'rb, 'bb, 'l) server" where
  "Server_RunEvery T d f w =
     (case tw_ScheduleFunc T (EveryScheduler_Next d) f (kern w) of (t, k) \<Rightarrow> (t, w\<lparr>kern := k\<rparr>))"

text \<open>The expirations of \<open>RunEvery\<close> do not drift.\<close>

lemma EveryScheduler_iterate: "(EveryScheduler_Next d ^^ n) t = t + int n * d"
  by (induction n) (simp_all add: EveryScheduler_Next_def algebra_simps)

end
