(* ===== verification/ServerLemmas.thy ===== *)
theory ServerLemmas
  imports Server ConnLife
begin

text \<open>
  What the server promises: connections go to the sub loops in turn, a connection that closes
  leaves the pool, and what becomes of a connection that cannot be registered.
\<close>

section \<open>Bringing loops into view\<close>

lemma load_core_fields [simp]:
  "kern (load_core k w) = kern w" "trace (load_core k w) = trace w"
  "eventPool (load_core k w) = core_eventPool k" "multi (load_core k w) = core_multi k"
  "loopFunctions (load_core k w) = core_loopFunctions k" "running (load_core k w) = core_running k"
  by (simp_all add: load_core_def)

lemma load_core_server [simp]:
  "options (load_core k w) = options w" "tcpAccept (load_core k w) = tcpAccept w"
  "connectPool (load_core k w) = connectPool w" "nextLoopIndex (load_core k w) = nextLoopIndex w"
  "current (load_core k w) = current w" "loops (load_core k w) = loops w"
  "conns (load_core k w) = conns w" "conn_loop (load_core k w) = conn_loop w"
  "next_conn (load_core k w) = next_conn w"
  for w :: "('k, 'rb, 'bb, 'l) server"
  by (simp_all add: load_core_def)

lemma switch_to_fields [simp]:
  "kern (switch_to j w) = kern w" "trace (switch_to j w) = trace w"
  "options (switch_to j w) = options w" "tcpAccept (switch_to j w) = tcpAccept w"
  "connectPool (switch_to j w) = connectPool w" "nextLoopIndex (switch_to j w) = nextLoopIndex w"
  "current (switch_to j w) = j" "length (loops (switch_to j w)) = length (loops w)"
  "conns (switch_to j w) = conns w" "conn_loop (switch_to j w) = conn_loop w"
  "next_conn (switch_to j w) = next_conn w"
  by (simp_all add: switch_to_def Let_def)

text \<open>The parts of a server that no loop owns.\<close>

definition same_server :: "('k, 'rb, 'bb, 'l) server \<Rightarrow> ('k, 'rb, 'bb, 'l) server \<Rightarrow> bool" where
  "same_server w v \<longleftrightarrow>
     options v = options w \<and> tcpAccept v = tcpAccept w \<and> connectPool v = connectPool w \<and>
     nextLoopIndex v = nextLoopIndex w \<and> current v = current w \<and>
     length (loops v) = length (loops w) \<and> conns v = conns w \<and> conn_loop v = conn_loop w \<and>
     next_conn v = next_conn w"

lemma same_server_refl [simp]: "same_server w w"
  by (simp add: same_server_def)

lemma same_server_trans: "same_server w v \<Longrightarrow> same_server v u \<Longrightarrow> same_server w u"
  by (simp add: same_server_def)

lemma same_server_on_loop:
  assumes "\<And>u. same_server u (f u)"
  shows "same_server w (on_loop j f w)"
  using assms [of w] assms [of "switch_to j w"] by (simp add: same_server_def on_loop_def)

lemma same_server_emit [simp]: "same_server w (emit e v) = same_server w v"
  by (simp add: same_server_def emit_def)

lemma RunInLoop_same_server: "same_server w (RunInLoop S f w)"
  by (auto simp: same_server_def RunInLoop_def Multiplex_Wake_def sys_write_def emit_def
      split: prod.splits sum.splits)

lemma Connect_New_same_server:
  "Connect_New R S i fd sa idle cd o0 i0 w = (r, v) \<Longrightarrow> same_server w v"
  by (auto simp: same_server_def Connect_New_def setNoDelay_def sys_set_nonblock_def sys_close_def
      emit_def Let_def split: prod.splits option.splits if_splits)

section \<open>Round robin\<close>

definition lb_ok :: "('k, 'rb, 'bb, 'l) server \<Rightarrow> bool" where
  "lb_ok w \<longleftrightarrow> 0 \<le> nextLoopIndex w \<and> nextLoopIndex w < n_subLoops w"

text \<open>One accepted connection: the index moves on, and a connection that was created got the
  loop the index pointed at.\<close>

lemma newConnected_turn:
  assumes lb: "lb_ok w" and s: "newConnected R S P fd sa w = Ret v"
  shows "lb_ok v" "nextLoopIndex v = (nextLoopIndex w + 1) mod n_subLoops w"
    "n_subLoops v = n_subLoops w" "next_conn v = Suc (next_conn w)"
    "\<forall>i. i \<noteq> next_conn w \<longrightarrow> conns v i = conns w i \<and> conn_loop v i = conn_loop w i"
    "conns v (next_conn w) \<noteq> conns w (next_conn w) \<Longrightarrow>
       conn_loop v (next_conn w) = Suc (nat (nextLoopIndex w))"
proof -
  let ?w = "w\<lparr>nextLoopIndex := (nextLoopIndex w + 1) mod n_subLoops w\<rparr>"
  let ?w1 = "?w\<lparr>next_conn := Suc (next_conn w)\<rparr>"
  obtain codec where codec: "GetCode (options w) = Some codec"
    using s lb by (auto simp: newConnected_def getOneLoopFromPool_def lb_ok_def bind_eq_Some_conv)
  obtain r w2 where new: "Connect_New R S (next_conn w) fd sa (opt_IdleTime (options w)) codec
      (fst (P (next_conn w))) (snd (P (next_conn w))) ?w1 = (r, w2)" by fastforce
  have 2: "same_server ?w1 w2" using Connect_New_same_server [OF new] .
  have idx: "0 \<le> (nextLoopIndex w + 1) mod n_subLoops w" "(nextLoopIndex w + 1) mod n_subLoops w < n_subLoops w"
    using lb by (simp_all add: lb_ok_def)
  define i where "i = next_conn w"
  define j where "j = Suc (nat (nextLoopIndex w))"
  have v: "v = w2 \<or> (\<exists>c a. v = on_loop j (RunInLoop S (TaskConnected i))
      ((put_conn i c (addConnect a i w2))\<lparr>conn_loop := (conn_loop w2)(i := j)\<rparr>))"
    using s lb codec new
    by (auto simp: newConnected_def getOneLoopFromPool_def lb_ok_def i_def j_def addConnect_def
        SetMessageCallback_def SetConnectCloseCallback_def SetWriteCompleteCallback_def PeerAddr_def
        Let_def split: sum.splits)
  have run: "same_server u (on_loop j (RunInLoop S (TaskConnected i)) u)" for u
    by (rule same_server_on_loop) (rule RunInLoop_same_server)
  have "nextLoopIndex v = (nextLoopIndex w + 1) mod n_subLoops w \<and> n_subLoops v = n_subLoops w \<and>
    next_conn v = Suc (next_conn w) \<and>
    (\<forall>k. k \<noteq> i \<longrightarrow> conns v k = conns w k \<and> conn_loop v k = conn_loop w k) \<and>
    (conns v i \<noteq> conns w i \<longrightarrow> conn_loop v i = j)"
    using v
  proof (elim disjE exE)
    assume "v = w2"
    with 2 show ?thesis by (simp add: same_server_def n_subLoops_def)
  next
    fix c a
    assume "v = on_loop j (RunInLoop S (TaskConnected i))
      ((put_conn i c (addConnect a i w2))\<lparr>conn_loop := (conn_loop w2)(i := j)\<rparr>)"
    with run [of "(put_conn i c (addConnect a i w2))\<lparr>conn_loop := (conn_loop w2)(i := j)\<rparr>"] 2
    show ?thesis by (simp add: same_server_def n_subLoops_def put_conn_def addConnect_def)
  qed
  with idx show "lb_ok v" "nextLoopIndex v = (nextLoopIndex w + 1) mod n_subLoops w"
    "n_subLoops v = n_subLoops w" "next_conn v = Suc (next_conn w)"
    "\<forall>k. k \<noteq> next_conn w \<longrightarrow> conns v k = conns w k \<and> conn_loop v k = conn_loop w k"
    "conns v (next_conn w) \<noteq> conns w (next_conn w) \<Longrightarrow>
       conn_loop v (next_conn w) = Suc (nat (nextLoopIndex w))"
    by (simp_all add: lb_ok_def i_def j_def)
qed

text \<open>A socket that can be set up becomes a pooled connection.\<close>

lemma newConnected_creates:
  assumes lb: "lb_ok w" and cd: "GetCode (options w) = Some cd"
    and nb: "\<And>k. \<exists>k'. k_set_nonblock S fd k = (None, k')"
  shows "\<exists>v c. newConnected R S P fd sa w = Ret v \<and> conns v (next_conn w) = Some c \<and>
    connectPool v (sockAddrToString sa) = Some (next_conn w) \<and> options v = options w"
proof -
  define i where "i = next_conn w"
  define j where "j = Suc (nat (nextLoopIndex w))"
  let ?w = "w\<lparr>nextLoopIndex := (nextLoopIndex w + 1) mod n_subLoops w\<rparr>"
  let ?w1 = "?w\<lparr>next_conn := Suc i\<rparr>"
  obtain r w2 where new: "Connect_New R S i fd sa (opt_IdleTime (options w)) cd
      (fst (P i)) (snd (P i)) ?w1 = (r, w2)" by fastforce
  obtain c where c: "r = Inr c" "peerAddr c = sockAddrToString sa"
    using new nb
    by (auto simp: Connect_New_def setNoDelay_def sys_set_nonblock_def updateActivityTime_def emit_def
        Let_def split: prod.splits option.splits if_splits) (metis prod.inject option.distinct(1))+
  have 2: "same_server ?w1 w2" using Connect_New_same_server [OF new] .
  define c1 where "c1 = SetWriteCompleteCallback (SetConnectCloseCallback (SetMessageCallback c))"
  define u where "u = (put_conn i c1 (addConnect (PeerAddr c) i w2))\<lparr>conn_loop := (conn_loop w2)(i := j)\<rparr>"
  have "newConnected R S P fd sa w = Ret (on_loop j (RunInLoop S (TaskConnected i)) u)"
    using lb cd new c
    by (simp add: newConnected_def getOneLoopFromPool_def lb_ok_def i_def j_def u_def c1_def
        addConnect_def Let_def)
  moreover have "same_server u (on_loop j (RunInLoop S (TaskConnected i)) u)"
    by (rule same_server_on_loop) (rule RunInLoop_same_server)
  moreover have "conns u i = Some c1" "connectPool u (sockAddrToString sa) = Some i" "options u = options w"
    using 2 c by (simp_all add: u_def put_conn_def addConnect_def PeerAddr_def same_server_def)
  ultimately show ?thesis by (metis i_def same_server_def)
qed

text \<open>A series of accepted connections.\<close>

fun accept_all ::
  "('rb, 'bb) bufs \<Rightarrow> 'k sys \<Rightarrow> (nat \<Rightarrow> 'rb \<times> 'rb) \<Rightarrow> (int \<times> sockaddr) list \<Rightarrow>
     ('k, 'rb, 'bb, 'l) server \<Rightarrow> ('k, 'rb, 'bb, 'l) server go" where
  "accept_all R S P [] w = Ret w"
| "accept_all R S P ((fd, sa) # as) w = do { w \<leftarrow> newConnected R S P fd sa w; accept_all R S P as w }"

lemma accept_all_turns:
  "lb_ok w \<Longrightarrow> accept_all R S P as w = Ret v \<Longrightarrow>
     nextLoopIndex v = (nextLoopIndex w + int (length as)) mod n_subLoops w \<and>
     (\<forall>i < next_conn w. conn_loop v i = conn_loop w i \<and> conns v i = conns w i) \<and>
     (\<forall>m < length as. conns v (next_conn w + m) \<noteq> conns w (next_conn w + m) \<longrightarrow>
        conn_loop v (next_conn w + m) = Suc (nat ((nextLoopIndex w + int m) mod n_subLoops w)))"
proof (induction as arbitrary: w)
  case Nil
  then show ?case by (simp add: lb_ok_def)
next
  case (Cons a as)
  obtain fd sa where a: "a = (fd, sa)" by fastforce
  with Cons.prems obtain u where u: "newConnected R S P fd sa w = Ret u" "accept_all R S P as u = Ret v"
    by (auto simp: bind_eq_Some_conv)
  note t = newConnected_turn [OF Cons.prems(1) u(1)]
  note ih = Cons.IH [OF t(1) u(2)]
  let ?n = "n_subLoops w"
  have idx: "(nextLoopIndex u + int m) mod ?n = (nextLoopIndex w + int (Suc m)) mod ?n" for m
    by (simp add: t(2) mod_simps ac_simps)
  have now: "conn_loop v (next_conn w) = Suc (nat (nextLoopIndex w))"
    if "conns v (next_conn w) \<noteq> conns w (next_conn w)"
  proof -
    have "conns v (next_conn w) = conns u (next_conn w) \<and> conn_loop v (next_conn w) = conn_loop u (next_conn w)"
      using ih t(4) by simp
    with that t(6) show ?thesis by simp
  qed
  have later: "conn_loop v (next_conn w + Suc m) = Suc (nat ((nextLoopIndex w + int (Suc m)) mod ?n))"
    if "m < length as" "conns v (next_conn w + Suc m) \<noteq> conns w (next_conn w + Suc m)" for m
  proof -
    have "conns u (next_conn w + Suc m) = conns w (next_conn w + Suc m)" using t(5) by simp
    with that ih t(3,4) idx [of m] show ?thesis by simp
  qed
  have lt: "nextLoopIndex w mod ?n = nextLoopIndex w" using Cons.prems(1) by (simp add: lb_ok_def)
  have "conn_loop v (next_conn w + m) = Suc (nat ((nextLoopIndex w + int m) mod ?n))"
    if "m < length (a # as)" "conns v (next_conn w + m) \<noteq> conns w (next_conn w + m)" for m
    using that now later [of "m - 1"] lt by (cases m) simp_all
  moreover have "nextLoopIndex v = (nextLoopIndex w + int (length (a # as))) mod ?n"
    using ih idx [of "length as"] t(3) by simp
  moreover have "\<forall>i < next_conn w. conn_loop v i = conn_loop w i \<and> conns v i = conns w i"
    using ih t(4,5) by simp
  ultimately show ?case by blast
qed

section \<open>Application handlers\<close>

text \<open>What is asked of the application: it acts on the server only through the connection's
  methods, and keeps its own state elsewhere (in \<open>'k\<close>).\<close>

definition handle_ok :: "('rb, 'bb, ('k, 'rb, 'bb, 'l) server) handle_event \<Rightarrow> bool" where
  "handle_ok H \<longleftrightarrow>
     (\<forall>c w. \<exists>as k. ConnectCallback H c w = (as, w\<lparr>kern := k\<rparr>)) \<and>
     (\<forall>c f w. \<exists>r k. MessageCallback H c f w = (r, w\<lparr>kern := k\<rparr>)) \<and>
     (\<forall>c w. \<exists>as k. WriteCompletCallback H c w = (as, w\<lparr>kern := k\<rparr>)) \<and>
     (\<forall>c w. \<exists>as k. ConnectCloseCallback H c w = (as, w\<lparr>kern := k\<rparr>))"

lemma handle_okD:
  assumes "handle_ok H"
  shows "ConnectCallback H c w = (as, w') \<Longrightarrow> \<exists>k. w' = w\<lparr>kern := k\<rparr>"
    "MessageCallback H c f w = (r, w') \<Longrightarrow> \<exists>k. w' = w\<lparr>kern := k\<rparr>"
    "WriteCompletCallback H c w = (as, w') \<Longrightarrow> \<exists>k. w' = w\<lparr>kern := k\<rparr>"
    "ConnectCloseCallback H c w = (as, w') \<Longrightarrow> \<exists>k. w' = w\<lparr>kern := k\<rparr>"
  using assms unfolding handle_ok_def by (metis Pair_inject)+

lemma removeConnect_fields [simp]:
  "kern (removeConnect a w) = kern w" "trace (removeConnect a w) = trace w"
  "eventPool (removeConnect a w) = eventPool w" "multi (removeConnect a w) = multi w"
  "loopFunctions (removeConnect a w) = loopFunctions w" "running (removeConnect a w) = running w"
  "connectPool (removeConnect a w) = (connectPool w)(a := None)" "conns (removeConnect a w) = conns w"
  by (auto simp: removeConnect_def)

lemma HandleEventImpl_ok: "handle_ok (HandleEventImpl :: ('rb, 'bb, ('k, 'rb, 'bb, 'l) server) handle_event)"
proof -
  have "\<exists>k. w = w\<lparr>kern := k\<rparr>" for w :: "('k, 'rb, 'bb, 'l) server"
    by (rule exI [of _ "kern w"]) simp
  then show ?thesis unfolding handle_ok_def HandleEventImpl_def by simp
qed

lemma server_app_ok:
  assumes "handle_ok H"
  shows "app_ok (server_app H)"
  unfolding app_ok_def server_app_def
  by (auto simp: same_loop_def connectCloseEvent_def split: prod.splits dest!: handle_okD [OF assms])

section \<open>The pool of connections\<close>

lemma closeEvent_unpools:
  assumes H: "handle_ok H" and st: "state c \<noteq> Disconnected" and cb: "connectCloseCallback c"
    and s: "closeEvent S (server_app H) c w = (d, v)"
  shows "connectPool v (PeerAddr c) = None"
proof -
  obtain c1 w2 c3 w3 w4 where st: "closing S (server_app H) c w c1 w2 c3 w3 w4"
    "closeEvent S (server_app H) c w = (c3, emit (EffPutBuffers (self c3)) w4)"
    using closeEvent_steps [OF st] .
  from st(1) obtain e4 ev acts w' where
    c1: "c1 = c\<lparr>state := Disconnected, event := ev\<rparr>" and
    cl: "connectCloseEvent H c1 (emit (EffConnectClose (self c)) w2) = (acts, w')"
      "run_api S acts c1 w' = (c3, w3)" and
    4: "sys_close S (conn_fd c3) w3 = (e4, w4)"
    using cb unfolding closing_def server_app_def by (auto split: prod.splits)
  have "connectPool w' (PeerAddr c) = None"
    using cl(1) c1 by (auto simp: connectCloseEvent_def PeerAddr_def split: prod.splits)
  moreover have "w3 = w'" using cl(2) closed_api [of c1 S acts w'] c1 by simp
  ultimately show ?thesis
    using s st(2) 4 by (auto simp: sys_close_def emit_def split: prod.splits)
qed

text \<open>A connection that cannot be registered: \<open>Close\<close> refuses it, so nothing is released.\<close>

lemma connected_task_refused:
  assumes H: "handle_ok H" and st: "state c = Disconnected"
    and reg: "Register S (event c) w = (Some err, w1)"
    and s: "connected_task S H i c w = (d, v)"
  shows "d = c" "trace v = trace w1 @ [EffConnect i]" "connectPool v (PeerAddr c) = None"
proof -
  have "ConnectedHandle S c w = (Some err, c, w1)" using reg by (simp add: ConnectedHandle_def)
  moreover have "Connect_Close S c w1 = (Some ErrConnectionClosed, w1)"
    using st by (simp add: Connect_Close_def)
  moreover obtain acts w2 where
    2: "ConnectCallback H c (emit (EffConnect i) (removeConnect (PeerAddr c) w1)) = (acts, w2)"
    by fastforce
  ultimately have "(d, v) = (c, w2)"
    using s st by (simp add: connected_task_def closed_api)
  with handle_okD(1) [OF H 2] show "d = c" "trace v = trace w1 @ [EffConnect i]"
    "connectPool v (PeerAddr c) = None"
    by (auto simp: emit_def)
qed

end
