(* ===== verification/ServerClaims.thy ===== *)
theory ServerClaims
  imports ServerLemmas Demo
begin

text \<open>
  Properties of the server: the configuration, the distribution of new connections over the sub
  loops, and the pool of connections. A small server with two sub loops shows that the hypotheses
  can hold.
\<close>

section \<open>Configuration\<close>

text \<open>Whatever options are given, the configuration can be used: network, address, tick, wheel
  size and codec are set, and what an option set explicitly is kept.\<close>

theorem NewOptions_usable:
  "opt_Network (opt_net (NewOptions opts)) \<noteq> [] \<and> opt_Address (opt_net (NewOptions opts)) \<noteq> [] \<and>
   GetTick (NewOptions opts) \<noteq> 0 \<and> GetWheelSize (NewOptions opts) \<noteq> 0 \<and>
   GetCode (NewOptions opts) \<noteq> None \<and>
   GetCode (NewOptions (opts @ [CodeImp cd])) = Some cd \<and>
   opt_NumLoops (NewOptions (opts @ [NumLoops n])) = n \<and>
   opt_IdleTime (NewOptions (opts @ [IdleTime t])) = t \<and>
   opt_ReusePort (opt_net (NewOptions (opts @ [ReusePort b]))) = b \<and>
   (a \<noteq> [] \<longrightarrow> opt_Address (opt_net (NewOptions (opts @ [Address a]))) = a) \<and>
   (a \<noteq> [] \<longrightarrow> opt_Network (opt_net (NewOptions (opts @ [Network a]))) = a)"
  by (simp add: NewOptions_def fill_defaults_fields GetTick_def GetWheelSize_def GetCode_def
      option_defs)

theorem NewOptions_usable_witness:
  "opt_Address (opt_net (NewOptions [NumLoops 2, Address '':7000''])) = '':7000''"
  using NewOptions_usable [of "[NumLoops 2]" _ _ _ _ "'':7000''"] by simp

section \<open>A small server\<close>

definition demo_core :: "int \<Rightarrow> loop_core" where
  "demo_core i =
     \<lparr>core_SequenceID = i, core_eventPool = Map.empty,
      core_multi = \<lparr>mx_fd = 100 + 2 * i, mx_wakeEventFd = 101 + 2 * i, mx_waitEvents_len = WaitEventsNumber\<rparr>,
      core_loopFunctions = [], core_running = 1\<rparr>"

definition demo_server :: "(script, bytes, bytes, unit) server" where
  "demo_server =
     \<lparr>kern = \<lparr>s_reads = [], s_writes = [], s_now = 0\<rparr>, trace = [], SequenceID = - 1,
      eventPool = [5 \<mapsto> AcceptorEvent],
      multi = \<lparr>mx_fd = 98, mx_wakeEventFd = 99, mx_waitEvents_len = WaitEventsNumber\<rparr>,
      loopFunctions = [], running = 1, options = NewOptions [],
      tcpAccept = \<lparr>acc_listener = (), acc_fd = 5,
        acc_event = (NewEvent AcceptorEvent 5)\<lparr>events := EventRead, readHandle := Some AcceptHandle\<rparr>,
        acc_newConnectCallback = True\<rparr>,
      connectPool = Map.empty, nextLoopIndex = 1, current = 0,
      loops = [demo_core (- 1), demo_core 0, demo_core 1],
      conns = Map.empty, conn_loop = (\<lambda>_. 0), next_conn = 0\<rparr>"

definition demo_peers :: "(int \<times> sockaddr) list" where
  "demo_peers = [(7, SockaddrInet4 [10, 0, 0, 1] 80), (8, SockaddrInet4 [10, 0, 0, 2] 80)]"

section \<open>Round robin\<close>

text \<open>C26: connections are dealt to the sub loops in turn: of a series of accepted connections the
  \<open>m\<close>-th one, if it could be set up, runs on the sub loop \<open>m\<close> places after the one whose turn it
  was, modulo their number, and earlier connections stay where they are.\<close>

theorem round_robin:
  assumes "lb_ok w" and "accept_all R S P as w = Ret v"
  shows "(\<forall>m < length as. conns v (next_conn w + m) \<noteq> conns w (next_conn w + m) \<longrightarrow>
      conn_loop v (next_conn w + m) = Suc (nat ((nextLoopIndex w + int m) mod n_subLoops w))) \<and>
    (\<forall>i < next_conn w. conn_loop v i = conn_loop w i)"
  using accept_all_turns [OF assms] by simp

lemma demo_accepts:
  "\<exists>v. accept_all list_bufs script_sys no_buffers demo_peers demo_server = Ret v \<and>
     conns v 0 \<noteq> None \<and> conns v 1 \<noteq> None"
proof -
  have nb: "\<exists>k'. k_set_nonblock script_sys fd k = (None, k')" for fd k
    by (simp add: script_sys_def)
  have w: "lb_ok demo_server" "GetCode (options demo_server) = Some BuiltInFrameCodec"
    "next_conn demo_server = 0"
    by (simp_all add: lb_ok_def n_subLoops_def demo_server_def GetCode_def NewOptions_def
        fill_defaults_fields zero_Options_def)
  obtain u where u: "newConnected list_bufs script_sys no_buffers 7 (SockaddrInet4 [10, 0, 0, 1] 80)
      demo_server = Ret u" "conns u 0 \<noteq> None" "options u = options demo_server"
    using newConnected_creates [OF w(1,2) nb] w(3) by (metis option.distinct(1))
  note turn = newConnected_turn [OF w(1) u(1)]
  have u1: "GetCode (options u) = Some BuiltInFrameCodec" "next_conn u = 1"
    using u(3) w turn(4) by simp_all
  obtain v where v: "newConnected list_bufs script_sys no_buffers 8 (SockaddrInet4 [10, 0, 0, 2] 80)
      u = Ret v" "conns v 1 \<noteq> None"
    using newConnected_creates [OF turn(1) u1(1) nb] u1(2) by (metis option.distinct(1))
  have "conns v 0 = conns u 0" using newConnected_turn(5) [OF turn(1) v(1)] u1(2) by simp
  with u v show ?thesis by (simp add: demo_peers_def)
qed

theorem round_robin_witness:
  "\<exists>v. accept_all list_bufs script_sys no_buffers demo_peers demo_server = Ret v \<and>
     conn_loop v 0 = 2 \<and> conn_loop v 1 = 1"
proof -
  obtain v where v: "accept_all list_bufs script_sys no_buffers demo_peers demo_server = Ret v"
    "conns v 0 \<noteq> None" "conns v 1 \<noteq> None" using demo_accepts by blast
  have "lb_ok demo_server" "n_subLoops demo_server = 2" "nextLoopIndex demo_server = 1"
    "next_conn demo_server = 0" "conns demo_server = Map.empty" "length demo_peers = 2"
    by (simp_all add: lb_ok_def n_subLoops_def demo_server_def demo_peers_def)
  with round_robin [OF _ v(1)] v(2,3) have "conn_loop v 0 = Suc (nat (1 mod 2))"
    "conn_loop v 1 = Suc (nat ((1 + int 1) mod 2))" by fastforce+
  with v(1) show ?thesis by simp
qed

section \<open>The pool of connections\<close>

text \<open>A connection that closes leaves the pool of connections: after \<open>closeEvent\<close> its peer's key
  is not in the pool.\<close>

theorem close_leaves_pool:
  assumes "handle_ok H" and "state c \<noteq> Disconnected" and "connectCloseCallback c"
    and "closeEvent S (server_app H) c w = (d, v)"
  shows "connectPool v (PeerAddr c) = None"
  using assms by (rule closeEvent_unpools)

theorem close_leaves_pool_witness:
  "connectPool (snd (closeEvent script_sys (server_app HandleEventImpl) (a_conn LineBasedFrameCodec)
     (addConnect ''10.0.0.1:80'' 0 demo_server))) ''10.0.0.1:80'' = None"
proof -
  obtain d v where dv: "closeEvent script_sys (server_app HandleEventImpl) (a_conn LineBasedFrameCodec)
     (addConnect ''10.0.0.1:80'' 0 demo_server) = (d, v)" by fastforce
  from close_leaves_pool [OF HandleEventImpl_ok _ _ dv] dv show ?thesis
    by (simp add: a_conn_def PeerAddr_def)
qed

text \<open>C37: a connection that cannot be registered is not released: \<open>newConnected\<close> asks it to close,
  but \<open>Close\<close> refuses because its state is still that of a connection that was never opened; no
  close is queued, its descriptor is not closed, and the handler is told of a connection.\<close>

theorem refused_connection_leaks:
  assumes "handle_ok H" and "state c = Disconnected" and "Register S (event c) w = (Some err, w1)"
    and "connected_task S H i c w = (d, v)"
  shows "d = c \<and> trace v = trace w1 @ [EffConnect i] \<and> closes (conn_fd c) (trace v) = closes (conn_fd c) (trace w)
    \<and> connectPool v (PeerAddr c) = None"
proof -
  have "closes fd (trace w1) = closes fd (trace w)" for fd
    using assms(3)
    by (auto simp: Register_def EventCtrl_addEvent_def Multiplex_AddEvent_def epollCtrl_def
        sys_epoll_ctl_def split: prod.splits)
  with connected_task_refused [OF assms] show ?thesis by simp
qed

definition full_sys :: "script sys" where
  "full_sys = script_sys\<lparr>k_epoll_ctl := (\<lambda>ep op fd ev k. (Some (Errno 28), k))\<rparr>"

theorem refused_connection_leaks_witness:
  "closes 7 (trace (snd (connected_task full_sys HandleEventImpl 0
     ((a_conn LineBasedFrameCodec)\<lparr>state := Disconnected\<rparr>) demo_server))) = 0"
proof -
  let ?c = "(a_conn LineBasedFrameCodec)\<lparr>state := Disconnected\<rparr>"
  obtain e w1 where r: "Register full_sys (event ?c) demo_server = (e, w1)" by fastforce
  then have e: "e = Some (Errno 28)"
    by (auto simp: Register_def EventCtrl_addEvent_def Multiplex_AddEvent_def epollCtrl_def
        sys_epoll_ctl_def full_sys_def)
  obtain d v where dv: "connected_task full_sys HandleEventImpl 0 ?c demo_server = (d, v)"
    by fastforce
  have "closes (conn_fd ?c) (trace v) = closes (conn_fd ?c) (trace demo_server)"
    by (rule refused_connection_leaks [OF HandleEventImpl_ok _ _ dv,
          THEN conjunct2, THEN conjunct2, THEN conjunct1]) (simp, rule r [unfolded e])
  moreover have "conn_fd ?c = 7" "trace demo_server = []" by (simp_all add: a_conn_def demo_server_def)
  ultimately show ?thesis unfolding dv by simp
qed

end
