(* ===== verification/Locality.thy ===== *)
theory Locality
  imports ConnLife
begin

text \<open>
  What the operations of one connection leave alone. \<open>acts_alone\<close> says that a change of the world
  consists of system calls on one descriptor, steps of one connection, posts to the loop's queue
  and changes of the application's own state; \<open>V\<close> is the part of the world the loop and its
  connections never touch. Every operation of a connection is of this kind, so it is invisible
  to the other connections (\<open>around\<close>), even when they share its loop.
\<close>

section \<open>Changes made by one connection\<close>

fun own :: "int \<Rightarrow> nat \<Rightarrow> effect \<Rightarrow> bool" where
  "own fd i (EffRead fd' _) = (fd' = fd)"
| "own fd i (EffWrite fd' _ _) = (fd' = fd)"
| "own fd i (EffClose fd') = (fd' = fd)"
| "own fd i (EffShutdown fd') = (fd' = fd)"
| "own fd i (EffCtl _ _ fd' _ _) = (fd' = fd)"
| "own fd i (EffMessage j _) = (j = i)"
| "own fd i (EffSubmit j _) = (j = i)"
| "own fd i (EffWriteComplete j) = (j = i)"
| "own fd i (EffConnectClose j) = (j = i)"
| "own fd i (EffConnect j) = (j = i)"
| "own fd i (EffPutBuffers j) = (j = i)"
| "own fd i (EffAfterFunc j _) = (j = i)"

text \<open>The closures the public methods of connection \<open>i\<close> post.\<close>

fun method_task :: "nat \<Rightarrow> task \<Rightarrow> bool" where
  "method_task i (TaskCloseEvent j) = (j = i)"
| "method_task i (TaskWrite j _) = (j = i)"
| "method_task i _ = False"

inductive acts_alone ::
  "'k sys \<Rightarrow> (('k, 'z) loop_scheme \<Rightarrow> 'v) \<Rightarrow> int \<Rightarrow> nat \<Rightarrow>
     ('k, 'z) loop_scheme \<Rightarrow> ('k, 'z) loop_scheme \<Rightarrow> bool"
  for S V fd i w where
  none: "acts_alone S V fd i w w"
| effect: "acts_alone S V fd i w (emit e v)" if "acts_alone S V fd i w v" and "own fd i e"
| aside: "acts_alone S V fd i w u"
    if "acts_alone S V fd i w v" and "trace u = trace v" and "same_loop v u" and "V u = V v"
| pool: "acts_alone S V fd i w (v\<lparr>eventPool := (eventPool v)(fd := x)\<rparr>)"
    if "acts_alone S V fd i w v" and "x = None \<or> x = Some (ConnEvent i)"
| post: "acts_alone S V fd i w (RunInLoop S t v)"
    if "acts_alone S V fd i w v" and "method_task i t"

lemma acts_alone_trans:
  assumes "acts_alone S V fd i v u" "acts_alone S V fd i w v"
  shows "acts_alone S V fd i w u"
  using assms by (induction rule: acts_alone.induct) (auto intro: acts_alone.intros)

lemma own_foreign:
  "own fd i e \<Longrightarrow> fd' \<noteq> fd \<Longrightarrow> i' \<noteq> i \<Longrightarrow> foreign fd' i' e"
  by (cases e) auto

section \<open>Consequences\<close>

lemma RunInLoop_world:
  "\<exists>k r. RunInLoop S t w = w\<lparr>loopFunctions := loopFunctions w @ [t], kern := k,
     trace := trace w @ [EffWrite (mx_wakeEventFd (multi w)) wakeBytes r]\<rparr>"
  by (cases "k_write S (mx_wakeEventFd (multi w)) wakeBytes (kern w)")
     (auto simp: RunInLoop_def Multiplex_Wake_def sys_write_def emit_def split: sum.splits)

lemma foreign_wake [simp]: "foreign fd i (EffWrite fd' d r) = (fd' \<noteq> fd)"
  by simp

lemma around_refl [simp]: "around fd i w w"
  by (simp add: around_def)

lemma around_trans: "around fd i w v \<Longrightarrow> around fd i v u \<Longrightarrow> around fd i w u"
  unfolding around_def by (auto simp: list_all_append)

lemma RunInLoop_around: "mx_wakeEventFd (multi w) \<noteq> fd \<Longrightarrow> around fd i w (RunInLoop S t w)"
  using RunInLoop_world [of S t w] by (auto simp: around_def)

lemma acts_alone_multi: "acts_alone S V fd i w v \<Longrightarrow> multi v = multi w \<and> running v = running w"
  by (induction rule: acts_alone.induct) (auto simp: same_loop_def emit_def RunInLoop_def
      Multiplex_Wake_def sys_write_def split: prod.splits sum.splits)

lemma acts_alone_around:
  assumes "acts_alone S V fd i w v" "fd' \<noteq> fd" "i' \<noteq> i" "mx_wakeEventFd (multi w) \<noteq> fd'"
  shows "around fd' i' w v"
  using assms(1)
proof induction
  case none
  show ?case by simp
next
  case (effect v e)
  have "around fd' i' v (emit e v)"
    using own_foreign [OF effect(2) assms(2,3)] by (simp add: around_def)
  with effect(3) show ?case by (rule around_trans)
next
  case (aside v u)
  then have "around fd' i' v u" by (simp add: around_def same_loop_def)
  with aside.IH show ?case by (rule around_trans)
next
  case (pool v x)
  have "around fd' i' v (v\<lparr>eventPool := (eventPool v)(fd := x)\<rparr>)"
    using assms(2) by (simp add: around_def)
  with pool.IH show ?case by (rule around_trans)
next
  case (post v t)
  have "around fd' i' v (RunInLoop S t v)"
    using acts_alone_multi [OF post(1)] assms(4) by (simp add: RunInLoop_around)
  with post.IH show ?case by (rule around_trans)
qed

lemma acts_alone_pool:
  "acts_alone S V fd i w v \<Longrightarrow> fd' \<noteq> fd \<Longrightarrow> eventPool v fd' = eventPool w fd'"
proof (induction rule: acts_alone.induct)
  case (post v t)
  then show ?case using RunInLoop_world [of S t v] by auto
qed (auto simp: same_loop_def emit_def)

lemma acts_alone_posts:
  "acts_alone S V fd i w v \<Longrightarrow> \<exists>ts. loopFunctions v = loopFunctions w @ ts \<and> list_all (method_task i) ts"
  by (induction rule: acts_alone.induct) (auto simp: same_loop_def emit_def)

lemma acts_alone_entry:
  "acts_alone S V fd i w v \<Longrightarrow> eventPool v fd \<in> {eventPool w fd, None, Some (ConnEvent i)}"
proof (induction rule: acts_alone.induct)
  case (post v t)
  then show ?case using RunInLoop_world [of S t v] by auto
qed (auto simp: same_loop_def emit_def)

text \<open>A view of the world that the loop's fields do not reach.\<close>

locale loop_view =
  fixes V :: "('k, 'z) loop_scheme \<Rightarrow> 'v"
  assumes V_kern: "V (w\<lparr>kern := k\<rparr>) = V w" and V_trace: "V (w\<lparr>trace := es\<rparr>) = V w"
    and V_pool: "V (w\<lparr>eventPool := p\<rparr>) = V w" and V_queue: "V (w\<lparr>loopFunctions := ts\<rparr>) = V w"
begin

lemma V_emit [simp]: "V (emit e w) = V w"
  by (simp add: emit_def V_trace)

lemma V_RunInLoop [simp]: "V (RunInLoop S t w) = V w"
proof -
  obtain k r where "RunInLoop S t w = w\<lparr>loopFunctions := loopFunctions w @ [t], kern := k,
      trace := trace w @ [EffWrite (mx_wakeEventFd (multi w)) wakeBytes r]\<rparr>"
    using RunInLoop_world [of S t w] by blast
  then show ?thesis by (simp only: V_kern V_trace V_queue)
qed

lemma acts_alone_view: "acts_alone S V fd i w v \<Longrightarrow> V v = V w"
  by (induction rule: acts_alone.induct) (simp_all add: V_pool)

text \<open>System calls are made aside.\<close>

lemma kern_alone: "acts_alone S V fd i w (w\<lparr>kern := k\<rparr>)"
  by (rule acts_alone.aside [OF acts_alone.none]) (simp_all add: same_loop_def V_kern)

lemma sys_alone:
  "sys_read S fd n w = (r, v) \<Longrightarrow> acts_alone S V fd i w v"
  "sys_write S fd d w = (r', v) \<Longrightarrow> acts_alone S V fd i w v"
  "sys_close S fd w = (e, v) \<Longrightarrow> acts_alone S V fd i w v"
  "sys_shutdown_wr S fd w = (e, v) \<Longrightarrow> acts_alone S V fd i w v"
  "sys_set_nonblock S fd w = (e, v) \<Longrightarrow> acts_alone S V fd i w v"
  "sys_epoll_ctl S ep opn fd ev w = (e, v) \<Longrightarrow> acts_alone S V fd i w v"
  by (auto simp: sys_defs intro!: acts_alone.effect kern_alone split: prod.splits)

end

end
