(* ===== verification/ConnAlone.thy ===== *)
theory ConnAlone
  imports Locality
begin

text \<open>
  Every operation of a connection acts alone, keeps the connection's identity, and leaves a
  disconnected connection disconnected.
\<close>

text \<open>The part of an event that is set up once.\<close>

definition ev_static :: "Event \<Rightarrow> Event" where
  "ev_static e = e\<lparr>events := 0, oldEvents := 0\<rparr>"

lemma ev_static_simps [simp]:
  "ev_static (set_mask b x e) = ev_static e"
  "ev_static (e\<lparr>oldEvents := m, events := n\<rparr>) = ev_static e"
  by (simp_all add: ev_static_def set_mask_def)

lemma ev_static_fields:
  assumes "ev_static e = ev_static e'"
  shows "eventFd e = eventFd e'" "eventAddr e = eventAddr e'" "readHandle e = readHandle e'"
    "writeHandle e = writeHandle e'" "errorHandle e = errorHandle e'" "closeHandle e = closeHandle e'"
  using arg_cong [OF assms, of eventFd] arg_cong [OF assms, of eventAddr]
    arg_cong [OF assms, of readHandle] arg_cong [OF assms, of writeHandle]
    arg_cong [OF assms, of errorHandle] arg_cong [OF assms, of closeHandle]
  by (simp_all add: ev_static_def)

definition same_self :: "('rb, 'bb) conn \<Rightarrow> ('rb, 'bb) conn \<Rightarrow> bool" where
  "same_self c d \<longleftrightarrow>
     self d = self c \<and> conn_fd d = conn_fd c \<and> peerAddr d = peerAddr c \<and> codeImp d = codeImp c \<and>
     messageCallback d = messageCallback c \<and> connectCloseCallback d = connectCloseCallback c \<and>
     ev_static (event d) = ev_static (event c) \<and> (state c = Disconnected \<longrightarrow> state d = Disconnected)"

definition alone ::
  "'k sys \<Rightarrow> (('k, 'z) loop_scheme \<Rightarrow> 'v) \<Rightarrow> ('rb, 'bb) conn \<Rightarrow> ('k, 'z) loop_scheme \<Rightarrow>
     ('rb, 'bb) conn \<times> ('k, 'z) loop_scheme \<Rightarrow> bool" where
  "alone S V c w s \<longleftrightarrow> same_self c (fst s) \<and>
     (eventFd (event c) = conn_fd c \<longrightarrow> acts_alone S V (conn_fd c) (self c) w (snd s))"

lemma same_self_refl [simp]: "same_self c c"
  by (simp add: same_self_def)

lemma same_self_trans: "same_self c d \<Longrightarrow> same_self d e \<Longrightarrow> same_self c e"
  by (simp add: same_self_def)

lemma aloneI:
  "same_self c d \<Longrightarrow> (eventFd (event c) = conn_fd c \<Longrightarrow> acts_alone S V (conn_fd c) (self c) w v) \<Longrightarrow>
     alone S V c w (d, v)"
  by (simp add: alone_def)

lemma alone_refl [simp]: "alone S V c w (c, w)"
  by (simp add: alone_def acts_alone.none)

lemma alone_trans: "alone S V c w (d, v) \<Longrightarrow> alone S V d v s \<Longrightarrow> alone S V c w s"
  by (auto simp: alone_def same_self_def dest: ev_static_fields(1) intro: acts_alone_trans)

lemma alone_conn: "same_self c d \<Longrightarrow> alone S V c w (d, w)"
  by (simp add: alone_def acts_alone.none)

lemma alone_emit: "own (conn_fd c) (self c) e \<Longrightarrow> alone S V c w (c, emit e w)"
  by (simp add: alone_def acts_alone.none acts_alone.effect)

lemma alone_post: "method_task (self c) t \<Longrightarrow> alone S V c w (c, RunInLoop S t w)"
  by (simp add: alone_def acts_alone.none acts_alone.post)

lemma same_self_updates [simp]:
  "same_self c (d\<lparr>temporaryBuf := t\<rparr>) = same_self c d" "same_self c (d\<lparr>inBuffer := b\<rparr>) = same_self c d"
  "same_self c (d\<lparr>outBuffer := b\<rparr>) = same_self c d" "same_self c (d\<lparr>byteBuffer := bb\<rparr>) = same_self c d"
  "same_self c (d\<lparr>state := Disconnected\<rparr>) = same_self (c\<lparr>state := Connected\<rparr>) d"
  "same_self c (updateActivityTime S d w) = same_self c d"
  by (simp_all add: same_self_def updateActivityTime_def)

lemma shell_self: "same_shell c d \<Longrightarrow> same_self c d"
  by (simp add: same_shell_def same_self_def)

text \<open>Callbacks that stay away from the view as well.\<close>

definition app_keeps :: "(('k, 'z) loop_scheme \<Rightarrow> 'v) \<Rightarrow> ('rb, 'bb, ('k, 'z) loop_scheme) app \<Rightarrow> bool" where
  "app_keeps V A \<longleftrightarrow> app_ok A \<and>
     (\<forall>c f w r w'. on_message A c f w = (r, w') \<longrightarrow> V w' = V w) \<and>
     (\<forall>c w as w'. on_close A c w = (as, w') \<longrightarrow> V w' = V w) \<and>
     (\<forall>c w as w'. on_write_complete A c w = (as, w') \<longrightarrow> V w' = V w)"

lemma app_alone:
  assumes "app_keeps V A"
  shows "on_message A c f w = (r, v) \<Longrightarrow> alone S V c w (c, v)"
    "on_close A c w = (as, v) \<Longrightarrow> alone S V c w (c, v)"
    "on_write_complete A c w = (as, v) \<Longrightarrow> alone S V c w (c, v)"
proof -
  have step: "alone S V c w (c, v)" if "trace v = trace w \<and> same_loop w v" "V v = V w"
    using that by (auto simp: alone_def intro: acts_alone.aside [OF acts_alone.none])
  have A: "app_ok A" using assms by (simp add: app_keeps_def)
  show "alone S V c w (c, v)" if "on_message A c f w = (r, v)"
  proof (rule step [OF app_okD(1) [OF A that]])
    show "V v = V w" using assms that unfolding app_keeps_def by blast
  qed
  show "alone S V c w (c, v)" if "on_close A c w = (as, v)"
  proof (rule step [OF app_okD(2) [OF A that]])
    show "V v = V w" using assms that unfolding app_keeps_def by blast
  qed
  show "alone S V c w (c, v)" if "on_write_complete A c w = (as, v)"
  proof (rule step [OF app_okD(3) [OF A that]])
    show "V v = V w" using assms that unfolding app_keeps_def by blast
  qed
qed

context loop_view begin

lemma sys_conn_alone:
  "sys_read S (conn_fd c) n w = (r, v) \<Longrightarrow> alone S V c w (c, v)"
  "sys_write S (conn_fd c) d w = (r', v) \<Longrightarrow> alone S V c w (c, v)"
  "sys_close S (conn_fd c) w = (e, v) \<Longrightarrow> alone S V c w (c, v)"
  "sys_shutdown_wr S (conn_fd c) w = (e, v) \<Longrightarrow> alone S V c w (c, v)"
  by (rule aloneI, simp, erule sys_alone)+

lemma update_alone:
  assumes "Event_update S e w = (err, e', v)" "ev_static e = ev_static (event c)"
  shows "alone S V c w (c\<lparr>event := e'\<rparr>, v)"
proof -
  from assms(1) have "sys_epoll_ctl S (mx_fd (multi w)) EPOLL_CTL_MOD (eventFd e)
      (GetEpollEventsFromIOEvent (events e)) w = (err, v)" and e': "e' = e"
    by (auto simp: Event_update_def EventCtrl_modifyEvent_def Multiplex_ModifyEvent_def
        epollCtrl_def split: prod.splits)
  have "acts_alone S V (eventFd e) i w v" for i by (rule sys_alone(6)) fact
  with assms(2) e' ev_static_fields(1) [OF assms(2)] show ?thesis by (auto simp: alone_def same_self_def)
qed

lemma enable_alone: "alone S V c w (enable_writing S b c w)" "alone S V c w (enable_reading S b c w)"
proof -
  obtain d v where 1: "enable_writing S b c w = (d, v)" by fastforce
  then obtain err where e: "Event_update S (set_mask EventWrite b (event c)) w = (err, event d, v)"
    "d = c\<lparr>event := set_mask EventWrite b (event c)\<rparr>" using enable_event(1) by blast
  from update_alone [OF e(1), of c] e(2) show "alone S V c w (enable_writing S b c w)" by (simp add: 1)
next
  obtain d v where 1: "enable_reading S b c w = (d, v)" by fastforce
  then obtain err where e: "Event_update S (set_mask EventRead b (event c)) w = (err, event d, v)"
    "d = c\<lparr>event := set_mask EventRead b (event c)\<rparr>" using enable_event(2) by blast
  from update_alone [OF e(1), of c] e(2) show "alone S V c w (enable_reading S b c w)" by (simp add: 1)
qed

lemma run_api_alone: "alone S V c w (run_api S as c w)"
proof (induction as arbitrary: c w)
  case (Cons a as)
  have "alone S V c w (c, snd (Connect_Close S c w))" "alone S V c w (c, snd (WriteInSelfLoop S b c w))" for b
    by (simp_all add: Connect_Close_def WriteInSelfLoop_def alone_post)
  moreover have "alone S V c w (d, v)" if s: "ShutdownWrite S c w = (err, d, v)" for err d v
  proof (cases "state c = Connected")
    case True
    then obtain e where "sys_shutdown_wr S (conn_fd c) w = (e, v)" "d = c\<lparr>state := Disconnecting\<rparr>"
      using s by (auto simp: ShutdownWrite_def split: prod.splits)
    with True sys_conn_alone(4) show ?thesis by (simp add: alone_def same_self_def)
  qed (use s in \<open>simp add: ShutdownWrite_def\<close>)
  ultimately show ?case
    by (cases a) (auto intro: alone_trans [OF _ Cons.IH] split: prod.splits)
qed simp

lemma UnRegister_alone:
  assumes "UnRegister S e w = (err, v)" "eventFd e = eventFd (event c)"
  shows "alone S V c w (c, v)"
proof -
  define u where "u = (if eventPool w (eventFd e) \<noteq> None
    then w\<lparr>eventPool := (eventPool w)(eventFd e := None)\<rparr> else w)"
  from assms(1) obtain ev where s: "sys_epoll_ctl S (mx_fd (multi w)) EPOLL_CTL_DEL (eventFd e) ev u = (err, v)"
    by (auto simp: UnRegister_def EventCtrl_removeEvent_def Multiplex_RemoveEvent_def epollCtrl_def
        u_def split: if_splits)
  have "acts_alone S V (eventFd e) i w u" for i
    by (simp add: u_def acts_alone.pool acts_alone.none)
  then have "acts_alone S V (eventFd e) i w v" for i
    using sys_alone(6) [OF s] by (rule acts_alone_trans [rotated])
  with assms(2) show ?thesis by (auto simp: alone_def)
qed

lemma closeEvent_alone:
  assumes A: "app_keeps V A"
  shows "alone S V c w (closeEvent S A c w)"
proof (cases "state c = Disconnected")
  case True
  then show ?thesis by (simp add: closeEvent_def)
next
  case False
  obtain c1 c3 w2 w3 w4 where s: "closing S A c w c1 w2 c3 w3 w4"
    "closeEvent S A c w = (c3, emit (EffPutBuffers (self c3)) w4)"
    using closeEvent_steps [OF False] .
  from s(1) [unfolded closing_def] obtain e1 ev w1 e2 e4 where
    1: "Event_update S ((event c)\<lparr>oldEvents := events (event c), events := EventNone\<rparr>) w = (e1, ev, w1)" and
    c1: "c1 = c\<lparr>state := Disconnected, event := ev\<rparr>" and
    2: "UnRegister S ev w1 = (e2, w2)" and
    3: "(c3, w3) = (if connectCloseCallback c then
         (case on_close A c1 (emit (EffConnectClose (self c)) w2) of (acts, w) \<Rightarrow> run_api S acts c1 w)
       else (c1, w2))" and
    4: "sys_close S (conn_fd c3) w3 = (e4, w4)" by blast
  have ev: "eventFd ev = eventFd (event c)" using Event_update_quiet [OF 1] by simp
  have "alone S V c w (c1, w1)"
    using update_alone [OF 1, of c] by (simp add: c1 alone_def same_self_def)
  moreover have "alone S V c1 w1 (c1, w2)" using UnRegister_alone [OF 2, of c1] by (simp add: c1)
  moreover have "alone S V c1 w2 (c3, w3)"
  proof (cases "connectCloseCallback c")
    case True
    obtain acts w' where o: "on_close A c1 (emit (EffConnectClose (self c)) w2) = (acts, w')" by fastforce
    have "alone S V c1 w2 (c1, emit (EffConnectClose (self c)) w2)" by (rule alone_emit) (simp add: c1)
    moreover note app_alone(2) [OF A o, of S]
    moreover have "alone S V c1 w' (c3, w3)" using 3 True o run_api_alone [of S c1 w' acts] by simp
    ultimately show ?thesis by (blast intro: alone_trans)
  qed (use 3 in simp)
  moreover note sys_conn_alone(3) [OF 4]
  moreover have "alone S V c3 w4 (c3, emit (EffPutBuffers (self c3)) w4)" by (rule alone_emit) simp
  ultimately show ?thesis unfolding s(2) by (blast intro: alone_trans)
qed

lemma conn_write_alone:
  assumes A: "app_keeps V A"
  shows "alone S V c w (conn_write R S A data c w)"
proof -
  let ?w = "emit (EffSubmit (self c) data) w"
  have e: "alone S V c w (c, ?w)" by (rule alone_emit) simp
  obtain r w1 where r: "sys_write S (conn_fd c) data ?w = (r, w1)" by fastforce
  note w1 = alone_trans [OF e sys_conn_alone(2) [OF r]]
  have out: "alone S V c w (c\<lparr>outBuffer := b\<rparr>, u)" if "alone S V c w (c, u)" for b u
    using that by (rule alone_trans) (simp add: alone_conn)
  note en = alone_trans [OF out [OF w1] enable_alone(1)] and cl = alone_trans [OF w1 closeEvent_alone [OF A]]
  show ?thesis
    using en cl out [OF e] w1 r
    by (cases r) (auto simp: conn_write_def Let_def)
qed

lemma callback_alone:
  assumes "app_keeps V A" "on_write_complete A c (emit (EffWriteComplete (self c)) w) = (acts, v)"
  shows "alone S V c w (run_api S acts c v)"
proof -
  have "alone S V c w (c, emit (EffWriteComplete (self c)) w)" by (rule alone_emit) simp
  from alone_trans [OF alone_trans [OF this app_alone(3) [OF assms]] run_api_alone] show ?thesis .
qed

lemma write_drained_alone:
  assumes A: "app_keeps V A"
  shows "alone S V c w (write_drained R S A c w)"
proof -
  obtain c1 w1 where 1: "(if IsWriting (event c) then enable_writing S False c w else (c, w)) = (c1, w1)"
    by fastforce
  obtain c2 w2 where 2:
    "(if \<not> IsReading (event c1) then enable_reading S True c1 w1 else (c1, w1)) = (c2, w2)"
    by fastforce
  have "alone S V c w (c1, w1)" using 1 enable_alone(1) [of S c w False] by (simp split: if_splits)
  moreover have "alone S V c1 w1 (c2, w2)" using 2 enable_alone(2) [of S c1 w1 True] by (simp split: if_splits)
  ultimately have c2: "alone S V c w (c2, w2)" by (rule alone_trans)
  obtain acts w3 where 3: "on_write_complete A c2 (emit (EffWriteComplete (self c2)) w2) = (acts, w3)"
    by fastforce
  from alone_trans [OF c2 callback_alone [OF A 3]] c2 1 2 3 show ?thesis
    by (simp add: write_drained_def)
qed

lemma writeEvent_alone:
  assumes A: "app_keeps V A"
  shows "alone S V c w (writeEvent R S A c w)"
proof -
  define c0 where "c0 = updateActivityTime S c w"
  have 0: "alone S V c w (c0, w)" by (rule alone_conn) (simp add: c0_def)
  obtain f e where fe: "rb_PeekAll R (outBuffer c0) = (f, e)" by fastforce
  obtain r1 w1 where 1: "sys_write S (conn_fd c0) f w = (r1, w1)" by fastforce
  have w1: "alone S V c w (c0\<lparr>outBuffer := b\<rparr>, w1)" for b
    by (rule alone_trans [OF alone_trans [OF 0 sys_conn_alone(2) [OF 1]] alone_conn]) simp
  have plain: "alone S V c w (c0, w1)" by (rule alone_trans [OF 0 sys_conn_alone(2) [OF 1]])
  have w2: "alone S V c w (c0\<lparr>outBuffer := b\<rparr>, w2)" if "sys_write S (conn_fd c0) e w1 = (r2, w2)" for r2 w2 b
    by (rule alone_trans [OF alone_trans [OF plain sys_conn_alone(2) [OF that]] alone_conn]) simp
  note fin = w1 plain w2 alone_trans [OF plain closeEvent_alone [OF A]] alone_trans [OF w2 closeEvent_alone [OF A]]
    alone_trans [OF w1 write_drained_alone [OF A]] alone_trans [OF w2 write_drained_alone [OF A]]
  show ?thesis
    unfolding writeEvent_def Let_def c0_def [symmetric] fe prod.case 1
    by (auto simp: fin split: sum.splits prod.splits)
qed

lemma deliver_alone:
  assumes A: "app_keeps V A" and s: "deliver R S A f c w = Ret (d, v)"
  shows "alone S V c w (d, v)"
proof -
  obtain out acts w1 where 1: "on_message A c f (emit (EffMessage (self c) f) w) = ((out, acts), w1)"
    by (metis surj_pair)
  obtain c2 w2 where 2: "run_api S acts c w1 = (c2, w2)" by fastforce
  have "alone S V c w (c, emit (EffMessage (self c) f) w)" by (rule alone_emit) simp
  from alone_trans [OF alone_trans [OF this app_alone(1) [OF A 1]] run_api_alone [of S c w1 acts]]
  have c2: "alone S V c w (c2, w2)" by (simp add: 2)
  show ?thesis
  proof (cases out)
    case None
    with s 1 2 c2 show ?thesis by (auto simp: deliver_def split: if_splits)
  next
    case (Some b)
    with s 1 2 obtain r :: "go_error + bytes" where r: "(case r of Inl _ \<Rightarrow> Ret (c2, w2) | Inr outFrame \<Rightarrow>
        if outFrame \<noteq> [] then Ret (conn_write R S A outFrame c2 w2) else Ret (c2, w2)) = Ret (d, v)"
      by (auto simp: deliver_def bind_eq_Some_conv split: if_splits)
    have w: "alone S V c w (conn_write R S A b c2 w2)" for b
      by (rule alone_trans [OF c2 conn_write_alone [OF A]])
    show ?thesis
    proof (cases r)
      case (Inl e)
      with r c2 show ?thesis by simp
    next
      case (Inr b)
      with r c2 w [of b] show ?thesis by (simp split: if_splits)
    qed
  qed
qed

lemma readEvent_alone:
  assumes R: "bufs_ok R cont" and A: "app_keeps V A" and s: "readEvent R S A c w = Ret (d, v)"
  shows "alone S V c w (d, v)"
proof -
  define c0 where "c0 = updateActivityTime S c w"
  have 0: "alone S V c w (c0, w)" by (rule alone_conn) (simp add: c0_def)
  obtain r w1 where r: "sys_read S (conn_fd c0) 65535 w = (r, w1)" by fastforce
  have 1: "alone S V c w (c0\<lparr>temporaryBuf := b\<rparr>, w1)" for b
    by (rule alone_trans [OF alone_trans [OF 0 sys_conn_alone(1) [OF r]] alone_conn]) simp
  have plain: "alone S V c w (c0, w1)" by (rule alone_trans [OF 0 sys_conn_alone(1) [OF r]])
  have loop: "alone S V c w (d', v')"
    if "read_loop R S A (c0\<lparr>temporaryBuf := b\<rparr>) w1 = Ret (d', v')" for b d' v'
  proof -
    have dec: "alone S V c w (e, u)"
      if "alone S V c w (c', u)" "ICodec_Decode (codeImp c') (connect_Conn R) c' = Ret (r, e)" for c' u r e
      by (rule alone_trans [OF that(1) alone_conn [OF shell_self [OF decode_shell [OF R that(2)]]]])
    have del: "alone S V c w (e, u)"
      if "alone S V c w (c', u')" "deliver R S A f c' u' = Ret (e, u)" for c' u' f e u
      by (rule alone_trans [OF that(1) deliver_alone [OF A that(2)]])
    from read_loop_keeps [of "\<lambda>c' u. alone S V c w (c', u)", OF dec del that 1] show ?thesis by simp
  qed
  have fin: "alone S V c w (d'\<lparr>inBuffer := b\<rparr>, v')"
    if "alone S V c w (d', v')" for b d' v'
    by (rule alone_trans [OF that alone_conn]) simp
  from s show ?thesis
    unfolding readEvent_def Let_def c0_def [symmetric] r prod.case
    using alone_trans [OF 0 enable_alone(2)] alone_trans [OF plain closeEvent_alone [OF A]] plain
    by (auto simp: bind_eq_Some_conv fin loop split: if_splits sum.splits) (metis (no_types))+
qed

lemma run_handler_alone:
  assumes "bufs_ok R cont" "app_keeps V A" "run_handler R S A h c w = Ret (d, v)"
  shows "alone S V c w (d, v)"
  using assms(3) readEvent_alone [OF assms(1,2)] writeEvent_alone [OF assms(2), of S c w R]
    closeEvent_alone [OF assms(2), of S c w]
  by (cases h) (auto simp: errEvent_def)

lemma run_task_alone:
  assumes "app_keeps V A"
  shows "alone S V c w (run_task R S A t c w)"
  using conn_write_alone [OF assms] closeEvent_alone [OF assms] by (cases t) simp_all

lemma timer_alone: "alone S V c w (c, closeTimeoutConn S c w)"
  by (simp add: closeTimeoutConn_def Connect_Close_def Let_def alone_post alone_emit)

text \<open>Registration changes the state and is handled apart.\<close>

lemma ConnectedHandle_alone:
  assumes s: "ConnectedHandle S c w = (err, d, v)" and fd: "eventFd (event c) = conn_fd c"
    and addr: "eventAddr (event c) = ConnEvent (self c)"
  shows "acts_alone S V (conn_fd c) (self c) w v" "same_self (c\<lparr>state := Connected\<rparr>) d"
    "state d = Connected \<or> d = c"
proof -
  obtain e0 w1 where 1: "Register S (event c) w = (e0, w1)" by fastforce
  then obtain ev where "sys_epoll_ctl S (mx_fd (multi w)) EPOLL_CTL_ADD (eventFd (event c)) ev
      (w\<lparr>eventPool := (eventPool w)(eventFd (event c) := Some (eventAddr (event c)))\<rparr>) = (e0, w1)"
    by (auto simp: Register_def EventCtrl_addEvent_def Multiplex_AddEvent_def epollCtrl_def)
  then have "acts_alone S V (conn_fd c) (self c)
      (w\<lparr>eventPool := (eventPool w)(conn_fd c := Some (eventAddr (event c)))\<rparr>) w1"
    unfolding fd by (rule sys_alone(6))
  then have a1: "acts_alone S V (conn_fd c) (self c) w w1"
    by (rule acts_alone_trans) (rule acts_alone.pool [OF acts_alone.none], simp add: addr)
  let ?c = "c\<lparr>state := Connected\<rparr>"
  have "acts_alone S V (conn_fd c) (self c) w v \<and> same_self ?c d \<and> (state d = Connected \<or> d = c)"
  proof (cases e0)
    case (Some e)
    with s 1 have "d = c" "v = w1" by (auto simp: ConnectedHandle_def)
    with a1 show ?thesis by (simp add: same_self_def)
  next
    case None
    obtain e2 ev2 w2 where 2: "Event_update S (set_mask EventRead True (event ?c)) w1 = (e2, ev2, w2)"
      by (metis prod_cases3)
    obtain e3 ev3 w3 where 3: "Event_update S (set_mask EventErr True ev2) w2 = (e3, ev3, w3)"
      by (metis prod_cases3)
    have "alone S V ?c w1 (?c\<lparr>event := ev2\<rparr>, w2)" using update_alone [OF 2, of ?c] by simp
    moreover have "alone S V (?c\<lparr>event := ev2\<rparr>) w2 (?c\<lparr>event := ev3\<rparr>, w3)"
      using update_alone [OF 3, of "?c\<lparr>event := ev2\<rparr>"] by simp
    moreover have "d = ?c\<lparr>event := ev3\<rparr>" "v = w3"
      using s 1 2 3 None
      by (auto simp: ConnectedHandle_def EnableReading_def EnableErrorEvent_def Let_def)
    ultimately have "alone S V ?c w1 (d, v)" "state d = Connected" by (auto intro: alone_trans)
    with a1 fd show ?thesis by (auto simp: alone_def intro: acts_alone_trans)
  qed
  then show "acts_alone S V (conn_fd c) (self c) w v" "same_self ?c d" "state d = Connected \<or> d = c"
    by blast+
qed

lemma Connect_New_alone:
  assumes "Connect_New R S i fd sa idle cd out0 in0 w = (r, v)"
  shows "acts_alone S V fd i w v"
proof -
  define w1 where "w1 = (if idle > 0 then emit (EffAfterFunc i idle) w else w)"
  have 1: "acts_alone S V fd i w w1" by (simp add: w1_def acts_alone.none acts_alone.effect)
  obtain e w2 where 2: "sys_set_nonblock S fd w1 = (e, w2)" by fastforce
  note w2 = acts_alone_trans [OF sys_alone(5) [OF 2] 1]
  obtain e' w3 where 3: "sys_close S fd w2 = (e', w3)" by fastforce
  note w3 = acts_alone_trans [OF sys_alone(3) [OF 3] w2]
  have "v = w2 \<or> v = w3"
    using assms 2 3 by (auto simp: Connect_New_def setNoDelay_def w1_def updateActivityTime_def Let_def
        split: option.splits if_splits)
  with w2 w3 show ?thesis by blast
qed

end

end
