(* ===== verification/ConnRest.thy ===== *)
theory ConnRest
  imports ConnLife
begin

text \<open>
  A connection that is disconnected, whether it has been closed or was never registered, closes no
  descriptor: no operation on it closes its descriptor again, tells the application so, or returns
  its buffers. This is what the connections that could not be registered are left with.
\<close>

definition at_rest :: "int \<Rightarrow> nat \<Rightarrow> ('rb, 'bb) conn \<times> ('k, 'z) loop_scheme \<Rightarrow> bool" where
  "at_rest fd n s \<longleftrightarrow>
     state (fst s) = Disconnected \<and> conn_fd (fst s) = fd \<and> closes fd (trace (snd s)) = n \<and>
     goodbyes (self (fst s)) (trace (snd s)) = []"

lemma rest_world:
  "at_rest fd n (c, w) \<Longrightarrow> closes fd (trace v) = closes fd (trace w) \<Longrightarrow>
     goodbyes (self c) (trace v) = goodbyes (self c) (trace w) \<Longrightarrow> at_rest fd n (c, v)"
  by (simp add: at_rest_def)

lemma rest_fields [simp]:
  "at_rest fd n (c\<lparr>temporaryBuf := x\<rparr>, w) = at_rest fd n (c, w)"
  "at_rest fd n (c\<lparr>inBuffer := r\<rparr>, w) = at_rest fd n (c, w)"
  "at_rest fd n (c\<lparr>outBuffer := r\<rparr>, w) = at_rest fd n (c, w)"
  "at_rest fd n (updateActivityTime S c w', w) = at_rest fd n (c, w)"
  by (simp_all add: at_rest_def updateActivityTime_def)

lemma rest_sys:
  "at_rest fd n (c, w) \<Longrightarrow> sys_read S fd' m w = (r, v) \<Longrightarrow> at_rest fd n (c, v)"
  "at_rest fd n (c, w) \<Longrightarrow> sys_write S fd' b w = (r', v) \<Longrightarrow> at_rest fd n (c, v)"
  by (erule rest_world, auto simp: sys_read_def sys_write_def split: prod.splits)+

lemma rest_emit: "at_rest fd n (c, w) \<Longrightarrow> closes1 fd e = 0 \<Longrightarrow> goodbyes1 (self c) e = [] \<Longrightarrow>
     at_rest fd n (c, emit e w)"
  by (simp add: at_rest_def)

lemma rest_app:
  assumes "app_ok A" "at_rest fd n (c, w)"
  shows "on_message A c f w = (r, v) \<Longrightarrow> at_rest fd n (c, v)"
    "on_write_complete A c w = (as, v) \<Longrightarrow> at_rest fd n (c, v)"
  using assms(2) by (auto elim!: rest_world dest!: app_okD [OF assms(1)])

lemma rest_api: "at_rest fd n (c, w) \<Longrightarrow> at_rest fd n (run_api S as c w)"
  by (simp add: at_rest_def closed_api)

lemma rest_close: "at_rest fd n (c, w) \<Longrightarrow> at_rest fd n (closeEvent S A c w)"
  by (simp add: at_rest_def closed_close)

lemma update_closes:
  "Event_update S e w = (err, e', v) \<Longrightarrow>
     closes fd (trace v) = closes fd (trace w) \<and> goodbyes i (trace v) = goodbyes i (trace w)"
  by (auto simp: Event_update_def EventCtrl_modifyEvent_def Multiplex_ModifyEvent_def epollCtrl_def
      sys_epoll_ctl_def split: prod.splits)

lemma rest_enable:
  assumes "at_rest fd n (c, w)"
  shows "at_rest fd n (enable_writing S b c w)" "at_rest fd n (enable_reading S b c w)"
proof -
  obtain d v where 1: "enable_writing S b c w = (d, v)" by fastforce
  then show "at_rest fd n (enable_writing S b c w)"
    using assms by (auto simp: at_rest_def update_closes dest!: enable_event(1))
next
  obtain d v where 1: "enable_reading S b c w = (d, v)" by fastforce
  then show "at_rest fd n (enable_reading S b c w)"
    using assms by (auto simp: at_rest_def update_closes dest!: enable_event(2))
qed

lemma rest_write:
  assumes "at_rest fd n (c, w)"
  shows "at_rest fd n (conn_write R S A data c w)"
proof -
  have e: "at_rest fd n (c, emit (EffSubmit (self c) data) w)" using assms by (rule rest_emit) simp_all
  obtain r w1 where r: "sys_write S (conn_fd c) data (emit (EffSubmit (self c) data) w) = (r, w1)" by fastforce
  have w1: "at_rest fd n (c, w1)" using e r by (rule rest_sys(2))
  then show ?thesis
    using e r by (auto simp: conn_write_def Let_def rest_enable rest_close split: sum.splits)
qed

lemma rest_writeD: "conn_write R S A data c w = (d, v) \<Longrightarrow> at_rest fd n (c, w) \<Longrightarrow> at_rest fd n (d, v)"
  by (metis rest_write)

lemma rest_drained:
  assumes A: "app_ok A" and r: "at_rest fd n (c, w)"
  shows "at_rest fd n (write_drained R S A c w)"
proof -
  obtain c1 w1 where 1: "(if IsWriting (event c) then enable_writing S False c w else (c, w)) = (c1, w1)"
    by fastforce
  obtain c2 w2 where 2:
    "(if \<not> IsReading (event c1) then enable_reading S True c1 w1 else (c1, w1)) = (c2, w2)"
    by fastforce
  obtain acts w3 where 3: "on_write_complete A c2 (emit (EffWriteComplete (self c2)) w2) = (acts, w3)"
    by fastforce
  have "at_rest fd n (c1, w1)" using r 1 rest_enable(1) [OF r, of S False] by (simp split: if_splits)
  then have r2: "at_rest fd n (c2, w2)"
    using 2 rest_enable(2) [of fd n c1 w1 S True] by (simp split: if_splits)
  have "at_rest fd n (c2, emit (EffWriteComplete (self c2)) w2)" using r2 by (rule rest_emit) simp_all
  from rest_api [OF rest_app(2) [OF A this 3]] show ?thesis
    using r r2 1 2 3 by (simp add: write_drained_def)
qed

lemma rest_writeEvent:
  assumes A: "app_ok A" and r: "at_rest fd n (c, w)"
  shows "at_rest fd n (writeEvent R S A c w)"
proof -
  define c0 where "c0 = updateActivityTime S c w"
  have r0: "at_rest fd n (c0, w)" using r by (simp add: c0_def)
  obtain f e where fe: "rb_PeekAll R (outBuffer c0) = (f, e)" by fastforce
  obtain r1 w1 where 1: "sys_write S (conn_fd c0) f w = (r1, w1)" by fastforce
  have w1: "at_rest fd n (c0, w1)" using r0 1 by (rule rest_sys(2))
  have w2: "at_rest fd n (c0, w2)" if "sys_write S (conn_fd c0) e w1 = (r2, w2)" for r2 w2
    using w1 that by (rule rest_sys(2))
  show ?thesis
    unfolding writeEvent_def Let_def c0_def [symmetric] fe prod.case 1
    using w1 by (auto intro!: rest_close rest_drained [OF A] dest: w2 split: sum.splits prod.splits)
qed

lemma rest_deliver:
  assumes A: "app_ok A" and r: "at_rest fd n (c, w)" and s: "deliver R S A f c w = Ret (d, v)"
  shows "at_rest fd n (d, v)"
proof -
  obtain out acts w1 where 1: "on_message A c f (emit (EffMessage (self c) f) w) = ((out, acts), w1)"
    by (metis surj_pair)
  have "at_rest fd n (c, emit (EffMessage (self c) f) w)" using r by (rule rest_emit) simp_all
  then have w1: "at_rest fd n (c, w1)" using 1 by (rule rest_app(1) [OF A])
  then have api: "run_api S acts c w1 = (c, w1)" by (simp add: at_rest_def closed_api)
  show ?thesis
  proof (cases out)
    case None
    with s 1 api w1 show ?thesis by (auto simp: deliver_def split: if_splits)
  next
    case (Some b)
    with s 1 api obtain r :: "go_error + bytes" where "(case r of Inl _ \<Rightarrow> Ret (c, w1) | Inr outFrame \<Rightarrow>
        if outFrame \<noteq> [] then Ret (conn_write R S A outFrame c w1) else Ret (c, w1)) = Ret (d, v)"
      by (auto simp: deliver_def bind_eq_Some_conv split: if_splits)
    with w1 show ?thesis by (auto split: sum.splits if_splits intro: rest_writeD)
  qed
qed

lemma rest_readEvent:
  assumes R: "bufs_ok R cont" and A: "app_ok A" and r: "at_rest fd n (c, w)"
    and s: "readEvent R S A c w = Ret (d, v)"
  shows "at_rest fd n (d, v)"
proof -
  define c0 where "c0 = updateActivityTime S c w"
  have r0: "at_rest fd n (c0, w)" using r by (simp add: c0_def)
  obtain x w1 where x: "sys_read S (conn_fd c0) 65535 w = (x, w1)" by fastforce
  have w1: "at_rest fd n (c0, w1)" using r0 x by (rule rest_sys(1))
  have loop: "at_rest fd n (d', v')"
    if "read_loop R S A (c0\<lparr>temporaryBuf := b\<rparr>) w1 = Ret (d', v')" for b d' v'
  proof -
    have dec: "at_rest fd n (e, u)"
      if "at_rest fd n (c', u)" "ICodec_Decode (codeImp c') (connect_Conn R) c' = Ret (r, e)" for c' u r e
      using that(1) decode_shell [OF R that(2)] by (simp add: at_rest_def same_shell_def)
    from read_loop_keeps [of "\<lambda>c' u. at_rest fd n (c', u)", OF dec rest_deliver [OF A] that] w1
    show ?thesis by simp
  qed
  from s show ?thesis
    unfolding readEvent_def Let_def c0_def [symmetric] x prod.case
    using rest_enable(2) [OF r0, of S False] rest_close [OF w1, of S A] w1
    by (auto simp: bind_eq_Some_conv loop split: if_splits sum.splits)
qed

text \<open>Registration closes nothing either, and no step of the system does.\<close>

lemma ConnectedHandle_closes:
  "ConnectedHandle S c w = (err, d, v) \<Longrightarrow>
     closes fd (trace v) = closes fd (trace w) \<and> goodbyes i (trace v) = goodbyes i (trace w)"
  by (auto simp: ConnectedHandle_def EnableReading_def EnableErrorEvent_def Let_def Register_def
      EventCtrl_addEvent_def Multiplex_AddEvent_def epollCtrl_def sys_epoll_ctl_def
      dest!: update_closes [of _ _ _ _ _ _ fd i] split: prod.splits option.splits)

lemma rest_step:
  assumes "bufs_ok R cont" "app_ok A" and r: "at_rest fd n (c, w)" and s: "conn_step R S A (c, w) (d, v)"
  shows "at_rest fd n (d, v)"
  using s
proof (rule conn_stepE)
  fix h
  assume "run_handler R S A h c w = Ret (d, v)"
  then show ?thesis
    using rest_readEvent [OF assms(1,2) r] rest_writeEvent [OF assms(2) r, of R S] rest_close [OF r, of S A] r
    by (cases h) (auto simp: errEvent_def)
next
  fix t
  assume "run_task R S A t c w = (d, v)"
  then show ?thesis
    using rest_writeD [OF _ r, where R = R and S = S and A = A] rest_close [OF r, of S A] r by (cases t) auto
next
  fix a
  assume "run_api S [a] c w = (d, v)"
  then show ?thesis using rest_api [OF r, of S "[a]"] by simp
next
  assume "d = c" "v = closeTimeoutConn S c w"
  with r show ?thesis
    by (simp add: at_rest_def closeTimeoutConn_def Connect_Close_def Let_def)
next
  assume "d = c" "around (conn_fd c) (self c) w v"
  with r show ?thesis by (auto simp: at_rest_def around_views)
qed

end
