(* ===== verification/ServerViews.thy ===== *)
theory ServerViews
  imports ServerLemmas ConnAlone ConnRest
begin

text \<open>
  The loops of a server one by one: \<open>core_at j\<close> is the state of loop \<open>j\<close> wherever it is kept,
  \<open>view j\<close> the world as loop \<open>j\<close> sees it. \<open>srv_acts\<close> says what an operation of one connection, run
  on its own loop, changes of a server: that loop's queue and one entry of its pool, and nothing
  that another connection could notice.
\<close>

section \<open>Loops in view\<close>

definition core_at :: "nat \<Rightarrow> ('k, 'rb, 'bb, 'l) server \<Rightarrow> loop_core" where
  "core_at j w = (if j = current w then core_of w else loops w ! j)"

definition view :: "nat \<Rightarrow> ('k, 'rb, 'bb, 'l) server \<Rightarrow> ('k, 'rb, 'bb, 'l) server" where
  "view j w = (if j = current w then w else switch_to j w)"

lemma core_of_fields [simp]:
  "core_eventPool (core_of w) = eventPool w" "core_multi (core_of w) = multi w"
  "core_loopFunctions (core_of w) = loopFunctions w" "core_running (core_of w) = running w"
  "core_SequenceID (core_of w) = SequenceID w"
  by (simp_all add: core_of_def)

lemma core_of_load [simp]: "core_of (load_core k w) = k"
  by (simp add: core_of_def load_core_def)

lemma core_of_server [simp]:
  "core_of (w\<lparr>conns := x\<rparr>) = core_of w" "core_of (w\<lparr>conn_loop := y\<rparr>) = core_of w"
  "core_of (w\<lparr>next_conn := n\<rparr>) = core_of w" "core_of (w\<lparr>connectPool := p\<rparr>) = core_of w"
  "core_of (w\<lparr>nextLoopIndex := z\<rparr>) = core_of w" "core_of (w\<lparr>tcpAccept := a\<rparr>) = core_of w"
  "core_of (w\<lparr>kern := k\<rparr>) = core_of w" "core_of (emit e w) = core_of w"
  by (simp_all add: core_of_def emit_def)

lemma core_at_server [simp]:
  "core_at j (w\<lparr>conns := x\<rparr>) = core_at j w" "core_at j (w\<lparr>conn_loop := y\<rparr>) = core_at j w"
  "core_at j (w\<lparr>next_conn := n\<rparr>) = core_at j w" "core_at j (w\<lparr>connectPool := p\<rparr>) = core_at j w"
  "core_at j (w\<lparr>nextLoopIndex := z\<rparr>) = core_at j w" "core_at j (w\<lparr>tcpAccept := a\<rparr>) = core_at j w"
  "core_at j (w\<lparr>kern := k\<rparr>) = core_at j w" "core_at j (emit e w) = core_at j w"
  by (simp_all add: core_at_def) (simp_all add: emit_def)

lemma core_at_current: "core_at (current w) w = core_of w"
  by (simp add: core_at_def)

lemma core_at_switch:
  assumes "j < length (loops w)" "j' < length (loops w)"
  shows "core_at j' (switch_to j w) = core_at j' w"
  using assms by (auto simp: core_at_def switch_to_def Let_def load_core_def core_of_def)

lemma core_of_view: "j < length (loops w) \<Longrightarrow> core_of (view j w) = core_at j w"
  by (auto simp: view_def core_at_def switch_to_def Let_def)

lemma view_current [simp]: "view (current w) w = w"
  by (simp add: view_def)

lemma view_fields [simp]:
  "kern (view j w) = kern w" "trace (view j w) = trace w" "current (view j w) = j"
  "options (view j w) = options w" "conns (view j w) = conns w"
  by (simp_all add: view_def)

lemma view_core:
  assumes "j < length (loops w)"
  shows "eventPool (view j w) = core_eventPool (core_at j w)" "multi (view j w) = core_multi (core_at j w)"
    "loopFunctions (view j w) = core_loopFunctions (core_at j w)"
  using core_of_view [OF assms] by (metis core_of_fields)+

abbreviation wake_at :: "nat \<Rightarrow> ('k, 'rb, 'bb, 'l) server \<Rightarrow> int" where
  "wake_at j w \<equiv> mx_wakeEventFd (core_multi (core_at j w))"

section \<open>What no loop touches\<close>

definition server_view where
  "server_view w = (current w, loops w, conns w, conn_loop w, next_conn w, tcpAccept w, options w, nextLoopIndex w)"

interpretation server_rest: loop_view "server_view :: ('k, 'rb, 'bb, 'l) server \<Rightarrow> _"
  by unfold_locales (simp_all add: server_view_def)

lemma server_app_keeps:
  assumes "handle_ok H"
  shows "app_keeps server_view (server_app H)"
proof -
  have r: "server_view (removeConnect a w) = server_view w" for a w
    by (simp add: server_view_def removeConnect_def)
  have "app_ok (server_app H)" using server_app_ok [OF assms] .
  moreover have "server_view w' = server_view w" if "on_message (server_app H) c f w = (r, w')" for c f w r w'
    using that by (auto simp: server_app_def server_view_def dest!: handle_okD(2) [OF assms])
  moreover have "server_view w' = server_view w" if "on_close (server_app H) c w = (as, w')" for c w as w'
    using that by (auto simp: server_app_def connectCloseEvent_def r dest!: handle_okD(4) [OF assms]
        split: prod.splits) (simp add: server_view_def)
  moreover have "server_view w' = server_view w" if "on_write_complete (server_app H) c w = (as, w')" for c w as w'
    using that by (auto simp: server_app_def server_view_def dest!: handle_okD(3) [OF assms])
  ultimately show ?thesis unfolding app_keeps_def by blast
qed

section \<open>Operations of one connection, seen from the server\<close>

text \<open>\<open>ts\<close> is what is added to the queue of loop \<open>j\<close>, \<open>fd\<close> and \<open>i\<close> what the change is about.\<close>

definition same_rest :: "('k, 'rb, 'bb, 'l) server \<Rightarrow> ('k, 'rb, 'bb, 'l) server \<Rightarrow> bool" where
  "same_rest w v \<longleftrightarrow>
     current v = current w \<and> length (loops v) = length (loops w) \<and> conns v = conns w \<and>
     conn_loop v = conn_loop w \<and> next_conn v = next_conn w \<and> tcpAccept v = tcpAccept w \<and>
     options v = options w \<and> nextLoopIndex v = nextLoopIndex w"

definition srv_acts ::
  "int \<Rightarrow> nat \<Rightarrow> nat \<Rightarrow> task list \<Rightarrow> ('k, 'rb, 'bb, 'l) server \<Rightarrow> ('k, 'rb, 'bb, 'l) server \<Rightarrow> bool" where
  "srv_acts fd i j ts w v \<longleftrightarrow> same_rest w v \<and>
     (\<forall>j' < length (loops w). j' \<noteq> j \<longrightarrow> core_at j' v = core_at j' w) \<and>
     core_multi (core_at j v) = core_multi (core_at j w) \<and>
     core_loopFunctions (core_at j v) = core_loopFunctions (core_at j w) @ ts \<and>
     (\<forall>fd'. fd' \<noteq> fd \<longrightarrow> core_eventPool (core_at j v) fd' = core_eventPool (core_at j w) fd') \<and>
     core_eventPool (core_at j v) fd \<in> {core_eventPool (core_at j w) fd, None, Some (ConnEvent i)} \<and>
     (\<exists>es. trace v = trace w @ es \<and>
        (\<forall>fd' i'. fd' \<noteq> fd \<longrightarrow> i' \<noteq> i \<longrightarrow> fd' \<noteq> wake_at j w \<longrightarrow> list_all (foreign fd' i') es))"

text \<open>Two worlds that differ only outside what loop \<open>j\<close>'s connections can see.\<close>

definition gl_around :: "int \<Rightarrow> nat \<Rightarrow> ('k, 'rb, 'bb, 'l) server \<Rightarrow> ('k, 'rb, 'bb, 'l) server \<Rightarrow> bool" where
  "gl_around fd i w v \<longleftrightarrow> length (loops v) = length (loops w) \<and>
     (\<forall>j < length (loops w). around fd i (view j w) (view j v))"

lemma around_view:
  assumes "j < length (loops w)" "length (loops v) = length (loops w)"
  shows "around fd i (view j w) (view j v) \<longleftrightarrow>
    (\<exists>es. trace v = trace w @ es \<and> list_all (foreign fd i) es) \<and>
    core_eventPool (core_at j v) fd = core_eventPool (core_at j w) fd \<and>
    mx_fd (core_multi (core_at j v)) = mx_fd (core_multi (core_at j w)) \<and>
    wake_at j v = wake_at j w"
  using assms by (simp add: around_def view_core)

lemma gl_around_refl [simp]: "gl_around fd i w w"
  by (simp add: gl_around_def)

lemma gl_around_trans: "gl_around fd i w v \<Longrightarrow> gl_around fd i v u \<Longrightarrow> gl_around fd i w u"
  unfolding gl_around_def by (metis around_trans)

lemma srv_acts_around:
  assumes "srv_acts fd i j ts w v" "fd' \<noteq> fd" "i' \<noteq> i" "fd' \<noteq> wake_at j w"
  shows "gl_around fd' i' w v"
proof -
  obtain es where es: "trace v = trace w @ es" "list_all (foreign fd' i') es"
    using assms unfolding srv_acts_def by blast
  have len: "length (loops v) = length (loops w)" using assms(1) by (simp add: srv_acts_def same_rest_def)
  have "around fd' i' (view j' w) (view j' v)" if "j' < length (loops w)" for j'
    unfolding around_view [OF that len]
    using assms(1,2) es that by (cases "j' = j") (simp_all add: srv_acts_def)
  with len show ?thesis by (simp add: gl_around_def)
qed

lemma srv_acts_trans:
  assumes "srv_acts fd i j ts w v" "srv_acts fd i j us v u"
  shows "srv_acts fd i j (ts @ us) w u"
proof -
  obtain es where es: "trace v = trace w @ es"
    "\<And>fd' i'. fd' \<noteq> fd \<Longrightarrow> i' \<noteq> i \<Longrightarrow> fd' \<noteq> wake_at j w \<Longrightarrow> list_all (foreign fd' i') es"
    using assms(1) unfolding srv_acts_def by blast
  have wake: "wake_at j v = wake_at j w" using assms(1) by (simp add: srv_acts_def)
  obtain fs where fs: "trace u = trace v @ fs"
    "\<And>fd' i'. fd' \<noteq> fd \<Longrightarrow> i' \<noteq> i \<Longrightarrow> fd' \<noteq> wake_at j v \<Longrightarrow> list_all (foreign fd' i') fs"
    using assms(2) unfolding srv_acts_def by blast
  have "trace u = trace w @ es @ fs" using es fs by simp
  moreover have "list_all (foreign fd' i') (es @ fs)"
    if "fd' \<noteq> fd" "i' \<noteq> i" "fd' \<noteq> wake_at j w" for fd' i'
    using es(2) fs(2) that wake by simp
  ultimately show ?thesis
    using assms unfolding srv_acts_def same_rest_def by auto
qed

lemma acts_alone_trace:
  "acts_alone S V fd i w v \<Longrightarrow> \<exists>es. trace v = trace w @ es \<and>
     (\<forall>fd' i'. fd' \<noteq> fd \<longrightarrow> i' \<noteq> i \<longrightarrow> fd' \<noteq> mx_wakeEventFd (multi w) \<longrightarrow> list_all (foreign fd' i') es)"
proof (induction rule: acts_alone.induct)
  case (effect v e)
  then show ?case by (auto simp: own_foreign)
next
  case (post v t)
  obtain r where "trace (RunInLoop S t v) = trace v @ [EffWrite (mx_wakeEventFd (multi v)) wakeBytes r]"
    using RunInLoop_world [of S t v] by auto
  with post acts_alone_multi [OF post(1)] show ?case by auto
qed auto

lemma acts_alone_srv:
  assumes a: "acts_alone S server_view fd i w v" and j: "j = current w" "j < length (loops w)"
  shows "\<exists>ts. list_all (method_task i) ts \<and> srv_acts fd i j ts w v"
proof -
  have V: "server_view v = server_view w" using server_rest.acts_alone_view [OF a] .
  then have rest: "same_rest w v" "loops v = loops w" "current v = j" using j
    by (simp_all add: server_view_def same_rest_def)
  obtain ts where ts: "loopFunctions v = loopFunctions w @ ts" "list_all (method_task i) ts"
    using acts_alone_posts [OF a] by blast
  have "srv_acts fd i j ts w v"
    unfolding srv_acts_def
    using rest ts j acts_alone_multi [OF a] acts_alone_pool [OF a] acts_alone_entry [OF a]
      acts_alone_trace [OF a]
    by (auto simp: core_at_def)
  with ts show ?thesis by blast
qed

text \<open>The same for a loop that is not the current one.\<close>

lemma srv_acts_switch:
  assumes s: "srv_acts fd i j ts (switch_to j w) v" and j: "j < length (loops w)" "current w < length (loops w)"
  shows "srv_acts fd i j ts w (switch_to (current w) v)"
proof -
  have rest: "same_rest (switch_to j w) v" using s by (simp add: srv_acts_def)
  then have len: "length (loops v) = length (loops w)" by (simp add: same_rest_def)
  have core: "core_at j' (switch_to (current w) v) = core_at j' v"
      "core_at j' (switch_to j w) = core_at j' w" if "j' < length (loops w)" for j'
    using that j len core_at_switch by (metis (no_types))+
  have "same_rest w (switch_to (current w) v)" using rest by (simp add: same_rest_def)
  with s j core show ?thesis unfolding srv_acts_def by simp
qed

lemma on_loop_srv:
  assumes a: "\<And>u. acts_alone S server_view fd i u (f u)"
    and j: "j < length (loops w)" "current w < length (loops w)"
  shows "\<exists>ts. list_all (method_task i) ts \<and> srv_acts fd i j ts w (on_loop j f w)"
proof (cases "j = current w")
  case True
  with acts_alone_srv [OF a [of w] True j(1)] show ?thesis by (simp add: on_loop_def)
next
  case False
  obtain ts where "list_all (method_task i) ts" "srv_acts fd i j ts (switch_to j w) (f (switch_to j w))"
    using acts_alone_srv [OF a [of "switch_to j w"]] j by force
  with srv_acts_switch [OF _ j] False show ?thesis by (auto simp: on_loop_def)
qed

end
