(* ===== verification/ServerSystem.thy ===== *)
theory ServerSystem
  imports ServerViews
begin

text \<open>
  The whole server as a step relation. A configuration is a server and, for every loop, the
  functions its goroutine has taken out of the queue and not yet run (\<open>functionsTemp\<close> of
  \<open>runAllFunctionInLoop\<close>). The goroutines of the loops, the application's goroutines and the
  timers take turns; a step is a handler, a queued function or a call of a public method. The rule
  \<open>start\<close> is the part of \<open>Start\<close> before the loops run, which they may do in this model at any time.

  The kernel is arbitrary but for one thing: a descriptor that \<open>accept\<close> returns has not been used
  before (\<open>unused\<close>). Real kernels reuse closed descriptors, and the code is not safe then: see
  \<open>late_write_to_closed\<close>.
\<close>

type_synonym ('k, 'rb, 'bb, 'l) config = "('k, 'rb, 'bb, 'l) server \<times> (nat \<Rightarrow> task list)"

definition unused :: "int \<Rightarrow> ('k, 'rb, 'bb, 'l) server \<Rightarrow> bool" where
  "unused fd w \<longleftrightarrow>
     (\<forall>j < length (loops w). wake_at j w \<noteq> fd) \<and> eventFd (acc_event (tcpAccept w)) \<noteq> fd \<and>
     (\<forall>i c. conns w i = Some c \<longrightarrow> conn_fd c \<noteq> fd) \<and>
     sent fd (trace w) = [] \<and> received fd (trace w) = [] \<and> closes fd (trace w) = 0 \<and>
     ctls fd (trace w) = []"

definition accepts_unused :: "'k sys \<Rightarrow> ('k, 'rb, 'bb, 'l) server \<Rightarrow> bool" where
  "accepts_unused S w \<longleftrightarrow> (\<forall>fd sa k.
     k_accept S (acc_fd (tcpAccept w)) (kern w) = (Inr (fd, sa), k) \<longrightarrow> unused fd w)"

definition call_api :: "'k sys \<Rightarrow> api \<Rightarrow> nat \<Rightarrow> ('rb, 'bb) conn \<Rightarrow> ('k, 'rb, 'bb, 'l) server \<Rightarrow>
     ('k, 'rb, 'bb, 'l) server" where
  "call_api S a i c w = (case run_api S [a] c w of (d, v) \<Rightarrow> put_conn i d v)"

inductive server_step ::
  "('k, 'l) netlib \<Rightarrow> ('rb, 'bb) bufs \<Rightarrow> 'k sys \<Rightarrow> (nat \<Rightarrow> 'rb \<times> 'rb) \<Rightarrow>
   ('rb, 'bb, ('k, 'rb, 'bb, 'l) server) handle_event \<Rightarrow>
     ('k, 'rb, 'bb, 'l) config \<Rightarrow> ('k, 'rb, 'bb, 'l) config \<Rightarrow> bool"
  for N R S P H where
  switch: "server_step N R S P H (w, b) (switch_to j w, b)" if "j < length (loops w)"
| env: "server_step N R S P H (w, b) (w\<lparr>kern := k\<rparr>, b)"
| start: "server_step N R S P H (w, b) (v, b)" if "current w = 0" and "Server_Start tw S w = Ret v"
| event: "server_step N R S P H (w, b) (v, b)"
    if "eventPool w fd = Some p" and "server_deref p w = Some e" and "HandleEvent e revents = Some h"
      and "p = AcceptorEvent \<longrightarrow> accepts_unused S w" and "server_handler R S P H h w = Ret v"
| wake: "server_step N R S P H (w, b) (wakeHandlerRead S (multi w) w, b)"
| grow: "server_step N R S P H (w, b) (w\<lparr>multi := (multi w)\<lparr>mx_waitEvents_len := n\<rparr>\<rparr>, b)"
| swap: "server_step N R S P H (w, b) (w\<lparr>loopFunctions := []\<rparr>, b(current w := loopFunctions w))"
    if "b (current w) = []"
| execute: "server_step N R S P H (w, b) (v, b(current w := ts))"
    if "b (current w) = t # ts" and "server_task N R S H t w = Ret v"
| running: "server_step N R S P H (w, b) (w\<lparr>running := r\<rparr>, b)"
| call: "server_step N R S P H (w, b) (on_loop (conn_loop w i) (call_api S a i c) w, b)"
    if "conns w i = Some c"
| timer: "server_step N R S P H (w, b) (on_loop (conn_loop w i) (closeTimeoutConn S c) w, b)"
    if "conns w i = Some c"
| stop: "server_step N R S P H (w, b) (on_loop 0 (Accept_Close S) w, b)"

text \<open>
  The loop over the pool in \<open>Stop\<close> is a series of \<open>call\<close> steps. \<open>runtime.NumCPU\<close> is at least 1.
\<close>

inductive server_reachable ::
  "('k, 'l) netlib \<Rightarrow> ('rb, 'bb) bufs \<Rightarrow> 'k sys \<Rightarrow> (nat \<Rightarrow> 'rb \<times> 'rb) \<Rightarrow>
   ('rb, 'bb, ('k, 'rb, 'bb, 'l) server) handle_event \<Rightarrow> Option list \<Rightarrow>
     ('k, 'rb, 'bb, 'l) config \<Rightarrow> bool"
  for N R S P H opts where
  created: "server_reachable N R S P H opts (w, \<lambda>_. [])"
    if "trace w0 = []" and "0 < cpus" and "Server_New N S cpus opts w0 = (Inr w, w1)"
| step: "server_reachable N R S P H opts s'"
    if "server_reachable N R S P H opts s" and "server_step N R S P H s s'"

section \<open>The invariant\<close>

definition tasks_at :: "nat \<Rightarrow> ('k, 'rb, 'bb, 'l) config \<Rightarrow> task list" where
  "tasks_at j s = snd s j @ core_loopFunctions (core_at j (fst s))"

text \<open>A connection that has been created and whose registration is still in the queue.\<close>

definition awaiting ::
  "('rb, 'bb) bufs \<Rightarrow> 'k sys \<Rightarrow> ICodec \<Rightarrow> nat \<Rightarrow> ('rb, 'bb) conn \<Rightarrow> ('k, 'rb, 'bb, 'l) server \<Rightarrow> bool" where
  "awaiting R S cd i c u \<longleftrightarrow> (\<exists>w0 w1 sa idle out0 in0 c0.
     fresh (conn_fd c) i w0 \<and>
     Connect_New R S i (conn_fd c) sa idle cd out0 in0 w0 = (Inr c0, w1) \<and>
     around (conn_fd c) i w1 u \<and> c = with_callbacks c0)"

lemma awaiting_rest:
  assumes R: "bufs_ok R cont" and a: "awaiting R S cd i c u"
  shows "at_rest (conn_fd c) 0 (c, u)"
proof -
  obtain w0 w1 sa idle out0 in0 c0 where fr: "fresh (conn_fd c) i w0"
    and new: "Connect_New R S i (conn_fd c) sa idle cd out0 in0 w0 = (Inr c0, w1)"
    and ar: "around (conn_fd c) i w1 u" and c: "c = with_callbacks c0"
    using a unfolding awaiting_def by blast
  have "newborn cont (conn_fd c) i cd c" using Connect_New_newborn(2) [OF R new] c by simp
  moreover have "fresh (conn_fd c) i w1" using Connect_New_newborn(3) [OF R new fr] .
  ultimately show ?thesis using around_views [OF ar] by (simp add: at_rest_def newborn_def fresh_def)
qed

definition handlers_of :: "nat \<Rightarrow> Event \<Rightarrow> bool" where
  "handlers_of i e \<longleftrightarrow> eventAddr e = ConnEvent i \<and> readHandle e = Some (ReadHandler i) \<and>
     writeHandle e = Some (WriteHandler i) \<and> errorHandle e = Some (ErrHandler i) \<and>
     closeHandle e = Some (CloseHandler i)"

definition conn_phase ::
  "('rb, 'bb) bufs \<Rightarrow> 'k sys \<Rightarrow> ('rb, 'bb, ('k, 'rb, 'bb, 'l) server) handle_event \<Rightarrow> ICodec \<Rightarrow>
     nat \<Rightarrow> ('rb, 'bb) conn \<Rightarrow> task list \<Rightarrow> ('k, 'rb, 'bb, 'l) server \<Rightarrow> bool" where
  "conn_phase R S H cd i c ts u \<longleftrightarrow>
     count_list ts (TaskConnected i) = 1 \<and> list_all (\<lambda>t. \<not> method_task i t) ts \<and> awaiting R S cd i c u \<or>
     TaskConnected i \<notin> set ts \<and>
       (at_rest (conn_fd c) 0 (c, u) \<or> conn_reachable R S (server_app H) cd (c, u))"

definition conn_place :: "('k, 'rb, 'bb, 'l) server \<Rightarrow> nat \<Rightarrow> ('rb, 'bb) conn \<Rightarrow> bool" where
  "conn_place w i c \<longleftrightarrow>
     self c = i \<and> i < next_conn w \<and> conn_loop w i < length (loops w) \<and>
     eventFd (event c) = conn_fd c \<and> handlers_of i (event c) \<and>
     messageCallback c \<and> connectCloseCallback c \<and> GetCode (options w) = Some (codeImp c) \<and>
     (\<forall>k < length (loops w). wake_at k w \<noteq> conn_fd c) \<and>
     eventFd (acc_event (tcpAccept w)) \<noteq> conn_fd c \<and>
     (\<forall>i' c'. i' \<noteq> i \<longrightarrow> conns w i' = Some c' \<longrightarrow> conn_fd c' \<noteq> conn_fd c)"

definition acceptor_ok :: "('k, 'rb, 'bb, 'l) server \<Rightarrow> bool" where
  "acceptor_ok w \<longleftrightarrow> lb_ok w \<and> acc_newConnectCallback (tcpAccept w) \<and>
     eventAddr (acc_event (tcpAccept w)) = AcceptorEvent \<and>
     readHandle (acc_event (tcpAccept w)) = Some AcceptHandle \<and>
     writeHandle (acc_event (tcpAccept w)) = None \<and> errorHandle (acc_event (tcpAccept w)) = None \<and>
     closeHandle (acc_event (tcpAccept w)) = None"

definition unborn :: "('k, 'rb, 'bb, 'l) server \<Rightarrow> bool" where
  "unborn w \<longleftrightarrow> (\<forall>i \<ge> next_conn w. submitted i (trace w) = [] \<and> delivered i (trace w) = [] \<and> goodbyes i (trace w) = [] \<and> conns w i = None)"

definition tasks_placed :: "('k, 'rb, 'bb, 'l) config \<Rightarrow> bool" where
  "tasks_placed s \<longleftrightarrow> (\<forall>j < length (loops (fst s)). \<forall>t \<in> set (tasks_at j s). \<forall>i. task_conn t = Some i \<longrightarrow>
     i < next_conn (fst s) \<and> conn_loop (fst s) i = j \<and> conns (fst s) i \<noteq> None)"

definition pool_placed :: "('k, 'rb, 'bb, 'l) config \<Rightarrow> bool" where
  "pool_placed s \<longleftrightarrow> (\<forall>j < length (loops (fst s)). \<forall>fd i.
     core_eventPool (core_at j (fst s)) fd = Some (ConnEvent i) \<longrightarrow>
       conn_loop (fst s) i = j \<and> TaskConnected i \<notin> set (tasks_at j s) \<and>
       (\<exists>c. conns (fst s) i = Some c \<and> conn_fd c = fd))"

definition server_inv ::
  "('rb, 'bb) bufs \<Rightarrow> 'k sys \<Rightarrow> ('rb, 'bb, ('k, 'rb, 'bb, 'l) server) handle_event \<Rightarrow> ICodec \<Rightarrow>
     ('k, 'rb, 'bb, 'l) config \<Rightarrow> bool" where
  "server_inv R S H cd s \<longleftrightarrow>
     current (fst s) < length (loops (fst s)) \<and> GetCode (options (fst s)) = Some cd \<and>
     acceptor_ok (fst s) \<and> unborn (fst s) \<and> tasks_placed s \<and> pool_placed s \<and>
     (\<forall>i c. conns (fst s) i = Some c \<longrightarrow> conn_place (fst s) i c \<and>
        conn_phase R S H cd i c (tasks_at (conn_loop (fst s) i) s) (view (conn_loop (fst s) i) (fst s)))"

section \<open>What leaves a connection's part of the invariant alone\<close>

lemma conn_reachable_around:
  "conn_reachable R S A cd (c, u) \<Longrightarrow> around (conn_fd c) (self c) u v \<Longrightarrow> conn_reachable R S A cd (c, v)"
  by (erule conn_reachable.step) (rule conn_step.other)

lemma phase_frame:
  assumes "conn_phase R S H cd i c ts u" "self c = i" "around (conn_fd c) i u v"
    and "count_list ts' (TaskConnected i) = count_list ts (TaskConnected i)"
    and "filter (method_task i) ts' = filter (method_task i) ts"
  shows "conn_phase R S H cd i c ts' v"
proof -
  have "TaskConnected i \<in> set ts' \<longleftrightarrow> TaskConnected i \<in> set ts"
    using assms(4) by (metis count_list_0_iff)
  moreover have "list_all (\<lambda>t. \<not> method_task i t) ts' \<longleftrightarrow> list_all (\<lambda>t. \<not> method_task i t) ts"
    using assms(5) by (simp add: list_all_iff) (metis (no_types, lifting) filter_empty_conv)
  moreover have "awaiting R S cd i c u \<Longrightarrow> awaiting R S cd i c v"
  proof -
    assume "awaiting R S cd i c u"
    then obtain w0 w1 sa idle out0 in0 c0 where "fresh (conn_fd c) i w0"
      "Connect_New R S i (conn_fd c) sa idle cd out0 in0 w0 = (Inr c0, w1)"
      "around (conn_fd c) i w1 u" "c = with_callbacks c0" unfolding awaiting_def by blast
    moreover from this(3) assms(3) have "around (conn_fd c) i w1 v" by (rule around_trans)
    ultimately show ?thesis unfolding awaiting_def by blast
  qed
  moreover have "conn_reachable R S (server_app H) cd (c, u) \<Longrightarrow> conn_reachable R S (server_app H) cd (c, v)"
    using conn_reachable_around assms(2,3) by blast
  moreover have "at_rest (conn_fd c) 0 (c, u) \<Longrightarrow> at_rest (conn_fd c) 0 (c, v)"
    using around_views [OF assms(3)] assms(2) by (simp add: at_rest_def)
  ultimately show ?thesis using assms(1,4) unfolding conn_phase_def by metis
qed

lemma place_frame:
  assumes "conn_place w i c" "conn_loop v i = conn_loop w i" "next_conn w \<le> next_conn v"
    and "gl_around fd i w v" "eventFd (acc_event (tcpAccept v)) = eventFd (acc_event (tcpAccept w))"
    and "options v = options w"
    and "\<forall>i' c'. i' \<noteq> i \<longrightarrow> conns v i' = Some c' \<longrightarrow> conn_fd c' \<noteq> conn_fd c"
  shows "conn_place v i c"
proof -
  have len: "length (loops v) = length (loops w)" using assms(4) by (simp add: gl_around_def)
  have "wake_at k v = wake_at k w" if "k < length (loops w)" for k
  proof -
    have "around fd i (view k w) (view k v)" using assms(4) that by (simp add: gl_around_def)
    then show ?thesis by (simp only: around_view [OF that len])
  qed
  with assms len show ?thesis unfolding conn_place_def by auto
qed

section \<open>An operation of one connection\<close>

lemma method_task_conn: "method_task i t \<Longrightarrow> task_conn t = Some i"
  by (cases t) auto

lemma count_zero: "(\<And>t. t \<in> set ts \<Longrightarrow> task_conn t = Some i) \<Longrightarrow> i' \<noteq> i \<Longrightarrow>
    count_list ts (TaskConnected i') = 0 \<and> filter (method_task i') ts = []"
proof (induction ts)
  case (Cons t ts)
  then have "task_conn t = Some i" by simp
  with Cons show ?case by (cases t) auto
qed simp

text \<open>The general form: \<open>pre\<close> is what the loop's goroutine took off its batch for the operation.\<close>

lemma operation_inv:
  assumes inv: "server_inv R S H cd (w, b)" and c: "conns w i = Some c" and j: "j = conn_loop w i"
    and acts: "srv_acts (conn_fd c) i j ts w W" and ts: "list_all (method_task i) ts"
    and batch: "b j = pre @ b' j" "\<And>k. k \<noteq> j \<Longrightarrow> b' k = b k" "\<And>t. t \<in> set pre \<Longrightarrow> task_conn t = Some i"
    and static: "self d = self c" "conn_fd d = conn_fd c" "ev_static (event d) = ev_static (event c)"
      "codeImp d = codeImp c" "messageCallback d = messageCallback c"
      "connectCloseCallback d = connectCloseCallback c"
    and phase: "conn_phase R S H cd i d (tasks_at j (W, b')) (view j W)"
    and entry: "TaskConnected i \<in> set (tasks_at j (W, b')) \<Longrightarrow>
      core_eventPool (core_at j W) (conn_fd c) \<noteq> Some (ConnEvent i)"
  shows "server_inv R S H cd (put_conn i d W, b')"
proof -
  let ?v = "put_conn i d W"
  have place: "conn_place w i c" using inv c by (simp add: server_inv_def)
  then have jl: "j < length (loops w)" "i < next_conn w" by (simp_all add: conn_place_def j)
  have rest: "same_rest w W" using acts by (simp add: srv_acts_def)
  have len: "length (loops ?v) = length (loops w)" using rest by (simp add: same_rest_def put_conn_def)
  have fields: "conns ?v = (conns w)(i \<mapsto> d)" "conn_loop ?v = conn_loop w" "next_conn ?v = next_conn w"
    "tcpAccept ?v = tcpAccept w" "current ?v = current w" "options ?v = options w"
    using rest by (simp_all add: same_rest_def put_conn_def)
  have core: "core_at k ?v = core_at k W" for k by (simp add: put_conn_def)
  have tasks: "tasks_at j (?v, b') = b' j @ core_loopFunctions (core_at j w) @ ts"
    "k < length (loops w) \<Longrightarrow> k \<noteq> j \<Longrightarrow> tasks_at k (?v, b') = tasks_at k (w, b)" for k
    using acts batch(2) by (simp_all add: tasks_at_def core srv_acts_def)
  have old: "tasks_at j (w, b) = pre @ b' j @ core_loopFunctions (core_at j w)"
    using batch(1) by (simp add: tasks_at_def)
  have view: "view k ?v = put_conn i d (view k W)" for k
    by (simp add: view_def put_conn_def switch_to_def load_core_def core_of_def Let_def)
  have to_v: "gl_around fd i' W ?v" for fd i'
    using len rest unfolding gl_around_def view by (simp add: around_def put_conn_def same_rest_def)
  have glob: "gl_around fd' i' w ?v" if "fd' \<noteq> conn_fd c" "i' \<noteq> i" "fd' \<noteq> wake_at j w" for fd' i'
    using srv_acts_around [OF acts that] to_v by (rule gl_around_trans)
  have views: "trace ?v = trace W" by (simp add: put_conn_def)
  obtain es where es: "trace W = trace w @ es"
    "\<And>fd' i'. fd' \<noteq> conn_fd c \<Longrightarrow> i' \<noteq> i \<Longrightarrow> fd' \<noteq> wake_at j w \<Longrightarrow> list_all (foreign fd' i') es"
    using acts unfolding srv_acts_def by blast
  have "unborn ?v"
    unfolding unborn_def
  proof (intro allI impI)
    fix i' assume i': "next_conn ?v \<le> i'"
    then have ne: "i' \<noteq> i" using jl fields by auto
    obtain fd' where fd': "fd' \<notin> {conn_fd c, wake_at j w}" using ex_new_if_finite infinite_UNIV_int by blast
    then have "around fd' i' (view j w) (view j ?v)"
      using glob [of fd' i'] ne jl by (simp add: gl_around_def)
    from around_views [OF this] inv i' ne fields
    show "submitted i' (trace ?v) = [] \<and> delivered i' (trace ?v) = [] \<and> goodbyes i' (trace ?v) = [] \<and> conns ?v i' = None"
      by (simp add: server_inv_def unborn_def)
  qed
  moreover have "tasks_placed (?v, b')"
  proof -
    have "task_conn t = Some i' \<longrightarrow> i' < next_conn ?v \<and> conn_loop ?v i' = k \<and> conns ?v i' \<noteq> None"
      if k: "k < length (loops w)" and t: "t \<in> set (tasks_at k (?v, b'))" for k t i'
    proof (cases "t \<in> set (tasks_at k (w, b))")
      case True
      then show ?thesis using inv k fields by (auto simp: server_inv_def tasks_placed_def)
    next
      case False
      then have "k = j" "t \<in> set ts" using t tasks k old by (cases "k = j"; force)+
      then have "task_conn t = Some i" using ts by (auto simp: list_all_iff method_task_conn)
      then show ?thesis using jl fields \<open>k = j\<close> j by auto
    qed
    then show ?thesis using len by (simp add: tasks_placed_def)
  qed
  moreover have "pool_placed (?v, b')"
  proof -
    have "conn_loop ?v i' = k \<and> TaskConnected i' \<notin> set (tasks_at k (?v, b')) \<and>
        (\<exists>c'. conns ?v i' = Some c' \<and> conn_fd c' = fd')"
      if k: "k < length (loops w)" and p: "core_eventPool (core_at k ?v) fd' = Some (ConnEvent i')" for k fd' i'
    proof (cases "core_eventPool (core_at k w) fd' = Some (ConnEvent i')")
      case True
      then have o: "conn_loop w i' = k" "TaskConnected i' \<notin> set (tasks_at k (w, b))"
        "\<exists>c'. conns w i' = Some c' \<and> conn_fd c' = fd'"
        using inv k by (auto simp: server_inv_def pool_placed_def)
      have "TaskConnected i' \<notin> set (tasks_at k (?v, b'))"
      proof (cases "k = j")
        case False
        then show ?thesis using o(2) tasks(2) k by simp
      next
        case True
        have "TaskConnected i' \<notin> set ts" using ts by (auto simp: list_all_iff)
        with True o(2) tasks(1) old show ?thesis by simp
      qed
      with o c static(2) fields show ?thesis by auto
    next
      case False
      have kj: "k = j"
      proof (rule ccontr)
        assume "k \<noteq> j"
        then have "core_at k W = core_at k w" using acts k by (simp add: srv_acts_def)
        with p False core show False by simp
      qed
      have fd': "fd' = conn_fd c"
      proof (rule ccontr)
        assume "fd' \<noteq> conn_fd c"
        then have "core_eventPool (core_at j W) fd' = core_eventPool (core_at j w) fd'"
          using acts by (simp add: srv_acts_def)
        with p False core kj show False by simp
      qed
      have i': "i' = i" using acts p False core kj fd' by (auto simp: srv_acts_def)
      have "TaskConnected i \<notin> set (tasks_at j (W, b'))" using entry p core kj fd' i' by auto
      moreover have "tasks_at j (W, b') = tasks_at j (?v, b')" by (simp add: tasks_at_def core)
      ultimately show ?thesis using kj i' fd' fields j static(2) by simp
    qed
    then show ?thesis using len by (simp add: pool_placed_def)
  qed
  moreover have "conn_place ?v i' c' \<and>
      conn_phase R S H cd i' c' (tasks_at (conn_loop ?v i') (?v, b')) (view (conn_loop ?v i') ?v)"
    if c': "conns ?v i' = Some c'" for i' c'
  proof (cases "i' = i")
    case True
    then have "c' = d" using c' fields by simp
    have uniq: "\<forall>i'' c''. i'' \<noteq> i \<longrightarrow> conns ?v i'' = Some c'' \<longrightarrow> conn_fd c'' \<noteq> conn_fd c"
      using place fields by (auto simp: conn_place_def)
    have wk: "k < length (loops w) \<Longrightarrow> wake_at k ?v = wake_at k w" for k
      using acts core by (cases "k = j") (auto simp: srv_acts_def)
    have "conn_place ?v i d"
      using place uniq wk len fields static ev_static_fields [OF static(3)]
      by (simp add: conn_place_def handlers_of_def)
    moreover have ar: "around (conn_fd d) i (view j W) (view j ?v)"
      using to_v [of "conn_fd d" i] jl len by (simp add: gl_around_def put_conn_def)
    have "conn_phase R S H cd i d (tasks_at j (?v, b')) (view j ?v)"
      by (rule phase_frame [OF phase _ ar]) (use place static(1) core in \<open>simp_all add: conn_place_def tasks_at_def\<close>)
    ultimately show ?thesis using True \<open>c' = d\<close> fields j by simp
  next
    case False
    then have o: "conns w i' = Some c'" using c' fields by simp
    then have pl: "conn_place w i' c'"
      "conn_phase R S H cd i' c' (tasks_at (conn_loop w i') (w, b)) (view (conn_loop w i') w)"
      using inv by (simp_all add: server_inv_def)
    have ne: "conn_fd c' \<noteq> conn_fd c" "conn_fd c' \<noteq> wake_at j w" "self c' = i'" "conn_loop w i' < length (loops w)"
      using pl(1) place False c jl o by (auto simp: conn_place_def)
    have g: "gl_around (conn_fd c') i' w ?v" using glob ne False by simp
    have uniq: "\<forall>i'' c''. i'' \<noteq> i' \<longrightarrow> conns ?v i'' = Some c'' \<longrightarrow> conn_fd c'' \<noteq> conn_fd c'"
      using pl(1) c static(2) fields False ne(1) by (auto simp: conn_place_def)
    have "conn_place ?v i' c'"
      by (rule place_frame [OF pl(1) _ _ g _ _ uniq]) (simp_all add: fields)
    moreover have "conn_phase R S H cd i' c' (tasks_at (conn_loop w i') (?v, b')) (view (conn_loop w i') ?v)"
    proof (rule phase_frame [OF pl(2) ne(3)])
      show "around (conn_fd c') i' (view (conn_loop w i') w) (view (conn_loop w i') ?v)"
        using g ne(4) by (simp add: gl_around_def)
      have "count_list (pre @ ts) (TaskConnected i') = 0 \<and> filter (method_task i') (pre @ ts) = []"
        using ts batch(3) False by (intro count_zero [of _ i]) (auto simp: list_all_iff method_task_conn)
      then show "count_list (tasks_at (conn_loop w i') (?v, b')) (TaskConnected i') =
          count_list (tasks_at (conn_loop w i') (w, b)) (TaskConnected i')"
        "filter (method_task i') (tasks_at (conn_loop w i') (?v, b')) =
          filter (method_task i') (tasks_at (conn_loop w i') (w, b))"
        using tasks old ne(4) by (cases "conn_loop w i' = j"; simp)+
    qed
    ultimately show ?thesis using fields by simp
  qed
  moreover have "nextLoopIndex ?v = nextLoopIndex w" using rest by (simp add: same_rest_def put_conn_def)
  then have "acceptor_ok ?v"
    using inv fields len by (simp add: server_inv_def acceptor_ok_def lb_ok_def n_subLoops_def)
  ultimately show ?thesis using inv len fields by (simp add: server_inv_def)
qed

section \<open>Steps that are not about a connection\<close>

definition conn_tasks :: "task list \<Rightarrow> task list" where
  "conn_tasks ts = filter (\<lambda>t. task_conn t \<noteq> None) ts"

lemma conn_tasks_same:
  assumes "conn_tasks ts' = conn_tasks ts"
  shows "count_list ts' (TaskConnected i) = count_list ts (TaskConnected i)"
    "filter (method_task i) ts' = filter (method_task i) ts"
    "task_conn t \<noteq> None \<Longrightarrow> t \<in> set ts' \<longleftrightarrow> t \<in> set ts"
proof -
  have "count_list us (TaskConnected i) = count_list (conn_tasks us) (TaskConnected i)" for us
    by (induction us) (auto simp: conn_tasks_def)
  then show "count_list ts' (TaskConnected i) = count_list ts (TaskConnected i)" using assms by metis
  have "filter (method_task i) us = filter (method_task i) (conn_tasks us)" for us
    unfolding conn_tasks_def filter_filter
    by (rule filter_cong [OF refl]) (auto dest: method_task_conn)
  then show "filter (method_task i) ts' = filter (method_task i) ts" using assms by metis
  have "task_conn t \<noteq> None \<Longrightarrow> t \<in> set us \<longleftrightarrow> t \<in> set (conn_tasks us)" for us
    by (auto simp: conn_tasks_def)
  then show "task_conn t \<noteq> None \<Longrightarrow> t \<in> set ts' \<longleftrightarrow> t \<in> set ts" using assms by metis
qed

lemma neutral_inv:
  assumes inv: "server_inv R S H cd (w, b)"
    and same: "conns v = conns w" "conn_loop v = conn_loop w" "next_conn w \<le> next_conn v"
      "options v = options w" "ev_static (acc_event (tcpAccept v)) = ev_static (acc_event (tcpAccept w))"
      "acc_newConnectCallback (tcpAccept v) = acc_newConnectCallback (tcpAccept w)" "lb_ok v"
    and cur: "current v < length (loops v)"
    and new: "\<And>i c. conns w i = Some c \<Longrightarrow> conn_fd c \<noteq> x"
    and glob: "\<And>fd i. \<forall>k < length (loops w). wake_at k w \<noteq> fd \<Longrightarrow>
      eventFd (acc_event (tcpAccept w)) \<noteq> fd \<Longrightarrow> fd \<noteq> x \<Longrightarrow>
      i < next_conn w \<or> next_conn v \<le> i \<Longrightarrow> gl_around fd i w v"
    and tasks: "\<And>k. k < length (loops w) \<Longrightarrow>
      conn_tasks (tasks_at k (v, b')) = conn_tasks (tasks_at k (w, b))"
    and pool: "\<And>k fd i. k < length (loops w) \<Longrightarrow> core_eventPool (core_at k v) fd = Some (ConnEvent i) \<Longrightarrow>
      core_eventPool (core_at k w) fd = Some (ConnEvent i)"
  shows "server_inv R S H cd (v, b')"
proof -
  note acc = ev_static_fields [OF same(5)]
  have "finite ((\<lambda>k. wake_at k w) ` {..< length (loops w)} \<union> {eventFd (acc_event (tcpAccept w)), x})" by simp
  from ex_new_if_finite [OF infinite_UNIV_int this] obtain fd0 where new0:
    "fd0 \<notin> (\<lambda>k. wake_at k w) ` {..< length (loops w)} \<union> {eventFd (acc_event (tcpAccept w)), x}" ..
  have fd0: "\<forall>k < length (loops w). wake_at k w \<noteq> fd0" "eventFd (acc_event (tcpAccept w)) \<noteq> fd0" "fd0 \<noteq> x"
    using new0 by (blast, blast, blast)
  have len: "length (loops v) = length (loops w)"
    using glob [OF fd0, of "next_conn v"] by (simp add: gl_around_def)
  have cur0: "current w < length (loops w)" using inv by (simp add: server_inv_def)
  have "unborn v"
    unfolding unborn_def
  proof (intro allI impI)
    fix i assume i: "next_conn v \<le> i"
    have "around fd0 i (view (current w) w) (view (current w) v)"
      using glob [OF fd0, of i] i cur0 unfolding gl_around_def by blast
    from around_views [OF this] inv i same
    show "submitted i (trace v) = [] \<and> delivered i (trace v) = [] \<and> goodbyes i (trace v) = [] \<and> conns v i = None"
      by (simp add: server_inv_def unborn_def)
  qed
  moreover have "tasks_placed (v, b')"
  proof -
    have "i < next_conn v \<and> conn_loop v i = k \<and> conns v i \<noteq> None"
      if "k < length (loops w)" "t \<in> set (tasks_at k (v, b'))" "task_conn t = Some i" for k t i
    proof -
      have "t \<in> set (tasks_at k (w, b))"
        using conn_tasks_same(3) [OF tasks [OF that(1)], of t] that(2,3) by simp
      then have "i < next_conn w \<and> conn_loop w i = k \<and> conns w i \<noteq> None"
        using inv that(1,3) by (auto simp: server_inv_def tasks_placed_def)
      with same show ?thesis by simp
    qed
    then show ?thesis by (simp add: tasks_placed_def len)
  qed
  moreover have "pool_placed (v, b')"
  proof -
    have "TaskConnected i \<in> set (tasks_at k (v, b')) \<longleftrightarrow> TaskConnected i \<in> set (tasks_at k (w, b))"
      if "k < length (loops w)" for k i
      using conn_tasks_same(3) [OF tasks [OF that], of "TaskConnected i"] by simp
    then show ?thesis
      using inv same pool len unfolding server_inv_def pool_placed_def by (metis fst_conv)
  qed
  moreover have "conn_place v i c \<and>
      conn_phase R S H cd i c (tasks_at (conn_loop v i) (v, b')) (view (conn_loop v i) v)"
    if c: "conns v i = Some c" for i c
  proof -
    have o: "conn_place w i c"
      "conn_phase R S H cd i c (tasks_at (conn_loop w i) (w, b)) (view (conn_loop w i) w)"
      using inv c same by (simp_all add: server_inv_def)
    then have g: "gl_around (conn_fd c) i w v" and j: "conn_loop w i < length (loops w)" and self: "self c = i"
      using new [of i c] c same by (auto simp: conn_place_def intro!: glob)
    have "conn_place v i c"
      by (rule place_frame [OF o(1) _ _ g]) (use o(1) same acc in \<open>simp_all add: conn_place_def\<close>)
    moreover have "around (conn_fd c) i (view (conn_loop w i) w) (view (conn_loop w i) v)"
      using g j by (simp add: gl_around_def)
    from phase_frame [OF o(2) self this conn_tasks_same(1,2) [OF tasks [OF j]]]
    have "conn_phase R S H cd i c (tasks_at (conn_loop w i) (v, b')) (view (conn_loop w i) v)" .
    ultimately show ?thesis using same by simp
  qed
  moreover have "acceptor_ok v" using inv acc same(6,7) by (simp add: server_inv_def acceptor_ok_def)
  ultimately show ?thesis using inv same cur by (simp add: server_inv_def)
qed

text \<open>Switching loops, and changes of one loop's core that connections do not notice.\<close>

lemma gl_aroundI:
  assumes "length (loops v) = length (loops w)" "trace v = trace w @ es" "list_all (foreign fd i) es"
    and "\<And>k. k < length (loops w) \<Longrightarrow>
      core_eventPool (core_at k v) fd = core_eventPool (core_at k w) fd \<and>
      mx_fd (core_multi (core_at k v)) = mx_fd (core_multi (core_at k w)) \<and> wake_at k v = wake_at k w"
  shows "gl_around fd i w v"
  using assms unfolding gl_around_def by (auto simp: around_view)

lemma fresh_fd: "server_inv R S H cd (w, b) \<Longrightarrow> \<exists>x. \<forall>i c. conns w i = Some c \<longrightarrow> conn_fd c \<noteq> x"
proof -
  assume inv: "server_inv R S H cd (w, b)"
  have "i < next_conn w" if "conns w i = Some c" for i c
    using inv that by (simp add: server_inv_def conn_place_def)
  then have "{conn_fd c |i c. conns w i = Some c} \<subseteq> (\<lambda>i. conn_fd (the (conns w i))) ` {..< next_conn w}"
    by force
  then have "finite {conn_fd c |i c. conns w i = Some c}" by (rule finite_surj [rotated]) simp
  from ex_new_if_finite [OF infinite_UNIV_int this]
  obtain x where "x \<notin> {conn_fd c |i c. conns w i = Some c}" ..
  then show ?thesis by (intro exI [of _ x]) auto
qed

lemma switch_inv:
  assumes inv: "server_inv R S H cd (w, b)" and j: "j < length (loops w)"
  shows "server_inv R S H cd (switch_to j w, b)"
proof -
  obtain x where x: "\<And>i c. conns w i = Some c \<Longrightarrow> conn_fd c \<noteq> x" using fresh_fd [OF inv] by blast
  have lb: "lb_ok w" using inv by (simp add: server_inv_def acceptor_ok_def)
  show ?thesis
proof (rule neutral_inv [OF inv _ _ _ _ _ _ _ _ x])
  have core: "core_at k (switch_to j w) = core_at k w" if "k < length (loops w)" for k
    using core_at_switch [OF j that] .
  then show "gl_around fd i w (switch_to j w)" for fd i
    by (intro gl_aroundI [where es = "[]"]) simp_all
  show "conn_tasks (tasks_at k (switch_to j w, b)) = conn_tasks (tasks_at k (w, b))"
    if "k < length (loops w)" for k using core [OF that] by (simp add: tasks_at_def)
  show "core_eventPool (core_at k (switch_to j w)) fd = Some (ConnEvent i) \<Longrightarrow>
      core_eventPool (core_at k w) fd = Some (ConnEvent i)" if "k < length (loops w)" for k fd i
    using core [OF that] by simp
qed (use j lb in \<open>simp_all add: lb_ok_def n_subLoops_def\<close>)
qed

text \<open>A change of the current loop: \<open>fds\<close> are the descriptors it is about.\<close>

lemma current_inv:
  assumes inv: "server_inv R S H cd (w, b)"
    and rest: "current v = current w" "loops v = loops w" "conns v = conns w" "conn_loop v = conn_loop w"
      "next_conn v = next_conn w" "options v = options w" "nextLoopIndex v = nextLoopIndex w"
      "ev_static (acc_event (tcpAccept v)) = ev_static (acc_event (tcpAccept w))"
      "acc_newConnectCallback (tcpAccept v) = acc_newConnectCallback (tcpAccept w)"
    and tr: "trace v = trace w @ es" "\<And>fd i. fd \<notin> {mx_wakeEventFd (multi w), eventFd (acc_event (tcpAccept w))} \<Longrightarrow>
      list_all (foreign fd i) es"
    and multi: "mx_fd (multi v) = mx_fd (multi w)" "mx_wakeEventFd (multi v) = mx_wakeEventFd (multi w)"
    and pool: "\<And>fd. fd \<noteq> eventFd (acc_event (tcpAccept w)) \<Longrightarrow> eventPool v fd = eventPool w fd"
      "\<And>i fd. eventPool v fd = Some (ConnEvent i) \<Longrightarrow> eventPool w fd = Some (ConnEvent i)"
    and tasks: "conn_tasks (b' (current w) @ loopFunctions v) = conn_tasks (b (current w) @ loopFunctions w)"
      "\<And>k. k \<noteq> current w \<Longrightarrow> b' k = b k"
  shows "server_inv R S H cd (v, b')"
proof -
  have cur: "current w < length (loops w)" using inv by (simp add: server_inv_def)
  have core: "core_at k v = (if k = current w then core_of v else core_at k w)" for k
    using rest by (simp add: core_at_def)
  have now: "core_at (current w) w = core_of w" by (simp add: core_at_def)
  obtain x where x: "\<And>i c. conns w i = Some c \<Longrightarrow> conn_fd c \<noteq> x" using fresh_fd [OF inv] by blast
  have lb: "lb_ok w" using inv by (simp add: server_inv_def acceptor_ok_def)
  show ?thesis
  proof (rule neutral_inv [OF inv _ _ _ _ _ _ _ _ x])
    show "gl_around fd i w v"
      if "\<forall>k < length (loops w). wake_at k w \<noteq> fd" "eventFd (acc_event (tcpAccept w)) \<noteq> fd" for fd i
    proof (rule gl_aroundI [OF _ tr(1)])
      have "wake_at (current w) w \<noteq> fd" using that(1) cur by blast
      then show "list_all (foreign fd i) es" using that(2) now by (intro tr(2)) auto
    qed (use rest core now multi pool(1) that(2) in auto)
    show "conn_tasks (tasks_at k (v, b')) = conn_tasks (tasks_at k (w, b))" for k
      using tasks by (simp add: tasks_at_def core now)
    show "core_eventPool (core_at k v) fd = Some (ConnEvent i) \<Longrightarrow>
      core_eventPool (core_at k w) fd = Some (ConnEvent i)" for k fd i
      using pool(2) now by (cases "k = current w") (simp_all add: core)
  qed (use rest cur lb in \<open>simp_all add: lb_ok_def n_subLoops_def\<close>)
qed

end
