(* ===== verification/ServerSteps.thy ===== *)
theory ServerSteps
  imports ServerSystem
begin

text \<open>The steps of a server that are operations of one connection keep the invariant: calls of its
  public methods, its timer, its events and the functions it has queued.\<close>

section \<open>Operations of connections\<close>

lemma switch_put_conn: "switch_to j (put_conn i d w) = put_conn i d (switch_to j w)"
  by (simp add: put_conn_def switch_to_def load_core_def core_of_def Let_def)

text \<open>A change in the view of loop \<open>j\<close> and the change of the server it makes.\<close>

definition from_view ::
  "nat \<Rightarrow> ('k, 'rb, 'bb, 'l) server \<Rightarrow> ('k, 'rb, 'bb, 'l) server \<Rightarrow> ('k, 'rb, 'bb, 'l) server" where
  "from_view j w u = (if j = current w then u else switch_to (current w) u)"

lemma on_loop_view: "on_loop j f w = from_view j w (f (view j w))"
  by (simp add: on_loop_def from_view_def view_def)

lemma from_view_put: "from_view j w (put_conn i d u) = put_conn i d (from_view j w u)"
  by (simp add: from_view_def switch_put_conn)

lemma view_loops: "length (loops (view j w)) = length (loops w)"
  by (simp add: view_def)

lemma from_view_acts:
  assumes a: "acts_alone S server_view fd i (view j w) u"
    and j: "j < length (loops w)" "current w < length (loops w)"
  shows "\<exists>ts. list_all (method_task i) ts \<and> srv_acts fd i j ts w (from_view j w u)"
    "core_at j (from_view j w u) = core_of u" "trace (from_view j w u) = trace u"
proof -
  have V: "server_view u = server_view (view j w)" using server_rest.acts_alone_view [OF a] .
  then have u: "current u = j" "length (loops u) = length (loops w)"
    using j by (auto simp: server_view_def view_def dest: arg_cong [of _ _ length])
  obtain ts where ts: "list_all (method_task i) ts" "srv_acts fd i j ts (view j w) u"
    using acts_alone_srv [OF a, of j] j by (auto simp: view_loops)
  show "\<exists>ts. list_all (method_task i) ts \<and> srv_acts fd i j ts w (from_view j w u)"
  proof (cases "j = current w")
    case True
    with ts show ?thesis by (auto simp: from_view_def)
  next
    case False
    with ts srv_acts_switch [OF _ j] show ?thesis by (auto simp: from_view_def view_def)
  qed
  show "core_at j (from_view j w u) = core_of u"
    using j u core_at_switch [of "current w" u j] by (auto simp: from_view_def core_at_def)
  show "trace (from_view j w u) = trace u" by (simp add: from_view_def)
qed

lemma around_same_core:
  assumes "core_at j v = core_of u" "trace v = trace u" "j < length (loops v)"
  shows "around fd i u (view j v)"
  using assms by (simp add: around_def view_core)

lemma conn_operation:
  assumes R: "bufs_ok R cont" and H: "handle_ok H" and inv: "server_inv R S H cd (w, b)" and c: "conns w i = Some c" and j: "j = conn_loop w i"
    and al: "alone S server_view c (view j w) (d, u)"
    and batch: "b j = pre @ b' j" "\<And>k. k \<noteq> j \<Longrightarrow> b' k = b k" "list_all (method_task i) pre"
    and step: "conn_step R S (server_app H) (c, view j w) (d, u)"
    and wait: "TaskConnected i \<in> set (tasks_at j (w, b)) \<Longrightarrow>
      d = c \<and> around (conn_fd c) i (view j w) u \<and> loopFunctions u = loopFunctions (view j w)"
  shows "server_inv R S H cd (put_conn i d (from_view j w u), b')"
proof -
  have place: "conn_place w i c" and ph: "conn_phase R S H cd i c (tasks_at j (w, b)) (view j w)"
    using inv c j by (simp_all add: server_inv_def)
  then have p: "self c = i" "eventFd (event c) = conn_fd c" "j < length (loops w)"
    by (simp_all add: conn_place_def j)
  have cur: "current w < length (loops w)" using inv by (simp add: server_inv_def)
  have a: "acts_alone S server_view (conn_fd c) i (view j w) u" and self: "same_self c d"
    using al p by (simp_all add: alone_def)
  note W = from_view_acts [OF a p(3) cur]
  obtain ts where ts: "list_all (method_task i) ts" "srv_acts (conn_fd c) i j ts w (from_view j w u)"
    using W(1) by blast
  have len: "length (loops (from_view j w u)) = length (loops w)"
    using ts(2) by (simp add: srv_acts_def same_rest_def)
  have to_W: "around fd' i' u (view j (from_view j w u))" for fd' i'
    using around_same_core [OF W(2,3)] len p(3) by simp
  have tasks: "tasks_at j (from_view j w u, b') = b' j @ core_loopFunctions (core_at j w) @ ts"
    "tasks_at j (w, b) = pre @ b' j @ core_loopFunctions (core_at j w)"
    using ts(2) batch(1) by (simp_all add: tasks_at_def srv_acts_def)
  have nots: "TaskConnected i \<notin> set ts" "TaskConnected i \<notin> set pre"
    using ts(1) batch(3) by (auto simp: list_all_iff)
  show ?thesis
  proof (rule operation_inv [OF inv c j ts(2,1) batch(1,2)])
    show "task_conn t = Some i" if "t \<in> set pre" for t
      using batch(3) that by (auto simp: list_all_iff method_task_conn)
    show "self d = self c" "conn_fd d = conn_fd c" "ev_static (event d) = ev_static (event c)"
      "codeImp d = codeImp c" "messageCallback d = messageCallback c"
      "connectCloseCallback d = connectCloseCallback c"
      using self by (simp_all add: same_self_def)
    show "conn_phase R S H cd i d (tasks_at j (from_view j w u, b')) (view j (from_view j w u))"
    proof (cases "TaskConnected i \<in> set (tasks_at j (w, b))")
      case True
      note wt = wait [OF True]
      have "ts = []"
        using wt ts(2) W(2) p(3) view_core(3) [OF p(3)] by (simp add: srv_acts_def)
      moreover have "pre = []" using ph True batch(3) tasks(2)
        by (cases pre) (auto simp: conn_phase_def)
      ultimately have same: "tasks_at j (from_view j w u, b') = tasks_at j (w, b)" using tasks by simp
      have "around (conn_fd c) i (view j w) (view j (from_view j w u))"
        using wt to_W by (blast intro: around_trans)
      from phase_frame [OF ph p(1) this] same wt show ?thesis by simp
    next
      case False
      then have no: "TaskConnected i \<notin> set (tasks_at j (from_view j w u, b'))"
        using tasks nots by simp
      have fd: "conn_fd d = conn_fd c" using self by (simp add: same_self_def)
      from False ph have "at_rest (conn_fd c) 0 (c, view j w) \<or> conn_reachable R S (server_app H) cd (c, view j w)"
        by (simp add: conn_phase_def)
      then have "at_rest (conn_fd d) 0 (d, u) \<or> conn_reachable R S (server_app H) cd (d, u)"
        using rest_step [OF R server_app_ok [OF H] _ step] conn_reachable.step [OF _ step] fd by auto
      then have "at_rest (conn_fd d) 0 (d, view j (from_view j w u)) \<or>
          conn_reachable R S (server_app H) cd (d, view j (from_view j w u))"
        using conn_reachable_around [OF _ to_W] rest_world around_views(3,7) [OF to_W] by blast
      with no show ?thesis by (simp add: conn_phase_def)
    qed
    show "core_eventPool (core_at j (from_view j w u)) (conn_fd c) \<noteq> Some (ConnEvent i)"
      if "TaskConnected i \<in> set (tasks_at j (from_view j w u, b'))"
    proof
      assume e: "core_eventPool (core_at j (from_view j w u)) (conn_fd c) = Some (ConnEvent i)"
      have old: "TaskConnected i \<in> set (tasks_at j (w, b))" using that tasks nots by simp
      from wait [OF this] e have "core_eventPool (core_at j w) (conn_fd c) = Some (ConnEvent i)"
        by (simp add: W(2) around_def view_core [OF p(3)])
      with inv old p(3) show False by (auto simp: server_inv_def pool_placed_def)
    qed
  qed
qed

lemma waiting_closed:
  assumes "bufs_ok R cont" "server_inv R S H cd (w, b)" "conns w i = Some c"
    and "TaskConnected i \<in> set (tasks_at (conn_loop w i) (w, b))"
  shows "state c = Disconnected"
proof -
  have "awaiting R S cd i c (view (conn_loop w i) w)"
    using assms(2-4) by (simp add: server_inv_def conn_phase_def) blast
  then show ?thesis
    unfolding awaiting_def by (auto dest!: Connect_New_newborn(2) [OF assms(1)] simp: newborn_def)
qed

lemma call_inv:
  assumes R: "bufs_ok R cont" and H: "handle_ok H" and inv: "server_inv R S H cd (w, b)" and c: "conns w i = Some c"
  shows "server_inv R S H cd (on_loop (conn_loop w i) (call_api S a i c) w, b)"
proof -
  let ?j = "conn_loop w i"
  obtain d u where du: "run_api S [a] c (view ?j w) = (d, u)" by fastforce
  have "server_inv R S H cd (put_conn i d (from_view ?j w u), b)"
  proof (rule conn_operation [OF R H inv c refl, where pre = "[]"])
    show "alone S server_view c (view ?j w) (d, u)"
      using server_rest.run_api_alone [of S c "view ?j w" "[a]"] by (simp only: du)
    show "conn_step R S (server_app H) (c, view ?j w) (d, u)" using du by (rule conn_step.call)
    show "d = c \<and> around (conn_fd c) i (view ?j w) u \<and> loopFunctions u = loopFunctions (view ?j w)"
      if "TaskConnected i \<in> set (tasks_at ?j (w, b))"
      using closed_api [OF waiting_closed [OF R inv c that], of S "[a]" "view ?j w"] du by simp
  qed simp_all
  then show ?thesis by (simp only: on_loop_view call_api_def du prod.case from_view_put)
qed

lemma timer_inv:
  assumes R: "bufs_ok R cont" and H: "handle_ok H" and inv: "server_inv R S H cd (w, b)" and c: "conns w i = Some c"
  shows "server_inv R S H cd (on_loop (conn_loop w i) (closeTimeoutConn S c) w, b)"
proof -
  let ?j = "conn_loop w i"
  let ?u = "closeTimeoutConn S c (view ?j w)"
  have *: "server_inv R S H cd (put_conn i c (from_view ?j w ?u), b)"
  proof (rule conn_operation [OF R H inv c refl, where pre = "[]"])
    show "alone S server_view c (view ?j w) (c, ?u)" by (rule server_rest.timer_alone)
    show "conn_step R S (server_app H) (c, view ?j w) (c, ?u)" by (rule conn_step.timer)
    show "c = c \<and> around (conn_fd c) i (view ?j w) ?u \<and> loopFunctions ?u = loopFunctions (view ?j w)"
      if "TaskConnected i \<in> set (tasks_at ?j (w, b))"
      using waiting_closed [OF R inv c that]
      by (simp add: closeTimeoutConn_def Connect_Close_def Let_def around_def)
  qed simp_all
  have "conns (from_view ?j w ?u) i = Some c"
    using server_rest.timer_alone [of S c "view ?j w"] inv c
    by (auto simp: from_view_def closeTimeoutConn_def Connect_Close_def Let_def RunInLoop_def
        Multiplex_Wake_def sys_write_def emit_def split: prod.splits sum.splits)
  then have "put_conn i c (from_view ?j w ?u) = from_view ?j w ?u"
    by (simp add: put_conn_def fun_upd_idem)
  with * show ?thesis by (simp add: on_loop_view)
qed

text \<open>A handler of a connection, dispatched by its loop.\<close>

lemma HandleEvent_conn:
  assumes "handlers_of i e" "HandleEvent e revents = Some h"
  shows "handler_conn h = Some i"
  using assms by (auto simp: handlers_of_def HandleEvent_def split: if_splits)

lemma event_inv:
  assumes R: "bufs_ok R cont" and H: "handle_ok H" and inv: "server_inv R S H cd (w, b)"
    and p: "eventPool w fd = Some (ConnEvent i)" and c: "conns w i = Some c"
    and h: "HandleEvent (event c) revents = Some h" and s: "server_handler R S P H h w = Ret v"
  shows "server_inv R S H cd (v, b)"
proof -
  have cur: "current w < length (loops w)" using inv by (simp add: server_inv_def)
  have "core_eventPool (core_at (current w) w) fd = Some (ConnEvent i)"
    using p by (simp add: core_at_def)
  then have "conn_loop w i = current w \<and> TaskConnected i \<notin> set (tasks_at (current w) (w, b)) \<and>
      (\<exists>c. conns w i = Some c \<and> conn_fd c = fd)"
    using inv cur unfolding server_inv_def pool_placed_def fst_conv by blast
  with c have pl: "conn_loop w i = current w" "TaskConnected i \<notin> set (tasks_at (current w) (w, b))" "conn_fd c = fd"
    by simp_all
  have place: "conn_place w i c" using inv c by (simp add: server_inv_def)
  then have hc: "handler_conn h = Some i" using HandleEvent_conn h by (auto simp: conn_place_def)
  with s c obtain d u where du: "run_handler R S (server_app H) h c w = Ret (d, u)" "v = put_conn i d u"
    by (auto simp: server_handler_def bind_eq_Some_conv)
  have "server_inv R S H cd (put_conn i d (from_view (current w) w u), b)"
  proof (rule conn_operation [OF R H inv c, where pre = "[]"])
    show "alone S server_view c (view (current w) w) (d, u)"
      using server_rest.run_handler_alone [OF R server_app_keeps [OF H] du(1)] by simp
    show "conn_step R S (server_app H) (c, view (current w) w) (d, u)"
      using p pl(3) place h du(1) by (auto simp: conn_place_def intro: conn_step.dispatch)
  qed (use pl in simp_all)
  then show ?thesis by (simp add: from_view_def du(2))
qed

text \<open>A queued method of a connection.\<close>

lemma method_inv:
  assumes R: "bufs_ok R cont" and H: "handle_ok H" and inv: "server_inv R S H cd (w, b)"
    and b: "b (current w) = t # ts" and t: "method_task i t"
    and s: "server_task N R S H t w = Ret v"
  shows "server_inv R S H cd (v, b(current w := ts))"
proof -
  have cur: "current w < length (loops w)" using inv by (simp add: server_inv_def)
  have tc: "task_conn t = Some i" and tn: "t \<noteq> TaskConnected i" using t method_task_conn by auto
  then obtain c where c: "conns w i = Some c"
    using s by (auto simp: server_task_def bind_eq_Some_conv)
  obtain d u where du: "run_task R S (server_app H) t c w = (d, u)" by fastforce
  have v: "v = put_conn i d u" using s tc tn c du by (simp add: server_task_def)
  have mem: "t \<in> set (tasks_at (current w) (w, b))" using b by (simp add: tasks_at_def)
  have loop: "conn_loop w i = current w"
    using inv cur mem tc by (auto simp: server_inv_def tasks_placed_def)
  have ph: "conn_phase R S H cd i c (tasks_at (current w) (w, b)) w"
    using inv c loop by (simp add: server_inv_def) (metis view_current)
  have "server_inv R S H cd (put_conn i d (from_view (current w) w u), b(current w := ts))"
  proof (rule conn_operation [OF R H inv c, where pre = "[t]"])
    show "alone S server_view c (view (current w) w) (d, u)"
      using server_rest.run_task_alone [OF server_app_keeps [OF H], of S c w R t] du by simp
    show "conn_step R S (server_app H) (c, view (current w) w) (d, u)"
      using du by (simp add: conn_step.queued)
    show "d = c \<and> around (conn_fd c) i (view (current w) w) u \<and> loopFunctions u = loopFunctions (view (current w) w)"
      if "TaskConnected i \<in> set (tasks_at (current w) (w, b))"
      using ph that t mem by (auto simp: conn_phase_def list_all_iff)
  qed (use b t loop in simp_all)
  then show ?thesis by (simp add: from_view_def v)
qed

end
