(* ===== verification/ServerAccept.thy ===== *)
theory ServerAccept
  imports ServerSteps
begin

text \<open>The remaining steps: those of the loops and the acceptor, a new connection, its registration.\<close>

section \<open>Loops and acceptor\<close>

lemma env_inv: "server_inv R S H cd (w, b) \<Longrightarrow> server_inv R S H cd (w\<lparr>kern := k\<rparr>, b)"
  by (rule current_inv [where es = "[]"]) simp_all

lemma grow_inv:
  "server_inv R S H cd (w, b) \<Longrightarrow> server_inv R S H cd (w\<lparr>multi := (multi w)\<lparr>mx_waitEvents_len := n\<rparr>\<rparr>, b)"
  by (rule current_inv [where es = "[]"]) simp_all

lemma running_inv: "server_inv R S H cd (w, b) \<Longrightarrow> server_inv R S H cd (w\<lparr>running := r\<rparr>, b)"
  by (rule current_inv [where es = "[]"]) simp_all

lemma swap_inv:
  assumes inv: "server_inv R S H cd (w, b)" and b: "b (current w) = []"
  shows "server_inv R S H cd (w\<lparr>loopFunctions := []\<rparr>, b(current w := loopFunctions w))"
  by (rule current_inv [OF inv, where es = "[]"]) (simp_all add: b)

lemma wake_inv:
  assumes inv: "server_inv R S H cd (w, b)"
  shows "server_inv R S H cd (wakeHandlerRead S (multi w) w, b)"
proof -
  obtain r k where "k_read S (mx_wakeEventFd (multi w)) 8 (kern w) = (r, k)" by fastforce
  then have "wakeHandlerRead S (multi w) w =
      w\<lparr>kern := k, trace := trace w @ [EffRead (mx_wakeEventFd (multi w)) r]\<rparr>"
    by (simp add: wakeHandlerRead_def sys_read_def emit_def)
  then show ?thesis by (intro current_inv [OF inv]) auto
qed

lemma Event_update_world:
  "Event_update S e w = (err, e', v) \<Longrightarrow> e' = e \<and>
     (\<exists>k. v = emit (EffCtl (mx_fd (multi w)) EPOLL_CTL_MOD (eventFd e)
        (GetEpollEventsFromIOEvent (events e)) err) (w\<lparr>kern := k\<rparr>))"
  by (auto simp: Event_update_def EventCtrl_modifyEvent_def Multiplex_ModifyEvent_def epollCtrl_def
      sys_epoll_ctl_def split: prod.splits)

lemma start_inv:
  assumes inv: "server_inv R S H cd (w, b)" and s: "Server_Start tw S w = Ret v"
  shows "server_inv R S H cd (v, b)"
proof -
  let ?w = "w\<lparr>kern := tw (kern w)\<rparr>"
  obtain err e u where u: "Event_update S (set_mask EventRead True (acc_event (tcpAccept w))) ?w = (err, e, u)"
    by (metis prod_cases3)
  with s have v: "v = u\<lparr>tcpAccept := (tcpAccept w)\<lparr>acc_event := e\<rparr>\<rparr>"
    by (auto simp: Server_Start_def Accept_Listen_def EnableReading_def Let_def split: option.splits)
  from Event_update_world [OF u] obtain k where
    k: "e = set_mask EventRead True (acc_event (tcpAccept w))"
      "u = emit (EffCtl (mx_fd (multi w)) EPOLL_CTL_MOD (eventFd (acc_event (tcpAccept w)))
         (GetEpollEventsFromIOEvent (events e)) err) (w\<lparr>kern := k\<rparr>)" by auto
  show ?thesis
    by (rule current_inv [OF inv]) (auto simp: v k emit_def)
qed

lemma accept_close_inv:
  assumes inv: "server_inv R S H cd (w, b)" and b: "b (current w) = TaskAcceptClose # ts"
    and s: "server_task N R S H TaskAcceptClose w = Ret v"
  shows "server_inv R S H cd (v, b(current w := ts))"
proof -
  let ?a = "acc_event (tcpAccept w)"
  obtain e1 ev w1 where 1: "DisableAll S ?a w = (e1, ev, w1)" by (metis prod_cases3)
  obtain e2 w2 where 2: "UnRegister S ev w1 = (e2, w2)" by fastforce
  obtain r k3 where 3: "nl_close N (acc_listener (tcpAccept w)) (kern w2) = (r, k3)" by fastforce
  have v: "v = w2\<lparr>kern := k3, tcpAccept := (tcpAccept w)\<lparr>acc_event := ev\<rparr>\<rparr>"
    using s 1 2 3 by (simp add: server_task_def Accept_close_task_def)
  from 1 obtain k1 where ev: "ev = ?a\<lparr>oldEvents := events ?a, events := EventNone\<rparr>"
    and w1: "w1 = emit (EffCtl (mx_fd (multi w)) EPOLL_CTL_MOD (eventFd ?a) (GetEpollEventsFromIOEvent EventNone) e1)
      (w\<lparr>kern := k1\<rparr>)"
    by (auto simp: DisableAll_def dest!: Event_update_world)
  from 2 ev w1 obtain k2 m where w2: "w2 = emit (EffCtl (mx_fd (multi w)) EPOLL_CTL_DEL (eventFd ?a) m e2)
      (w1\<lparr>eventPool := (eventPool w)(eventFd ?a := None), kern := k2\<rparr>)"
    by (auto simp: UnRegister_def EventCtrl_removeEvent_def Multiplex_RemoveEvent_def epollCtrl_def
        sys_epoll_ctl_def emit_def fun_upd_idem split: prod.splits if_splits)
  show ?thesis
    by (rule current_inv [OF inv])
       (auto simp: v ev w1 w2 emit_def b conn_tasks_def split: if_splits)
qed

section \<open>Posting to a loop\<close>

lemma core_at_view: "j < length (loops w) \<Longrightarrow> k < length (loops w) \<Longrightarrow> core_at k (view j w) = core_at k w"
  by (simp add: view_def core_at_switch)

lemma on_loop_post:
  assumes j: "j < length (loops w)" "current w < length (loops w)"
  shows "same_server w (on_loop j (RunInLoop S t) w)"
    "\<exists>r. trace (on_loop j (RunInLoop S t) w) = trace w @ [EffWrite (wake_at j w) wakeBytes r]"
    "k < length (loops w) \<Longrightarrow> core_at k (on_loop j (RunInLoop S t) w) = (core_at k w)\<lparr>core_loopFunctions :=
       core_loopFunctions (core_at k w) @ (if k = j then [t] else [])\<rparr>"
proof -
  let ?u = "RunInLoop S t (view j w)"
  show "same_server w (on_loop j (RunInLoop S t) w)"
    by (rule same_server_on_loop) (rule RunInLoop_same_server)
  obtain k' r where u: "?u = (view j w)\<lparr>loopFunctions := loopFunctions (view j w) @ [t], kern := k',
      trace := trace w @ [EffWrite (wake_at j w) wakeBytes r]\<rparr>"
    using RunInLoop_world [of S t "view j w"] by (auto simp: view_core [OF j(1)])
  have cu: "current ?u = j" "loops ?u = loops (view j w)" by (simp_all add: u)
  show "\<exists>r. trace (on_loop j (RunInLoop S t) w) = trace w @ [EffWrite (wake_at j w) wakeBytes r]"
    by (simp add: on_loop_view from_view_def u)
  show "core_at k (on_loop j (RunInLoop S t) w) = (core_at k w)\<lparr>core_loopFunctions :=
       core_loopFunctions (core_at k w) @ (if k = j then [t] else [])\<rparr>" if k: "k < length (loops w)"
  proof -
    have "core_at k (on_loop j (RunInLoop S t) w) = core_at k ?u"
      using k j cu core_at_switch [of "current w" ?u k] by (simp add: on_loop_view from_view_def view_loops)
    also have "\<dots> = (core_at k (view j w))\<lparr>core_loopFunctions :=
       core_loopFunctions (core_at k (view j w)) @ (if k = j then [t] else [])\<rparr>"
      by (cases "k = j") (simp_all add: core_at_def u core_of_def)
    finally show ?thesis using core_at_view [OF j(1) k] by simp
  qed
qed

lemma stop_inv:
  assumes inv: "server_inv R S H cd (w, b)" and l: "0 < length (loops w)"
  shows "server_inv R S H cd (on_loop 0 (Accept_Close S) w, b)"
proof -
  let ?v = "on_loop 0 (RunInLoop S TaskAcceptClose) w"
  have cur: "current w < length (loops w)" using inv by (simp add: server_inv_def)
  note p = on_loop_post [OF l cur, where S = S and t = TaskAcceptClose]
  obtain x where x: "\<And>i c. conns w i = Some c \<Longrightarrow> conn_fd c \<noteq> x" using fresh_fd [OF inv] by blast
  have lb: "lb_ok w" using inv by (simp add: server_inv_def acceptor_ok_def)
  obtain r where r: "trace ?v = trace w @ [EffWrite (wake_at 0 w) wakeBytes r]" using p(2) ..
  have rest: "conns ?v = conns w" "conn_loop ?v = conn_loop w" "next_conn ?v = next_conn w"
    "options ?v = options w" "tcpAccept ?v = tcpAccept w" "current ?v = current w"
    "length (loops ?v) = length (loops w)"
    using p(1) by (simp_all add: same_server_def)
  have "server_inv R S H cd (?v, b)"
  proof (rule neutral_inv [OF inv _ _ _ _ _ _ _ _ x])
    show "gl_around fd i w ?v" if "\<forall>k < length (loops w). wake_at k w \<noteq> fd" for fd i
      by (rule gl_aroundI [OF rest(7) r]) (use that l p(3) in auto)
    show "conn_tasks (tasks_at k (?v, b)) = conn_tasks (tasks_at k (w, b))" if "k < length (loops w)" for k
      using p(3) [OF that] by (simp add: tasks_at_def conn_tasks_def)
    show "core_eventPool (core_at k ?v) fd = Some (ConnEvent i) \<Longrightarrow>
        core_eventPool (core_at k w) fd = Some (ConnEvent i)" if "k < length (loops w)" for k fd i
      using p(3) [OF that] by simp
  qed (use rest cur lb p(1) in \<open>simp_all add: lb_ok_def n_subLoops_def same_server_def\<close>)
  moreover have "on_loop 0 (Accept_Close S) w = ?v" by (simp add: on_loop_def Accept_Close_def)
  ultimately show ?thesis by simp
qed

section \<open>Registration\<close>

lemma run_api_Cons: "run_api S (a # as) c w = (case run_api S [a] c w of (d, v) \<Rightarrow> run_api S as d v)"
  by (cases a) (auto split: prod.splits)

lemma run_api_reachable:
  "conn_reachable R S A cd (c, w) \<Longrightarrow> conn_reachable R S A cd (run_api S as c w)"
proof (induction as arbitrary: c w)
  case (Cons a as)
  obtain d v where dv: "run_api S [a] c w = (d, v)" by fastforce
  have "conn_reachable R S A cd (d, v)"
    using Cons.prems conn_step.call [OF dv] by (rule conn_reachable.step)
  from Cons.IH [OF this] show ?case by (subst run_api_Cons) (simp add: dv)
qed simp

lemma removeConnect_server:
  "server_view (removeConnect a w) = server_view w" "same_loop w (removeConnect a w)"
  by (simp_all add: removeConnect_def same_loop_def) (simp add: server_view_def)

lemma ConnectCallback_alone:
  assumes "handle_ok H" "ConnectCallback H c w = (as, v)"
  shows "alone S server_view c w (c, v)" "around fd i w v"
proof -
  obtain k where "v = w\<lparr>kern := k\<rparr>" using handle_okD(1) [OF assms] by blast
  then show "alone S server_view c w (c, v)" "around fd i w v"
    by (simp_all add: alone_def around_def server_rest.kern_alone)
qed

text \<open>What follows \<open>ConnectedHandle\<close> in the closure of \<open>newConnected\<close>.\<close>

lemma connected_rest:
  assumes H: "handle_ok H" and self: "self c = i"
    and w2: "w2 = (if err \<noteq> None then removeConnect (PeerAddr c) (snd (Connect_Close S c w)) else w)"
    and cb: "ConnectCallback H c (emit (EffConnect i) w2) = (acts, w4)"
    and du: "run_api S acts c w4 = (d, u)"
  shows "alone S server_view c w (d, u)"
    "conn_reachable R S A cd (c, w) \<Longrightarrow> conn_reachable R S A cd (d, u)"
    "at_rest fd n (c, w) \<Longrightarrow> at_rest fd n (d, u)"
proof -
  show "at_rest fd n (d, u)" if r: "at_rest fd n (c, w)"
  proof -
    have "at_rest fd n (c, w2)"
      using r by (auto simp: w2 at_rest_def Connect_Close_def removeConnect_def)
    then have "at_rest fd n (c, emit (EffConnect i) w2)" by (rule rest_emit) simp_all
    then have "at_rest fd n (c, w4)"
      using ConnectCallback_alone(2) [OF H cb, of fd i] by (elim rest_world) (auto simp: around_views self)
    from rest_api [OF this, of S acts] du show ?thesis by simp
  qed
  obtain w1 where w1: "run_api S [ApiClose] c w = (c, w1)" "w1 = snd (Connect_Close S c w)" by simp
  have rm: "alone S server_view c w1 (c, removeConnect (PeerAddr c) w1)"
    "around (conn_fd c) i w1 (removeConnect (PeerAddr c) w1)"
    by (auto simp: alone_def around_def removeConnect_server
        intro!: acts_alone.aside [OF acts_alone.none])
  have "alone S server_view c w (c, w2)"
    using alone_trans [OF _ rm(1), where w = w] server_rest.run_api_alone [where S = S and c = c and w = w and as = "[ApiClose]"]
    by (simp add: w2 w1)
  moreover have "alone S server_view c w2 (c, emit (EffConnect i) w2)"
    by (rule alone_emit) (simp add: self)
  moreover note ConnectCallback_alone(1) [OF H cb, where S = S]
  moreover have "alone S server_view c w4 (d, u)"
    using server_rest.run_api_alone [where S = S and c = c and w = w4 and as = acts] du by simp
  ultimately show "alone S server_view c w (d, u)" by (blast intro: alone_trans)
  show "conn_reachable R S A cd (d, u)" if r: "conn_reachable R S A cd (c, w)"
  proof -
    have "conn_reachable R S A cd (c, w1)"
      using run_api_reachable [OF r, where as = "[ApiClose]"] w1(1) by simp
    then have "conn_reachable R S A cd (c, removeConnect (PeerAddr c) w1)"
      by (rule conn_reachable_around) (simp add: rm(2) self)
    with r w1(2) have "conn_reachable R S A cd (c, w2)" by (simp add: w2)
    moreover have "around (conn_fd c) (self c) w2 (emit (EffConnect i) w2)" by (simp add: around_def)
    ultimately have "conn_reachable R S A cd (c, emit (EffConnect i) w2)" by (rule conn_reachable_around)
    then have "conn_reachable R S A cd (c, w4)"
      using ConnectCallback_alone(2) [OF H cb] by (rule conn_reachable_around)
    from run_api_reachable [OF this, where as = acts] du show ?thesis by simp
  qed
qed

text \<open>The function that \<open>newConnected\<close> hands to the loop acts for its connection alone.\<close>

lemma connected_alone:
  assumes H: "handle_ok H" and p: "self c = i" "eventFd (event c) = conn_fd c" "eventAddr (event c) = ConnEvent i"
    and du: "connected_task S H i c w = (d, u)"
  shows "acts_alone S server_view (conn_fd c) i w u"
proof -
  obtain err c1 w1 where 1: "ConnectedHandle S c w = (err, c1, w1)" by (metis prod_cases3)
  define w2 where "w2 = (if err \<noteq> None then removeConnect (PeerAddr c1) (snd (Connect_Close S c1 w1)) else w1)"
  obtain acts w4 where 4: "ConnectCallback H c1 (emit (EffConnect i) w2) = (acts, w4)" by fastforce
  have api: "run_api S acts c1 w4 = (d, u)"
    using du 1 4 by (simp add: connected_task_def w2_def Let_def)
  note CH = server_rest.ConnectedHandle_alone [OF 1 p(2) p(3) [folded p(1)]]
  have self1: "self c1 = i" "conn_fd c1 = conn_fd c" "ev_static (event c1) = ev_static (event c)"
    using CH(2) p by (auto simp: same_self_def)
  from connected_rest(1) [OF H self1(1) w2_def 4 api] CH(1) self1 p ev_static_fields(1) [OF self1(3)]
  show ?thesis by (auto simp: alone_def intro: acts_alone_trans)
qed

lemma connected_inv:
  assumes R: "bufs_ok R cont" and H: "handle_ok H" and inv: "server_inv R S H cd (w, b)"
    and b: "b (current w) = TaskConnected i # ts"
    and s: "server_task N R S H (TaskConnected i) w = Ret v"
  shows "server_inv R S H cd (v, b(current w := ts))"
proof -
  let ?j = "current w" and ?b = "b(current w := ts)"
  have cur: "?j < length (loops w)" using inv by (simp add: server_inv_def)
  obtain c where c: "conns w i = Some c" using s by (auto simp: server_task_def bind_eq_Some_conv)
  obtain d u where du: "connected_task S H i c w = (d, u)" by fastforce
  have v: "v = put_conn i d u" using s c du by (simp add: server_task_def)
  have mem: "TaskConnected i \<in> set (tasks_at ?j (w, b))" using b by (simp add: tasks_at_def)
  have loop: "conn_loop w i = ?j"
    using inv cur mem by (auto simp: server_inv_def tasks_placed_def)
  have place: "conn_place w i c" and "conn_phase R S H cd i c (tasks_at ?j (w, b)) (view ?j w)"
    using inv c by (simp_all add: server_inv_def loop [symmetric])
  then have ph: "count_list (tasks_at ?j (w, b)) (TaskConnected i) = 1" "awaiting R S cd i c w"
    using mem by (auto simp: conn_phase_def)
  have p: "self c = i" "eventFd (event c) = conn_fd c" "eventAddr (event c) = ConnEvent (self c)"
    using place by (auto simp: conn_place_def handlers_of_def)
  obtain err c1 w1 where 1: "ConnectedHandle S c w = (err, c1, w1)" by (metis prod_cases3)
  define w2 where "w2 = (if err \<noteq> None then removeConnect (PeerAddr c1) (snd (Connect_Close S c1 w1)) else w1)"
  obtain acts w4 where 4: "ConnectCallback H c1 (emit (EffConnect i) w2) = (acts, w4)" by fastforce
  have api: "run_api S acts c1 w4 = (d, u)"
    using du 1 4 by (simp add: connected_task_def w2_def Let_def)
  note CH = server_rest.ConnectedHandle_alone [OF 1 p(2,3)]
  have self1: "self c1 = i" "conn_fd c1 = conn_fd c" "ev_static (event c1) = ev_static (event c)"
    using CH(2) p by (auto simp: same_self_def)
  note rest = connected_rest [OF H self1(1) w2_def 4 api]
  have static: "self d = self c" "conn_fd d = conn_fd c" "ev_static (event d) = ev_static (event c)"
      "codeImp d = codeImp c" "messageCallback d = messageCallback c"
      "connectCloseCallback d = connectCloseCallback c"
    using rest(1) CH(2) self1 p by (auto simp: alone_def same_self_def)
  have a: "acts_alone S server_view (conn_fd c) i w u"
    using connected_alone [OF H p(1,2) _ du] p by simp
  obtain us where us: "list_all (method_task i) us" "srv_acts (conn_fd c) i ?j us w u"
    using acts_alone_srv [OF a refl cur] by blast
  have tasks: "tasks_at ?j (u, ?b) = ts @ core_loopFunctions (core_at ?j w) @ us"
    "tasks_at ?j (w, b) = TaskConnected i # ts @ core_loopFunctions (core_at ?j w)"
    using us(2) b by (simp_all add: tasks_at_def srv_acts_def)
  have "TaskConnected i \<notin> set us" using us(1) by (auto simp: list_all_iff)
  moreover have "count_list (ts @ core_loopFunctions (core_at ?j w)) (TaskConnected i) = 0"
    using ph(1) tasks(2) by simp
  ultimately have no: "TaskConnected i \<notin> set (tasks_at ?j (u, ?b))"
    unfolding tasks(1) by (auto simp: count_list_0_iff)
  have cu: "current u = ?j" using us(2) by (simp add: srv_acts_def same_rest_def)
  have "at_rest (conn_fd d) 0 (d, u) \<or> conn_reachable R S (server_app H) cd (d, u)"
  proof (cases "state c1 = Connected")
    case True
    obtain w0 wn sa idle out0 in0 c0 where "fresh (conn_fd c) i w0"
      "Connect_New R S i (conn_fd c) sa idle cd out0 in0 w0 = (Inr c0, wn)"
      "around (conn_fd c) i wn w" "c = with_callbacks c0"
      using ph(2) unfolding awaiting_def by blast
    then have "conn_reachable R S (server_app H) cd (c1, w1)"
      using 1 True by (intro conn_reachable.connected) auto
    from rest(2) [OF this] show ?thesis ..
  next
    case False
    then have "c1 = c" using CH(3) by simp
    then have "at_rest (conn_fd c) 0 (c1, w1)"
      using awaiting_rest [OF R ph(2)] ConnectedHandle_closes [OF 1] by (auto intro: rest_world)
    from rest(3) [OF this] show ?thesis using static(2) by simp
  qed
  with no have phase: "conn_phase R S H cd i d (tasks_at ?j (u, ?b)) (view ?j u)"
    using cu view_current [of u] by (simp add: conn_phase_def)
  have "server_inv R S H cd (put_conn i d u, ?b)"
    by (rule operation_inv [OF inv c loop [symmetric] us(2,1) _ _ _ static phase, where pre = "[TaskConnected i]"])
       (use b no in auto)
  then show ?thesis by (simp add: v)
qed

end
