(* ===== verification/ServerTheorem.thy ===== *)
theory ServerTheorem
  imports ServerAccept
begin

text \<open>Accepting a connection, the creation of a server, and the invariant in all reachable
  configurations.\<close>

section \<open>Accepting\<close>

text \<open>\<open>New\<close> depends on the kernel alone, so it does the same in the view of every loop.\<close>

lemma Connect_New_world:
  fixes R :: "('rb, 'bb) bufs"
  shows "\<exists>r k es. list_all (own fd i) es \<and> (\<forall>u :: ('k, 'z) loop_scheme. kern u = k0 \<longrightarrow>
     Connect_New R S i fd sa idle cd out0 in0 u = (r, u\<lparr>kern := k, trace := trace u @ es\<rparr>))"
proof -
  obtain e k1 where 1: "k_set_nonblock S fd k0 = (e, k1)" by fastforce
  obtain e2 k2 where 2: "k_close S fd k1 = (e2, k2)" by fastforce
  define es0 where "es0 = (if idle > 0 then [EffAfterFunc i idle] else [])"
  define c :: "('rb, 'bb) conn" where "c = (let c = \<lparr>self = i, event = NewEvent (ConnEvent i) fd, temporaryBuf = [],
      outBuffer = rb_RetrieveAll R out0, inBuffer = rb_RetrieveAll R in0,
      byteBuffer = None, messageCallback = False, connectCloseCallback = False,
      writeCompleteCallback = False, state = Disconnected, conn_fd = fd,
      peerAddr = sockAddrToString sa, idleTime = idle, activeTime = 0, codeImp = cd\<rparr>;
    c = (if idle > 0 then c\<lparr>activeTime := snd (Int64_Swap (word_of_int (k_now S k0 div 10 ^ 9)) 0)\<rparr> else c)
    in c\<lparr>event := (event c)\<lparr>readHandle := Some (ReadHandler i), closeHandle := Some (CloseHandler i),
      writeHandle := Some (WriteHandler i), errorHandle := Some (ErrHandler i)\<rparr>\<rparr>)"
  have own: "list_all (own fd i) es0" by (simp add: es0_def)
  show ?thesis
  proof (cases e)
    case None
    have "Connect_New R S i fd sa idle cd out0 in0 u = (Inr c, u\<lparr>kern := k1, trace := trace u @ es0\<rparr>)"
      if "kern u = k0" for u :: "('k, 'z) loop_scheme"
      using that 1 None
      by (simp add: Connect_New_def setNoDelay_def sys_set_nonblock_def updateActivityTime_def
          emit_def es0_def c_def Let_def)
    with own show ?thesis by blast
  next
    case (Some err)
    have "Connect_New R S i fd sa idle cd out0 in0 u =
        (Inl err :: errno + ('rb, 'bb) conn, u\<lparr>kern := k2, trace := trace u @ es0 @ [EffClose fd]\<rparr>)"
      if "kern u = k0" for u :: "('k, 'z) loop_scheme"
      using that 1 2 Some
      by (simp add: Connect_New_def setNoDelay_def sys_set_nonblock_def sys_close_def
          updateActivityTime_def emit_def es0_def Let_def)
    moreover have "list_all (own fd i) (es0 @ [EffClose fd])" using own by simp
    ultimately show ?thesis by blast
  qed
qed

lemma callbacks_order:
  "SetWriteCompleteCallback (SetConnectCloseCallback (SetMessageCallback c)) = with_callbacks c"
  by (cases c) (simp add: with_callbacks_def SetWriteCompleteCallback_def SetMessageCallback_def
      SetConnectCloseCallback_def)

lemma newConnected_inv:
  assumes R: "bufs_ok R cont" and inv: "server_inv R S H cd (w, b)" and fd: "unused fd w"
    and s: "newConnected R S P fd sa (w :: ('k, 'rb, 'bb, 'l) server) = Ret v"
  shows "server_inv R S H cd (v, b)"
proof -
  define i where "i = next_conn w"
  define j where "j = Suc (nat (nextLoopIndex w))"
  let ?w = "w\<lparr>nextLoopIndex := (nextLoopIndex w + 1) mod n_subLoops w, next_conn := Suc i\<rparr>"
  have cd: "GetCode (options w) = Some cd" and cur: "current w < length (loops w)"
    using inv by (simp_all add: server_inv_def)
  obtain r k es where es: "list_all (own fd i) es" and new: "\<And>u :: ('k, 'rb, 'bb, 'l) server. kern u = kern w \<Longrightarrow>
     Connect_New R S i fd sa (opt_IdleTime (options w)) cd (fst (P i)) (snd (P i)) u =
       (r, u\<lparr>kern := k, trace := trace u @ es\<rparr>)"
    using Connect_New_world [of fd i "kern w" R S sa "opt_IdleTime (options w)" cd "fst (P i)" "snd (P i)"]
    by blast
  define w2 where "w2 = ?w\<lparr>kern := k, trace := trace w @ es\<rparr>"
  have w2: "Connect_New R S i fd sa (opt_IdleTime (options w)) cd (fst (P i)) (snd (P i)) ?w = (r, w2)"
    using new [of ?w] by (simp add: w2_def)
  have fields: "conns w2 = conns w" "conn_loop w2 = conn_loop w" "next_conn w2 = Suc i"
    "options w2 = options w" "tcpAccept w2 = tcpAccept w" "current w2 = current w" "loops w2 = loops w"
    "trace w2 = trace w @ es" "core_at k' w2 = core_at k' w" for k'
    by (simp_all add: w2_def core_at_def core_of_def)
  have unf: "\<And>k. k < length (loops w) \<Longrightarrow> wake_at k w \<noteq> fd"
    "eventFd (acc_event (tcpAccept w)) \<noteq> fd" "\<And>i c. conns w i = Some c \<Longrightarrow> conn_fd c \<noteq> fd"
    using fd by (auto simp: unused_def)
  have idx: "0 \<le> nextLoopIndex w" "nextLoopIndex w < n_subLoops w"
    using s by (auto simp: newConnected_def getOneLoopFromPool_def bind_eq_Some_conv split: if_splits)
  have lb2: "lb_ok w2" using idx by (simp add: w2_def lb_ok_def n_subLoops_def)
  have inv2: "server_inv R S H cd (w2, b)"
  proof (rule neutral_inv [OF inv _ _ _ _ _ _ _ _ unf(3)])
    show "gl_around fd' i' w w2" if "fd' \<noteq> fd" "i' < next_conn w \<or> next_conn w2 \<le> i'" for fd' i'
    proof (rule gl_aroundI [OF _ fields(8)])
      have "i' \<noteq> i" using that(2) fields(3) by (auto simp: i_def)
      then show "list_all (foreign fd' i') es"
        using es that(1) by (auto simp: list_all_iff intro: own_foreign)
    qed (simp_all add: fields)
  qed (simp_all add: fields tasks_at_def cur i_def lb2)
  have j: "j < length (loops w)" using idx by (auto simp: j_def n_subLoops_def)
  show ?thesis
  proof (cases r)
    case (Inl err)
    then have "v = w2"
      using s idx cd w2 by (simp add: newConnected_def getOneLoopFromPool_def i_def Let_def)
    with inv2 show ?thesis by simp
  next
    case (Inr c0)
    define c where "c = with_callbacks c0"
    define V where "V = (put_conn i c (addConnect (PeerAddr c0) i w2))\<lparr>conn_loop := (conn_loop w2)(i := j)\<rparr>"
    have v: "v = on_loop j (RunInLoop S (TaskConnected i)) V"
      using s idx cd w2 Inr
      by (simp add: newConnected_def getOneLoopFromPool_def i_def j_def V_def c_def callbacks_order
          addConnect_def Let_def)
    have VF: "conns V = (conns w)(i \<mapsto> c)" "conn_loop V = (conn_loop w)(i := j)" "next_conn V = Suc i"
      "options V = options w" "tcpAccept V = tcpAccept w" "current V = current w" "loops V = loops w"
      "trace V = trace w @ es" "core_at k' V = core_at k' w" for k'
      using fields by (simp_all add: V_def put_conn_def addConnect_def)
    have jV: "j < length (loops V)" "current V < length (loops V)" using j cur VF by simp_all
    note post = on_loop_post [OF jV, where S = S and t = "TaskConnected i", folded v]
    obtain rr where tr: "trace v = trace w @ es @ [EffWrite (wake_at j w) wakeBytes rr]"
      using post(2) VF by auto
    have F: "conns v = (conns w)(i \<mapsto> c)" "conn_loop v = (conn_loop w)(i := j)" "next_conn v = Suc i"
      "options v = options w" "tcpAccept v = tcpAccept w" "current v = current w"
      "length (loops v) = length (loops w)"
      using post(1) VF by (simp_all add: same_server_def)
    have core: "core_at k v = (core_at k w)\<lparr>core_loopFunctions := core_loopFunctions (core_at k w) @
        (if k = j then [TaskConnected i] else [])\<rparr>" if "k < length (loops w)" for k
      using post(3) [of k] that VF by simp
    have tasks: "tasks_at k (v, b) = tasks_at k (w, b) @ (if k = j then [TaskConnected i] else [])"
      if "k < length (loops w)" for k
      using core [OF that] by (simp add: tasks_at_def)
    have fresh_i: "conns w i = None" "\<And>i'. i \<le> i' \<Longrightarrow> submitted i' (trace w) = [] \<and> delivered i' (trace w) = [] \<and> goodbyes i' (trace w) = []"
      using inv by (simp_all add: server_inv_def unborn_def i_def)
    have owned: "i' < i \<and> conn_loop w i' = k \<and> conns w i' \<noteq> None"
      if "k < length (loops w)" "t \<in> set (tasks_at k (w, b))" "task_conn t = Some i'" for k t i'
      using inv that by (auto simp: server_inv_def tasks_placed_def i_def)
    have none_i: "t \<in> set (tasks_at k (w, b)) \<Longrightarrow> task_conn t \<noteq> Some i" if "k < length (loops w)" for k t
      using owned [OF that] by blast
    have glob: "gl_around fd' i' w v" if "fd' \<noteq> fd" "i' \<noteq> i" "\<forall>k < length (loops w). wake_at k w \<noteq> fd'" for fd' i'
    proof (rule gl_aroundI [OF F(7) tr])
      show "list_all (foreign fd' i') (es @ [EffWrite (wake_at j w) wakeBytes rr])"
        using es that j by (auto simp: list_all_iff intro: own_foreign)
    qed (simp add: core)
    have nb: "newborn cont fd i cd c"
      using Connect_New_newborn(2) [OF R w2 [unfolded Inr]] by (simp add: c_def)
    show ?thesis
      unfolding server_inv_def fst_conv
    proof (intro conjI allI impI)
      show "current v < length (loops v)" "GetCode (options v) = Some cd" using F cur cd by simp_all
      have "nextLoopIndex v = nextLoopIndex w2"
        using post(1) by (simp add: same_server_def V_def put_conn_def addConnect_def)
      then have "lb_ok v" using idx F by (simp add: lb_ok_def n_subLoops_def w2_def)
      then show "acceptor_ok v" using inv F by (simp add: server_inv_def acceptor_ok_def)
      show "unborn v"
      proof -
        have "submitted i' (trace w2) = [] \<and> delivered i' (trace w2) = [] \<and> goodbyes i' (trace w2) = [] \<and> conns w2 i' = None" if "Suc i \<le> i'" for i'
          using inv2 that by (simp add: server_inv_def unborn_def fields)
        then show ?thesis
          by (cases rr) (simp_all add: unborn_def F tr fields)
      qed
      show "tasks_placed (v, b)"
        unfolding tasks_placed_def fst_conv F
      proof (intro allI ballI impI)
        fix k t i'
        assume k: "k < length (loops w)" and t: "t \<in> set (tasks_at k (v, b))" "task_conn t = Some i'"
        show "i' < Suc i \<and> ((conn_loop w)(i := j)) i' = k \<and> ((conns w)(i \<mapsto> c)) i' \<noteq> None"
        proof (cases "t \<in> set (tasks_at k (w, b))")
          case True
          with owned [OF k True t(2)] show ?thesis by simp
        next
          case False
          then have "k = j" "t = TaskConnected i" using t(1) tasks [OF k] by (auto split: if_splits)
          with t(2) show ?thesis by simp
        qed
      qed
      show "pool_placed (v, b)"
        unfolding pool_placed_def fst_conv F
      proof (intro allI impI)
        fix k fd' i'
        assume k: "k < length (loops w)" and "core_eventPool (core_at k v) fd' = Some (ConnEvent i')"
        then have "core_eventPool (core_at k w) fd' = Some (ConnEvent i')" by (simp add: core)
        then have o: "conn_loop w i' = k" "TaskConnected i' \<notin> set (tasks_at k (w, b))"
          "\<exists>c. conns w i' = Some c \<and> conn_fd c = fd'"
          using inv k by (auto simp: server_inv_def pool_placed_def)
        then have "i' \<noteq> i" using fresh_i(1) by auto
        with o show "((conn_loop w)(i := j)) i' = k \<and> TaskConnected i' \<notin> set (tasks_at k (v, b)) \<and>
            (\<exists>c'. ((conns w)(i \<mapsto> c)) i' = Some c' \<and> conn_fd c' = fd')"
          using tasks [OF k] by auto
      qed
      fix i' c' assume c': "conns v i' = Some c'"
      show "conn_place v i' c'"
      proof (cases "i' = i")
        case True
        have "wake_at k v = wake_at k w" if "k < length (loops w)" for k using core [OF that] by simp
        moreover have "messageCallback c \<and> connectCloseCallback c"
          by (simp add: c_def with_callbacks_def SetWriteCompleteCallback_def SetMessageCallback_def
              SetConnectCloseCallback_def)
        ultimately show ?thesis using True c' nb unf j F cd
          by (auto simp: conn_place_def newborn_def handlers_of_def)
      next
        case False
        then have o: "conn_place w i' c'" "conns w i' = Some c'" using c' F inv by (simp_all add: server_inv_def)
        have g: "gl_around (conn_fd c') i' w v"
          using o False unf(3) by (intro glob) (auto simp: conn_place_def)
        have "conn_fd c = fd" "conn_fd c' \<noteq> fd" using nb unf(3) o(2) by (simp_all add: newborn_def)
        then have "\<forall>i'' c''. i'' \<noteq> i' \<longrightarrow> conns v i'' = Some c'' \<longrightarrow> conn_fd c'' \<noteq> conn_fd c'"
          using o(1) F(1) by (auto simp: conn_place_def)
        then show ?thesis
          by (intro place_frame [OF o(1) _ _ g]) (use F False in \<open>simp_all add: i_def\<close>)
      qed
      show "conn_phase R S H cd i' c' (tasks_at (conn_loop v i') (v, b)) (view (conn_loop v i') v)"
      proof (cases "i' = i")
        case True
        have cnt: "count_list (tasks_at j (w, b)) (TaskConnected i) = 0"
          using none_i [OF j, of "TaskConnected i"] by (auto simp: count_list_0_iff)
        have nom: "list_all (\<lambda>t. \<not> method_task i t) (tasks_at j (w, b))"
          using none_i [OF j] by (auto simp: list_all_iff dest: method_task_conn)
        have "awaiting R S cd i c (view j v)"
          unfolding awaiting_def
        proof (intro exI conjI)
          have cfd: "conn_fd c = fd" using nb by (simp add: newborn_def)
          show "fresh (conn_fd c) i (view j ?w)"
            using fd fresh_i(2) [of i] unf(1) [OF j] j
            by (simp add: fresh_def unused_def cfd view_core)
          show "Connect_New R S i (conn_fd c) sa (opt_IdleTime (options w)) cd (fst (P i)) (snd (P i)) (view j ?w) =
              (Inr c0, (view j ?w)\<lparr>kern := k, trace := trace (view j ?w) @ es\<rparr>)"
            using new [of "view j ?w"] Inr by (simp add: cfd)
          show "around (conn_fd c) i ((view j ?w)\<lparr>kern := k, trace := trace (view j ?w) @ es\<rparr>) (view j v)"
            using tr core [OF j] j F unf(1) [OF j]
            by (simp add: around_def view_core cfd)
          show "c = with_callbacks c0" by (simp add: c_def)
        qed
        with cnt nom True c' F tasks [OF j] show ?thesis by (simp add: conn_phase_def)
      next
        case False
        then have o: "conn_place w i' c'" "conns w i' = Some c'"
          "conn_phase R S H cd i' c' (tasks_at (conn_loop w i') (w, b)) (view (conn_loop w i') w)"
          using c' F inv by (simp_all add: server_inv_def)
        then have l: "conn_loop w i' < length (loops w)" "self c' = i'" by (simp_all add: conn_place_def)
        have "gl_around (conn_fd c') i' w v"
          using o False unf(3) by (intro glob) (auto simp: conn_place_def)
        then have "around (conn_fd c') i' (view (conn_loop w i') w) (view (conn_loop w i') v)"
          using l by (simp add: gl_around_def)
        from phase_frame [OF o(3) l(2) this] tasks [OF l(1)] False F show ?thesis by simp
      qed
    qed
  qed
qed

section \<open>Creation\<close>

text \<open>Creating loops and the acceptor hands nothing to a connection.\<close>

lemma EventLoop_New_trace:
  assumes "EventLoop_New S q w = (r, v)"
  shows "submitted i (trace v) = submitted i (trace w)" "delivered i (trace v) = delivered i (trace w) \<and> goodbyes i (trace v) = goodbyes i (trace w)"
    "r = Inr l \<Longrightarrow> trace l = trace v \<and> eventPool l = Map.empty \<and> loopFunctions l = []"
  using assms
  by (auto simp: EventLoop_New_def NewEventCtrl_def Multiplex_New_def newWakeFd_def Let_def
      sys_epoll_ctl_def sys_close_def split: prod.splits sum.splits option.splits)

lemma Accept_New_trace:
  assumes "Accept_New N S opt w = (r, v)"
  shows "submitted i (trace v) = submitted i (trace w)" "delivered i (trace v) = delivered i (trace w) \<and> goodbyes i (trace v) = goodbyes i (trace w)"
    "r = Inr a \<Longrightarrow> loopFunctions v = loopFunctions w \<and> eventPool v = (eventPool w)(acc_fd a \<mapsto> AcceptorEvent) \<and>
       acc_event a = (NewEvent AcceptorEvent (acc_fd a))\<lparr>readHandle := Some AcceptHandle\<rparr>"
  using assms
  by (auto simp: Accept_New_def setFd_def Register_def EventCtrl_addEvent_def Multiplex_AddEvent_def
      epollCtrl_def sys_epoll_ctl_def NewEvent_def Let_def
      split: prod.splits sum.splits option.splits if_splits)

lemma new_subLoops_trace:
  assumes "new_subLoops S q n w = (r, v)"
  shows "submitted i (trace v) = submitted i (trace w) \<and> delivered i (trace v) = delivered i (trace w) \<and> goodbyes i (trace v) = goodbyes i (trace w) \<and>
    (\<forall>ls. r = Inr ls \<longrightarrow> length ls = n \<and>
      (\<forall>k \<in> set ls. core_eventPool k = Map.empty \<and> core_loopFunctions k = []))"
  using assms
proof (induction n arbitrary: q w r v)
  case (Suc n)
  obtain r1 w1 where 1: "EventLoop_New S q w = (r1, w1)" by fastforce
  obtain r2 w2 where 2: "new_subLoops S (q + 1) n w1 = (r2, w2)" by fastforce
  note t = EventLoop_New_trace [OF 1]
  show ?case
  proof (cases r1)
    case (Inl e)
    with Suc.prems 1 t(1,2) [of i] show ?thesis by auto
  next
    case (Inr l)
    with Suc.prems 1 2 Suc.IH [OF 2] t(1,2) [of i] t(3) [of l] show ?thesis by (auto split: sum.splits)
  qed
qed simp

text \<open>The codec a server is configured with.\<close>

definition codec_of :: "Option list \<Rightarrow> ICodec" where
  "codec_of opts = the (GetCode (NewOptions opts))"

lemma codec_of_NewOptions: "GetCode (NewOptions opts) = Some (codec_of opts)"
  by (simp add: codec_of_def GetCode_def NewOptions_def fill_defaults_fields)

lemma created_inv:
  assumes tr: "trace w0 = []" and cpus: "0 < cpus" and new: "Server_New N S cpus opts w0 = (Inr w, w1)"
  shows "server_inv R S H (codec_of opts) (w, \<lambda>_. [])"
proof -
  obtain r2 w2 where 2: "EventLoop_New S (- 1) w0 = (r2, w2)" by fastforce
  then obtain m where m: "r2 = Inr m" using new by (cases r2) (auto simp: Server_New_def)
  obtain r3 w3 where 3: "Accept_New N S (GetNet (NewOptions opts)) m = (r3, w3)" by fastforce
  then obtain a where a: "r3 = Inr a" using new 2 m by (cases r3) (auto simp: Server_New_def Let_def)
  define n where "n = nat (if opt_NumLoops (NewOptions opts) \<le> 0 then cpus else opt_NumLoops (NewOptions opts))"
  obtain r4 w4 where 4: "new_subLoops S 0 n (world_of w3) = (r4, w4)" by fastforce
  then obtain ls where ls: "r4 = Inr ls" using new 2 m 3 a
    by (cases r4) (auto simp: Server_New_def n_def Let_def split: if_splits)
  have w: "trace w = trace w4" "eventPool w = eventPool w3" "loopFunctions w = loopFunctions w3"
    "tcpAccept w = SetNewConnectCallback a" "current w = 0" "loops w = core_of w3 # ls"
    "conns w = Map.empty" "next_conn w = 0" "nextLoopIndex w = 0" "GetCode (options w) = Some (codec_of opts)"
    using new 2 m 3 a 4 ls codec_of_NewOptions [of opts]
    by (auto simp: Server_New_def n_def GetCode_def Let_def split: if_splits)
  note t2 = EventLoop_New_trace [OF 2] and t3 = Accept_New_trace [OF 3] and t4 = new_subLoops_trace [OF 4]
  have quiet: "submitted i (trace w) = [] \<and> delivered i (trace w) = [] \<and> goodbyes i (trace w) = []" for i
    using t2(1,2) [of i] t2(3) [OF m] t3(1,2) [of i] t4 [of i] tr w(1) by (simp add: world_of_def)
  have core: "core_loopFunctions (core_at k w) = [] \<and> core_eventPool (core_at k w) fd \<noteq> Some (ConnEvent i)"
    if "k < length (loops w)" for k fd i
  proof (cases k)
    case 0
    then show ?thesis using w t2(3) [OF m] t3(3) [OF a] by (simp add: core_at_def)
  next
    case (Suc k')
    then have "ls ! k' \<in> set ls" using that w by simp
    then show ?thesis using Suc w t4 [of 0] ls by (simp add: core_at_def)
  qed
  have "0 < n" using cpus by (simp add: n_def)
  then have "lb_ok w" using w t4 [of 0] ls by (simp add: lb_ok_def n_subLoops_def)
  then have "acceptor_ok w"
    using w t3(3) [OF a] by (simp add: acceptor_ok_def SetNewConnectCallback_def NewEvent_def)
  with w quiet core show ?thesis
    by (simp add: server_inv_def unborn_def tasks_placed_def pool_placed_def tasks_at_def)
qed

section \<open>Every step keeps the invariant\<close>

lemma accept_inv:
  assumes R: "bufs_ok R cont" and inv: "server_inv R S H cd (w, b)" and un: "accepts_unused S w"
    and s: "Accept_AcceptHandle S (newConnected R S P) (tcpAccept w) w = Ret v"
  shows "server_inv R S H cd (v, b)"
proof -
  obtain r k where r: "k_accept S (acc_fd (tcpAccept w)) (kern w) = (r, k)" by fastforce
  show ?thesis
  proof (cases r)
    case (Inl err)
    with s r have "v = w\<lparr>kern := k\<rparr>" by (simp add: Accept_AcceptHandle_def)
    then show ?thesis using env_inv [OF inv] by simp
  next
    case (Inr x)
    then obtain fd sa where x: "r = Inr (fd, sa)" by (cases x) auto
    then have "newConnected R S P fd sa (w\<lparr>kern := k\<rparr>) = Ret v"
      using s r by (auto simp: Accept_AcceptHandle_def split: if_splits)
    moreover have "unused fd (w\<lparr>kern := k\<rparr>)"
      using un r x unfolding accepts_unused_def unused_def by auto
    ultimately show ?thesis using newConnected_inv [OF R env_inv [OF inv]] by blast
  qed
qed

lemma server_step_inv:
  assumes R: "bufs_ok R cont" and H: "handle_ok H"
    and step: "server_step N R S P H s s'" and inv: "server_inv R S H cd s"
  shows "server_inv R S H cd s'"
  using step inv
proof cases
  case (event w fd p e revents h v b)
  show ?thesis
  proof (cases p)
    case AcceptorEvent
    then have "h = AcceptHandle"
      using event inv by (auto simp: server_deref_def server_inv_def acceptor_ok_def HandleEvent_def split: if_splits)
    then have "Accept_AcceptHandle S (newConnected R S P) (tcpAccept w) w = Ret v"
      using event by (simp add: server_handler_def)
    then show ?thesis using accept_inv [OF R] event inv AcceptorEvent by simp
  next
    case (ConnEvent i)
    then obtain c where "conns w i = Some c" "e = event c"
      using event by (auto simp: server_deref_def)
    then show ?thesis using event_inv [OF R H] event inv ConnEvent by simp
  qed
next
  case (execute b w t ts v)
  show ?thesis
  proof (cases "task_conn t")
    case None
    then have "t = TaskAcceptClose" by (cases t) auto
    then show ?thesis using accept_close_inv execute inv by simp
  next
    case (Some i)
    then consider "t = TaskConnected i" | "method_task i t" by (cases t) auto
    then show ?thesis
      using connected_inv [OF R H] method_inv [OF R H] execute inv by cases simp_all
  qed
next
  case (stop w b)
  then have "0 < length (loops w)" using inv by (auto simp: server_inv_def)
  then show ?thesis using stop_inv stop inv by simp
qed (auto intro: switch_inv env_inv start_inv wake_inv grow_inv swap_inv running_inv call_inv [OF R H] timer_inv [OF R H])

lemma server_reachable_inv:
  assumes "bufs_ok R cont" and "handle_ok H"
  shows "server_reachable N R S P H opts s \<Longrightarrow> server_inv R S H (codec_of opts) s"
  by (induction rule: server_reachable.induct) (auto intro: created_inv server_step_inv [OF assms])

end
