(* ===== verification/ServerDemo.thy ===== *)
theory ServerDemo
  imports ServerTheorem Demo
begin

text \<open>
  A small server run from its creation on a kernel that hands out fresh descriptors and reports the
  listener as readable, and descriptor 8 as readable or writable: it listens, accepts one connection, registers it with its sub loop, reads
  one segment and writes, or closes. The configurations it passes through show that the theorems on whole servers speak of something.
\<close>

definition net_sys :: "script sys" where
  "net_sys = script_sys
     \<lparr>k_accept := (\<lambda>fd k. (Inr (s_now k, SockaddrInet4 [10, 0, 0, 1] 80), k\<lparr>s_now := s_now k + 1\<rparr>)),
      k_epoll_create := (\<lambda>k. (Inr (s_now k), k\<lparr>s_now := s_now k + 1\<rparr>)),
      k_eventfd := (\<lambda>k. (Inr (s_now k), k\<lparr>s_now := s_now k + 1\<rparr>)),
      k_epoll_wait := (\<lambda>ep n t k. (Inr [if ep = 3 then (EPOLLIN, 5) else (if s_reads k = [] then EPOLLOUT else EPOLLIN, 8)], k)), k_now := (\<lambda>k. 0)\<rparr>"

definition net_lib :: "(script, unit) netlib" where
  "net_lib =
     \<lparr>nl_listen = (\<lambda>reuse n a k. (Inr (), k)), nl_is_tcp = (\<lambda>l. True),
      nl_file = (\<lambda>l k. (Inr (s_now k), k\<lparr>s_now := s_now k + 1\<rparr>)), nl_close = (\<lambda>l k. (None, k))\<rparr>"

definition echo_handle :: "('rb, 'bb, 'w) handle_event" where
  "echo_handle = HandleEventImpl\<lparr>MessageCallback := (\<lambda>c b w. ((Some b, []), w))\<rparr>"

lemma echo_handle_ok: "handle_ok (echo_handle :: ('rb, 'bb, ('k, 'rb, 'bb, 'l) server) handle_event)"
proof -
  have "\<exists>k. w = w\<lparr>kern := k\<rparr>" for w :: "('k, 'rb, 'bb, 'l) server"
    by (rule exI [of _ "kern w"]) simp
  then show ?thesis unfolding handle_ok_def HandleEventImpl_def echo_handle_def by simp
qed

definition demo_opts :: "Option list" where
  "demo_opts = [NumLoops 1, CodeImp LineBasedFrameCodec]"

definition demo_world :: "script world" where
  "demo_world = \<lparr>kern = \<lparr>s_reads = [], s_writes = [], s_now = 3\<rparr>, trace = []\<rparr>"

lemma net_sys_ok: "sys_ok net_sys"
  using script_sys_ok by (simp add: sys_ok_def net_sys_def)

lemma net_sys_simps:
  "sys_write net_sys = sys_write script_sys" "sys_read net_sys = sys_read script_sys"
  "sys_epoll_ctl net_sys = sys_epoll_ctl script_sys"
  "sys_close net_sys = sys_close script_sys" "sys_set_nonblock net_sys = sys_set_nonblock script_sys"
  by (simp_all add: fun_eq_iff sys_defs net_sys_def)

definition sub_core :: loop_core where
  "sub_core =
     \<lparr>core_SequenceID = 0, core_eventPool = Map.empty,
      core_multi = \<lparr>mx_fd = 6, mx_wakeEventFd = 7, mx_waitEvents_len = WaitEventsNumber\<rparr>,
      core_loopFunctions = [], core_running = 0\<rparr>"

definition main_core :: loop_core where
  "main_core =
     \<lparr>core_SequenceID = - 1, core_eventPool = [5 \<mapsto> AcceptorEvent],
      core_multi = \<lparr>mx_fd = 3, mx_wakeEventFd = 4, mx_waitEvents_len = WaitEventsNumber\<rparr>,
      core_loopFunctions = [], core_running = 0\<rparr>"

definition created_server :: "(script, bytes, bytes, unit) server" where
  "created_server =
     \<lparr>kern = \<lparr>s_reads = [], s_writes = [], s_now = 8\<rparr>,
      trace = [EffCtl 3 1 4 1 None, EffCtl 3 1 5 0 None, EffCtl 6 1 7 1 None],
      SequenceID = - 1, eventPool = [5 \<mapsto> AcceptorEvent],
      multi = \<lparr>mx_fd = 3, mx_wakeEventFd = 4, mx_waitEvents_len = WaitEventsNumber\<rparr>,
      loopFunctions = [], running = 0, options = NewOptions demo_opts,
      tcpAccept = \<lparr>acc_listener = (), acc_fd = 5,
        acc_event = (NewEvent AcceptorEvent 5)\<lparr>readHandle := Some AcceptHandle\<rparr>,
        acc_newConnectCallback = True\<rparr>,
      connectPool = Map.empty, nextLoopIndex = 0, current = 0, loops = [main_core, sub_core],
      conns = Map.empty, conn_loop = (\<lambda>_. 0), next_conn = 0\<rparr>"

lemma demo_new:
  "\<exists>w1. Server_New net_lib net_sys cpus demo_opts demo_world = (Inr created_server, w1)"
  by (simp add: Server_New_def EventLoop_New_def NewEventCtrl_def Multiplex_New_def newWakeFd_def
      sys_epoll_ctl_def net_sys_def script_sys_def demo_world_def Accept_New_def net_lib_def setFd_def
      Register_def EventCtrl_addEvent_def Multiplex_AddEvent_def epollCtrl_def NewEvent_def
      GetEpollEventsFromIOEvent_def mask_defs demo_opts_def NewOptions_def fill_defaults_fields
      GetNet_def world_of_def core_of_def created_server_def main_core_def sub_core_def
      EPOLL_CTL_ADD_def SetNewConnectCallback_def NumLoops_def CodeImp_def zero_Options_def emit_def Let_def)

section \<open>One connection\<close>

definition new_conn :: "(bytes, bytes) conn" where
  "new_conn =
     \<lparr>self = 0, event = (NewEvent (ConnEvent 0) 8)\<lparr>readHandle := Some (ReadHandler 0),
        writeHandle := Some (WriteHandler 0), errorHandle := Some (ErrHandler 0),
        closeHandle := Some (CloseHandler 0)\<rparr>,
      temporaryBuf = [], outBuffer = [], inBuffer = [], byteBuffer = None,
      messageCallback = True, connectCloseCallback = True, writeCompleteCallback = True,
      state = Disconnected, conn_fd = 8, peerAddr = ''10.0.0.1:80'', idleTime = 0, activeTime = 0,
      codeImp = LineBasedFrameCodec\<rparr>"

definition open_conn :: "(bytes, bytes) conn" where
  "open_conn = new_conn\<lparr>state := Connected,
     event := (event new_conn)\<lparr>events := EventRead OR EventErr, oldEvents := EventRead\<rparr>\<rparr>"

definition accepted_server :: "(script, bytes, bytes, unit) server" where
  "accepted_server = created_server
     \<lparr>kern := \<lparr>s_reads = [], s_writes = [], s_now = 9\<rparr>,
      trace := trace created_server @ [EffWrite 7 wakeBytes (Inr 8)],
      connectPool := [''10.0.0.1:80'' \<mapsto> 0], conns := [0 \<mapsto> new_conn], conn_loop := (\<lambda>_. 0)(0 := 1),
      next_conn := 1, loops := [main_core, sub_core\<lparr>core_loopFunctions := [TaskConnected 0]\<rparr>]\<rparr>"

definition open_server :: "(script, bytes, bytes, unit) server" where
  "open_server = accepted_server
     \<lparr>trace := trace accepted_server @
        [EffCtl 6 1 8 0 None, EffCtl 6 3 8 3 None, EffCtl 6 3 8 11 None, EffConnect 0],
      SequenceID := 0, eventPool := [8 \<mapsto> ConnEvent 0], multi := core_multi sub_core,
      conns := [0 \<mapsto> open_conn], current := 1\<rparr>"

lemma length_wakeBytes: "length wakeBytes = 8"
  by (simp add: wakeBytes_def)

lemma demo_accept:
  "server_handler list_bufs net_sys no_buffers echo_handle AcceptHandle created_server = Ret accepted_server"
  by (simp add: server_handler_def Accept_AcceptHandle_def created_server_def net_sys_def
      newConnected_def getOneLoopFromPool_def n_subLoops_def GetCode_def NewOptions_def demo_opts_def
      fill_defaults_fields NumLoops_def CodeImp_def zero_Options_def Connect_New_def setNoDelay_def
      sys_set_nonblock_def script_sys_def list_bufs_def no_buffers_def demo_peer addConnect_def PeerAddr_def
      SetMessageCallback_def SetConnectCloseCallback_def SetWriteCompleteCallback_def put_conn_def
      on_loop_def switch_to_def load_core_def core_of_def RunInLoop_def Multiplex_Wake_def
      sys_write_def length_wakeBytes emit_def accepted_server_def main_core_def sub_core_def new_conn_def NewEvent_def
      Let_def)

lemma demo_connect:
  "server_task net_lib list_bufs net_sys echo_handle (TaskConnected 0)
     ((switch_to 1 accepted_server)\<lparr>loopFunctions := []\<rparr>) =
   Ret open_server"
  by (simp add: server_task_def connected_task_def ConnectedHandle_def Register_def EventCtrl_addEvent_def
      Multiplex_AddEvent_def EnableReading_def EnableErrorEvent_def Event_update_def EventCtrl_modifyEvent_def
      Multiplex_ModifyEvent_def epollCtrl_def sys_epoll_ctl_def net_sys_def script_sys_def emit_def
      switch_to_def load_core_def core_of_def accepted_server_def created_server_def main_core_def
      sub_core_def new_conn_def open_conn_def open_server_def NewEvent_def set_mask_def mask_defs
      GetEpollEventsFromIOEvent_def EPOLL_CTL_ADD_def EPOLL_CTL_MOD_def echo_handle_def HandleEventImpl_def
      put_conn_def Let_def)

abbreviation demo_reachable :: "(script, bytes, bytes, unit) config \<Rightarrow> bool" where
  "demo_reachable \<equiv> server_reachable net_lib list_bufs net_sys no_buffers echo_handle demo_opts"

lemma created_reachable: "demo_reachable (created_server, \<lambda>_. [])"
proof -
  obtain w1 where "Server_New net_lib net_sys 1 demo_opts demo_world = (Inr created_server, w1)"
    using demo_new by blast
  then show ?thesis by (rule server_reachable.created [rotated 2]) (simp_all add: demo_world_def)
qed

abbreviation demo_step :: "(script, bytes, bytes, unit) config \<Rightarrow> (script, bytes, bytes, unit) config \<Rightarrow> bool" where
  "demo_step \<equiv> server_step net_lib list_bufs net_sys no_buffers echo_handle"

lemma accepted_step: "demo_step (created_server, \<lambda>_. []) (accepted_server, \<lambda>_. [])"
proof (rule server_step.event)
  show "eventPool created_server 5 = Some AcceptorEvent" by (simp add: created_server_def)
  show "server_deref AcceptorEvent created_server =
      Some ((NewEvent AcceptorEvent 5)\<lparr>readHandle := Some AcceptHandle\<rparr>)"
    by (simp add: server_deref_def created_server_def)
  show "HandleEvent ((NewEvent AcceptorEvent 5)\<lparr>readHandle := Some AcceptHandle\<rparr>) EventRead = Some AcceptHandle"
    by (simp add: HandleEvent_def mask_defs)
  show "AcceptorEvent = AcceptorEvent \<longrightarrow> accepts_unused net_sys created_server"
    by (auto simp: accepts_unused_def unused_def net_sys_def created_server_def core_at_def core_of_def
        main_core_def sub_core_def NewEvent_def less_Suc_eq ctls_def)
qed (rule demo_accept)

lemma accepted_reachable: "demo_reachable (accepted_server, \<lambda>_. [])"
  using created_reachable accepted_step by (rule server_reachable.step)

text \<open>The sub loop takes the registration out of its queue.\<close>

definition taken_server :: "(script, bytes, bytes, unit) server" where
  "taken_server = (switch_to 1 accepted_server)\<lparr>loopFunctions := []\<rparr>"

definition taken_batch :: "nat \<Rightarrow> task list" where
  "taken_batch = (\<lambda>_. [])(1 := [TaskConnected 0])"

lemma open_steps:
  "demo_step (accepted_server, \<lambda>_. []) (switch_to 1 accepted_server, \<lambda>_. [])"
  "demo_step (switch_to 1 accepted_server, \<lambda>_. []) (taken_server, taken_batch)"
  "demo_step (taken_server, taken_batch) (open_server, \<lambda>_. [])"
proof -
  let ?w1 = "switch_to 1 accepted_server"
  have w1: "current ?w1 = 1" "loopFunctions ?w1 = [TaskConnected 0]"
    by (simp_all add: switch_to_def load_core_def accepted_server_def created_server_def sub_core_def)
  show "demo_step (accepted_server, \<lambda>_. []) (?w1, \<lambda>_. [])"
    by (rule server_step.switch) (simp add: accepted_server_def)
  show "demo_step (?w1, \<lambda>_. []) (taken_server, taken_batch)"
    using server_step.swap [of "\<lambda>_. []" ?w1] w1 by (simp add: taken_server_def taken_batch_def)
  have "demo_step (taken_server, taken_batch) (open_server, taken_batch(1 := []))"
    using server_step.execute [of taken_batch taken_server "TaskConnected 0"
        "[]" net_lib list_bufs net_sys echo_handle open_server] w1(1) demo_connect
    by (simp add: taken_server_def taken_batch_def)
  moreover have "taken_batch(1 := []) = (\<lambda>_. [])"
    by (simp add: fun_eq_iff taken_batch_def)
  ultimately show "demo_step (taken_server, taken_batch) (open_server, \<lambda>_. [])" by (simp only:)
qed

lemma open_reachable: "demo_reachable (open_server, \<lambda>_. [])"
  using accepted_reachable open_steps by (blast intro: server_reachable.step)

section \<open>One segment\<close>

text \<open>The segment is a line and the start of another; of the echo the kernel takes one byte.\<close>

definition read_conn :: "(bytes, bytes) conn" where
  "read_conn = open_conn\<lparr>temporaryBuf := [105], inBuffer := [105], outBuffer := [10],
     event := (event open_conn)\<lparr>events := EventRead OR EventErr OR EventWrite, oldEvents := EventRead OR EventErr\<rparr>\<rparr>"

definition read_server :: "(script, bytes, bytes, unit) server" where
  "read_server = open_server
     \<lparr>trace := trace open_server @
        [EffRead 8 (Inr [104, 10, 105]), EffMessage 0 [104], EffSubmit 0 [104, 10],
         EffWrite 8 [104, 10] (Inr 1), EffCtl 6 3 8 15 None],
      conns := [0 \<mapsto> read_conn]\<rparr>"

lemma demo_decode:
  "ICodec_Decode LineBasedFrameCodec (connect_Conn list_bufs) (open_conn\<lparr>temporaryBuf := [104, 10, 105]\<rparr>) =
     Ret (Inr (Some [104]), open_conn\<lparr>temporaryBuf := [105]\<rparr>)"
  by code_simp

lemma demo_decode_end:
  "ICodec_Decode LineBasedFrameCodec (connect_Conn list_bufs) (read_conn\<lparr>inBuffer := []\<rparr>) =
     Ret (Inl ErrCRLFNotFound, read_conn\<lparr>inBuffer := []\<rparr>)"
  by code_simp

definition ready_server :: "(script, bytes, bytes, unit) server" where
  "ready_server = open_server\<lparr>kern := \<lparr>s_reads = [Inr [104, 10, 105]], s_writes = [Inr 1], s_now = 9\<rparr>\<rparr>"

lemma demo_deliver:
  "deliver list_bufs net_sys (server_app echo_handle) [104] (open_conn\<lparr>temporaryBuf := [105]\<rparr>)
     (ready_server\<lparr>kern := \<lparr>s_reads = [], s_writes = [Inr 1], s_now = 9\<rparr>,
        trace := trace open_server @ [EffRead 8 (Inr [104, 10, 105])]\<rparr>) =
   Ret (read_conn\<lparr>inBuffer := []\<rparr>, read_server\<lparr>conns := [0 \<mapsto> open_conn]\<rparr>)"
  by (simp add: deliver_def server_app_def echo_handle_def HandleEventImpl_def open_conn_def new_conn_def
      LineBasedFrameCodec_Encode_def CRLFByte_def conn_write_def list_bufs_def net_sys_simps sys_write_def
      script_sys_def enable_writing_def EnableWriting_def Event_update_def EventCtrl_modifyEvent_def
      Multiplex_ModifyEvent_def epollCtrl_def sys_epoll_ctl_def set_mask_def mask_defs NewEvent_def
      GetEpollEventsFromIOEvent_def EPOLL_CTL_MOD_def emit_def read_conn_def read_server_def ready_server_def
      open_server_def accepted_server_def created_server_def sub_core_def Let_def)

lemma demo_read:
  "server_handler list_bufs net_sys no_buffers echo_handle (ReadHandler 0) ready_server = Ret read_server"
proof -
  let ?w = "ready_server\<lparr>kern := \<lparr>s_reads = [], s_writes = [Inr 1], s_now = 9\<rparr>,
        trace := trace open_server @ [EffRead 8 (Inr [104, 10, 105])]\<rparr>"
  let ?d = "read_conn\<lparr>inBuffer := []\<rparr>"
  have codec: "codeImp (open_conn\<lparr>temporaryBuf := x\<rparr>) = LineBasedFrameCodec"
    "codeImp ?d = LineBasedFrameCodec" for x
    by (simp_all add: open_conn_def new_conn_def read_conn_def)
  have "read_loop list_bufs net_sys (server_app echo_handle) (open_conn\<lparr>temporaryBuf := [104, 10, 105]\<rparr>) ?w =
      read_loop list_bufs net_sys (server_app echo_handle) ?d (read_server\<lparr>conns := [0 \<mapsto> open_conn]\<rparr>)"
    by (subst read_loop.simps) (simp only: codec demo_decode demo_deliver bind.bind_lunit option.simps sum.simps prod.case)
  also have "\<dots> = Ret (?d, read_server\<lparr>conns := [0 \<mapsto> open_conn]\<rparr>)"
    by (subst read_loop.simps) (simp only: codec demo_decode_end bind.bind_lunit option.simps sum.simps prod.case)
  finally have loop: "read_loop list_bufs net_sys (server_app echo_handle)
      (open_conn\<lparr>temporaryBuf := [104, 10, 105]\<rparr>) ?w = Ret (?d, read_server\<lparr>conns := [0 \<mapsto> open_conn]\<rparr>)" .
  have c: "idleTime open_conn = 0" "outBuffer open_conn = []" "conn_fd open_conn = 8"
    by (simp_all add: open_conn_def new_conn_def)
  have r: "sys_read net_sys 8 65535 ready_server = (Inr [104, 10, 105], ?w)"
    by (simp add: net_sys_simps sys_read_def script_sys_def ready_server_def emit_def)
  have d: "?d\<lparr>inBuffer := rb_Write list_bufs (inBuffer ?d) (temporaryBuf ?d)\<rparr> = read_conn"
    by (simp add: list_bufs_def read_conn_def)
  have "readEvent list_bufs net_sys (server_app echo_handle) open_conn ready_server =
      Ret (read_conn, read_server\<lparr>conns := [0 \<mapsto> open_conn]\<rparr>)"
    using c r loop d by (simp add: readEvent_def updateActivityTime_def list_bufs_def del: fun_upd_apply)
  moreover have "conns ready_server 0 = Some open_conn"
    "put_conn 0 read_conn (read_server\<lparr>conns := [0 \<mapsto> open_conn]\<rparr>) = read_server"
    by (simp_all add: ready_server_def open_server_def put_conn_def read_server_def)
  ultimately show ?thesis by (simp add: server_handler_def)
qed

lemma read_steps:
  "demo_step (open_server, \<lambda>_. []) (ready_server, \<lambda>_. [])"
  "demo_step (ready_server, \<lambda>_. []) (read_server, \<lambda>_. [])"
proof -
  show "demo_step (open_server, \<lambda>_. []) (ready_server, \<lambda>_. [])"
    unfolding ready_server_def by (rule server_step.env)
  show "demo_step (ready_server, \<lambda>_. []) (read_server, \<lambda>_. [])"
  proof (rule server_step.event)
    show "eventPool ready_server 8 = Some (ConnEvent 0)"
      by (simp add: ready_server_def open_server_def)
    show "server_deref (ConnEvent 0) ready_server = Some (event open_conn)"
      by (simp add: server_deref_def ready_server_def open_server_def)
    show "HandleEvent (event open_conn) EventRead = Some (ReadHandler 0)"
      by (simp add: HandleEvent_def open_conn_def new_conn_def mask_defs)
    show "ConnEvent 0 = AcceptorEvent \<longrightarrow> accepts_unused net_sys ready_server" by simp
  qed (rule demo_read)
qed

lemma read_reachable: "demo_reachable (read_server, \<lambda>_. [])"
  using open_reachable read_steps by (blast intro: server_reachable.step)

lemma read_server_fields:
  "conns read_server 0 = Some read_conn" "state read_conn = Connected" "conn_fd read_conn = 8"
  "inBuffer read_conn = [105]" "outBuffer read_conn = [10]" "conn_loop read_server 0 = 1"
  "received 8 (trace read_server) = [104, 10, 105]" "sent 8 (trace read_server) = [104]"
  "length (loops read_server) = 2"
  by (simp_all add: read_server_def open_server_def accepted_server_def created_server_def read_conn_def
      open_conn_def new_conn_def)

lemma demo_codec: "codec_of demo_opts = LineBasedFrameCodec"
  by (simp add: codec_of_def GetCode_def NewOptions_def fill_defaults_fields demo_opts_def NumLoops_def
      CodeImp_def)

section \<open>The end of the connection\<close>

definition closed_conn :: "(bytes, bytes) conn" where
  "closed_conn = open_conn\<lparr>state := Disconnected,
     event := (event open_conn)\<lparr>oldEvents := EventRead OR EventErr, events := EventNone\<rparr>\<rparr>"

definition closed_server :: "(script, bytes, bytes, unit) server" where
  "closed_server = open_server
     \<lparr>trace := trace open_server @
        [EffCtl 6 3 8 0 None, EffCtl 6 2 8 0 None, EffConnectClose 0, EffClose 8, EffPutBuffers 0],
      eventPool := Map.empty, connectPool := Map.empty, conns := [0 \<mapsto> closed_conn]\<rparr>"

lemma demo_close:
  "server_handler list_bufs net_sys no_buffers echo_handle (ErrHandler 0) open_server = Ret closed_server"
  by (simp add: server_handler_def errEvent_def closeEvent_def DisableAll_def UnRegister_def
      EventCtrl_removeEvent_def Multiplex_RemoveEvent_def server_app_def connectCloseEvent_def
      echo_handle_def HandleEventImpl_def removeConnect_def PeerAddr_def sys_close_def
      net_sys_def script_sys_def Event_update_def EventCtrl_modifyEvent_def
      Multiplex_ModifyEvent_def epollCtrl_def sys_epoll_ctl_def mask_defs NewEvent_def
      GetEpollEventsFromIOEvent_def EPOLL_CTL_MOD_def EPOLL_CTL_DEL_def emit_def put_conn_def
      closed_conn_def closed_server_def open_conn_def new_conn_def open_server_def
      accepted_server_def created_server_def sub_core_def Let_def)

lemma closed_reachable: "demo_reachable (closed_server, \<lambda>_. [])"
proof (rule server_reachable.step [OF open_reachable], rule server_step.event)
  show "eventPool open_server 8 = Some (ConnEvent 0)" by (simp add: open_server_def)
  show "server_deref (ConnEvent 0) open_server = Some (event open_conn)"
    by (simp add: server_deref_def open_server_def)
  show "HandleEvent (event open_conn) EventErr = Some (ErrHandler 0)"
    by (simp add: HandleEvent_def open_conn_def new_conn_def mask_defs)
  show "ConnEvent 0 = AcceptorEvent \<longrightarrow> accepts_unused net_sys open_server" by simp
qed (rule demo_close)

lemma closed_server_fields:
  "conns closed_server 0 = Some closed_conn" "conn_fd closed_conn = 8" "closes 8 (trace closed_server) = 1"
  "length (loops closed_server) = 2"
  by (simp_all add: closed_server_def closed_conn_def open_server_def accepted_server_def created_server_def
      open_conn_def new_conn_def)

end
