(* ===== verification/ServerWhole.thy ===== *)
theory ServerWhole
  imports ServerDemo
begin

unbundle bit_operations_syntax

text \<open>
  Properties of whole servers: what holds for every open connection in every configuration that
  can be reached from \<open>Server_New\<close>, whatever the other connections, the other loops, the
  application and the kernel do in between.
\<close>

lemma server_connection:
  assumes "bufs_ok R cont" and "handle_ok H" and "server_reachable N R S P H opts (w, b)"
    and "conns w i = Some c" and "state c \<noteq> Disconnected"
  shows "conn_place w i c" "conn_reachable R S (server_app H) (codec_of opts) (c, view (conn_loop w i) w)"
    "pool_placed (w, b)"
proof -
  have inv: "server_inv R S H (codec_of opts) (w, b)" using server_reachable_inv [OF assms(1-3)] .
  then show "conn_place w i c" "pool_placed (w, b)" using assms(4) by (simp_all add: server_inv_def)
  have "TaskConnected i \<notin> set (tasks_at (conn_loop w i) (w, b))"
    using waiting_closed [OF assms(1) inv assms(4)] assms(5) by blast
  moreover have "conn_phase R S H (codec_of opts) i c (tasks_at (conn_loop w i) (w, b)) (view (conn_loop w i) w)"
    using inv assms(4) by (simp add: server_inv_def)
  ultimately show "conn_reachable R S (server_app H) (codec_of opts) (c, view (conn_loop w i) w)"
    using assms(5) by (auto simp: conn_phase_def at_rest_def)
qed

lemma server_sound:
  assumes "bufs_ok R cont" and "sys_ok S" and "handle_ok H"
    and "server_reachable N R S P H opts (w, b)"
    and "conns w i = Some c" and "state c \<noteq> Disconnected"
  shows "sound cont c (view (conn_loop w i) w)"
  using conn_reachable_sound [OF assms(1,2) server_app_ok [OF assms(3)]
      server_connection(2) [OF assms(1,3-6)]] by simp

text \<open>C3: framing on a whole server whose codec cannot panic: for every open connection of every
  reachable configuration, whatever happens to the other connections, the frames the handler was
  given are exactly the frames of the bytes that arrived on its descriptor, with the line, delimiter
  and length field codecs; the other two codecs, whose frames depend on the segments, hand over every
  byte that arrived, in order, and keep nothing back.\<close>

theorem server_frames:
  assumes "bufs_ok R cont" and "handle_ok H" and "codec_wf (codec_of opts)"
    and "server_reachable N R S P H opts (w, b)"
    and "conns w i = Some c" and "state c \<noteq> Disconnected"
  shows "if incremental (codec_of opts)
    then frames (frame_of (codec_of opts)) (received (conn_fd c) (trace w)) =
      (delivered i (trace w), cont (inBuffer c))
    else concat (delivered i (trace w)) = received (conn_fd c) (trace w) \<and> cont (inBuffer c) = []"
proof -
  note c = server_connection [OF assms(1,2,4-6)]
  show ?thesis
    using conn_reachable_frames [OF assms(1) server_app_ok [OF assms(2)] _ assms(3) c(2)]
      conn_reachable_bytes [OF assms(1) server_app_ok [OF assms(2)] _ assms(3) c(2)] c(1)
    by (simp add: conn_place_def)
qed

theorem server_frames_witness:
  "frames (frame_of LineBasedFrameCodec) [104, 10, 105] = (delivered 0 (trace read_server), [105])"
  using server_frames [OF list_bufs_ok echo_handle_ok _ read_reachable read_server_fields(1)]
  by (simp add: demo_codec read_server_fields)





text \<open>C6: a connection ends once: in every reachable configuration the descriptor of every
  connection, open or not, has been closed at most once; the application's close callback has been
  called and the buffers have been returned once, in this order, if it has, and not at all if it has
  not; and after that the connection is disconnected and in no pool.\<close>

theorem server_closed_once:
  assumes "bufs_ok R cont" and "sys_ok S" and "handle_ok H"
    and "server_reachable N R S P H opts (w, b)" and "conns w i = Some c"
  shows "closes (conn_fd c) (trace w) \<le> 1 \<and>
    goodbyes i (trace w) =
      (if closes (conn_fd c) (trace w) = 1 then [EffConnectClose i, EffPutBuffers i] else []) \<and>
    (closes (conn_fd c) (trace w) = 1 \<longrightarrow> state c = Disconnected \<and>
       (\<forall>j k. j < length (loops w) \<longrightarrow> core_eventPool (core_at j w) (conn_fd c) \<noteq> Some (ConnEvent k)))"
proof -
  let ?j = "conn_loop w i" and ?cd = "codec_of opts"
  have inv: "server_inv R S H ?cd (w, b)" using server_reachable_inv [OF assms(1,3,4)] .
  then have place: "conn_place w i c" and pool: "pool_placed (w, b)"
    and phase: "conn_phase R S H ?cd i c (tasks_at ?j (w, b)) (view ?j w)"
    using assms(5) by (simp_all add: server_inv_def)
  have tr: "trace (view ?j w) = trace w" by simp
  consider (rest) "at_rest (conn_fd c) 0 (c, view ?j w)"
    | (run) "conn_reachable R S (server_app H) ?cd (c, view ?j w)"
    using phase awaiting_rest [OF assms(1)] unfolding conn_phase_def by blast
  then show ?thesis
  proof cases
    case rest
    then show ?thesis using place by (simp add: at_rest_def conn_place_def)
  next
    case run
    have snd: "sound cont c (view ?j w)"
      using conn_reachable_sound [OF assms(1,2) server_app_ok [OF assms(3)] run] by simp
    have "core_eventPool (core_at j w) (conn_fd c) \<noteq> Some (ConnEvent k)"
      if jl: "j < length (loops w)" and st: "state c = Disconnected" for j k
    proof
      assume e: "core_eventPool (core_at j w) (conn_fd c) = Some (ConnEvent k)"
      then obtain d where d: "conn_loop w k = j" "conns w k = Some d" "conn_fd d = conn_fd c"
        using pool jl unfolding pool_placed_def fst_conv by blast
      then have "k = i" using place by (auto simp: conn_place_def)
      moreover have "eventPool (view ?j w) (conn_fd c) = None"
        using snd st by (simp add: sound_def linked_def)
      ultimately show False using e d jl by (simp add: view_core)
    qed
    with snd place show ?thesis
      by (auto simp: sound_def linked_def conn_place_def farewell_def split: if_splits)
  qed
qed

theorem server_closed_once_witness:
  "goodbyes 0 (trace closed_server) = [EffConnectClose 0, EffPutBuffers 0] \<and> state closed_conn = Disconnected"
  using server_closed_once [OF list_bufs_ok net_sys_ok echo_handle_ok closed_reachable closed_server_fields(1)]
  by (simp add: closed_server_fields)

text \<open>C8: output cannot stall: as long as no \<open>epoll_ctl\<close> call for its descriptor failed, an open
  connection with bytes the kernel has not taken has the kernel watch for write events.\<close>

theorem server_no_stall:
  assumes "bufs_ok R cont" and "sys_ok S" and "handle_ok H"
    and "server_reachable N R S P H opts (w, b)"
    and "conns w i = Some c" and "state c \<noteq> Disconnected"
    and "submitted i (trace w) \<noteq> sent (conn_fd c) (trace w)"
    and "\<not> ctl_failed (conn_fd c) (trace w)"
  shows "\<exists>ev. interest (conn_fd c) (trace w) = Some ev \<and> ev AND EPOLLOUT \<noteq> 0"
proof -
  have snd: "sound cont c (view (conn_loop w i) w)" using server_sound [OF assms(1-6)] .
  have "self c = i" using server_connection(1) [OF assms(1,3-6)] by (simp add: conn_place_def)
  with snd assms(6,7) have "cont (outBuffer c) \<noteq> []" by (auto simp: sound_def fifo_def)
  with snd assms(6) have "IsWriting (event c)" by (simp add: sound_def pushes_def)
  then have "GetEpollEventsFromIOEvent (events (event c)) AND EPOLLOUT \<noteq> 0"
    by (simp add: IsWriting_bit epoll_tests bit_epoll_of_event)
  with snd assms(6,8) show ?thesis by (auto simp: sound_def linked_def)
qed

theorem server_no_stall_witness:
  "\<exists>ev. interest 8 (trace read_server) = Some ev \<and> ev AND EPOLLOUT \<noteq> 0"
proof -
  have "submitted 0 (trace read_server) = [104, 10]" "\<not> ctl_failed 8 (trace read_server)"
    by (simp_all add: read_server_def open_server_def accepted_server_def created_server_def ctl_failed_def)
  with server_no_stall [OF list_bufs_ok net_sys_ok echo_handle_ok read_reachable read_server_fields(1)]
  show ?thesis by (simp add: read_server_fields)
qed

text \<open>C9: what a peer encoded message by message arrives message by message, with the line, delimiter and
  length field codecs and messages their format can carry (\<open>survives\<close>: no delimiter in them, and not
  empty and not too long for the length field): when the bytes received on an open connection begin with the encoded messages, in whatever segments they came, its
  handler has been given exactly the messages, and then the frames of what followed them.\<close>

theorem server_messages:
  assumes "bufs_ok R cont" and "handle_ok H" and "incremental (codec_of opts)" and "codec_wf (codec_of opts)"
    and "server_reachable N R S P H opts (w, b)"
    and "conns w i = Some c" and "state c \<noteq> Disconnected"
    and "\<forall>m \<in> set ms. survives (codec_of opts) m"
    and "encode_all (ICodec_Encode (codec_of opts)) ms = Some bs"
    and "received (conn_fd c) (trace w) = bs @ rest"
  shows "delivered i (trace w) = ms @ fst (frames (frame_of (codec_of opts)) rest) \<and>
    cont (inBuffer c) = snd (frames (frame_of (codec_of opts)) rest)"
proof -
  have "frames (frame_of (codec_of opts)) (received (conn_fd c) (trace w)) =
      (case frames (frame_of (codec_of opts)) rest of (fs, r) \<Rightarrow> (ms @ fs, r))"
    using survives_frames [OF assms(8)] assms(9,10) by auto
  with conn_reachable_frames [OF assms(1) server_app_ok [OF assms(2)] assms(3,4)
      server_connection(2) [OF assms(1,2,5-7)]] server_connection(1) [OF assms(1,2,5-7)]
  show ?thesis by (simp add: conn_place_def split: prod.splits)
qed

theorem server_messages_witness: "delivered 0 (trace read_server) = [[104]]"
proof -
  have "encode_all (ICodec_Encode LineBasedFrameCodec) [[104]] = Some [104, 10]"
    by (simp add: LineBasedFrameCodec_Encode_def CRLFByte_def)
  moreover have "frame_of LineBasedFrameCodec [105] = None"
    by (simp add: frame_of_def delim_next_def CRLFByte_def Let_def)
  then have "frames (frame_of LineBasedFrameCodec) [105] = ([], [105])" by (simp add: codec.frames_eqs)
  ultimately show ?thesis
    using server_messages [OF list_bufs_ok echo_handle_ok _ _ read_reachable read_server_fields(1),
      of "[[104]]" "[104, 10]" "[105]"]
    by (simp add: demo_codec read_server_fields line_ok_def CRLFByte_def)
qed

section \<open>References\<close>

text \<open>C18: the references of a server are well typed: in every reachable configuration every queued
  function and every entry of a pool of events refers to an existing connection of that loop, under
  its own descriptor, and every connection has its number, its four handlers, the message callback
  and the configured codec.\<close>

theorem server_references:
  assumes "bufs_ok R cont" and "handle_ok H" and "server_reachable N R S P H opts (w, b)"
    and "j < length (loops w)"
  shows "(\<forall>t \<in> set (b j @ core_loopFunctions (core_at j w)). \<forall>i. task_conn t = Some i \<longrightarrow>
      conns w i \<noteq> None \<and> conn_loop w i = j) \<and>
    (\<forall>fd i. core_eventPool (core_at j w) fd = Some (ConnEvent i) \<longrightarrow>
      (\<exists>c. conns w i = Some c \<and> conn_fd c = fd \<and> conn_loop w i = j)) \<and>
    (\<forall>i c. conns w i = Some c \<longrightarrow> self c = i \<and> i < next_conn w \<and> conn_loop w i < length (loops w) \<and>
      eventFd (event c) = conn_fd c \<and> handlers_of i (event c) \<and> messageCallback c \<and> connectCloseCallback c \<and>
      codeImp c = codec_of opts)"
proof -
  have inv: "server_inv R S H (codec_of opts) (w, b)" using server_reachable_inv [OF assms(1-3)] .
  then have "tasks_placed (w, b)" "pool_placed (w, b)"
    and place: "\<And>i c. conns w i = Some c \<Longrightarrow> conn_place w i c"
    and cd: "GetCode (options w) = Some (codec_of opts)"
    by (auto simp: server_inv_def)
  moreover have "self c = i \<and> i < next_conn w \<and> conn_loop w i < length (loops w) \<and>
      eventFd (event c) = conn_fd c \<and> handlers_of i (event c) \<and> messageCallback c \<and> connectCloseCallback c \<and>
      codeImp c = codec_of opts" if "conns w i = Some c" for i c
    using place [OF that] cd by (simp add: conn_place_def)
  ultimately show ?thesis
    using assms(4) unfolding tasks_placed_def pool_placed_def tasks_at_def fst_conv snd_conv by blast
qed

theorem server_references_witness:
  "conns accepted_server 0 \<noteq> None \<and> conn_loop accepted_server 0 = 1 \<and>
   TaskConnected 0 \<in> set (core_loopFunctions (core_at 1 accepted_server))"
proof -
  have j: "1 < length (loops accepted_server)"
    and t: "TaskConnected 0 \<in> set (core_loopFunctions (core_at 1 accepted_server))"
    by (simp_all add: accepted_server_def created_server_def core_at_def)
  from server_references [OF list_bufs_ok echo_handle_ok accepted_reachable j] t show ?thesis by simp
qed

section \<open>No panics\<close>

lemma server_handler_returns:
  assumes R: "bufs_ok R cont" and H: "handle_ok H" and cd: "codec_wf (codec_of opts)"
    and r: "server_reachable N R S P H opts (w, b)"
    and h: "handler_conn h = None \<or> (\<exists>i. handler_conn h = Some i \<and> conns w i \<noteq> None)"
  shows "\<exists>v. server_handler R S P H h w = Ret v"
proof (cases "handler_conn h")
  case None
  have inv: "server_inv R S H (codec_of opts) (w, b)" using server_reachable_inv [OF R H r] .
  then have "acc_newConnectCallback (tcpAccept w)" "lb_ok w" "GetCode (options w) = Some (codec_of opts)"
    by (simp_all add: server_inv_def acceptor_ok_def)
  then have "\<exists>v. newConnected R S P fd sa (w\<lparr>kern := k\<rparr>) = Ret v" for fd sa k
    by (simp add: newConnected_def getOneLoopFromPool_def lb_ok_def n_subLoops_def Let_def
        split: prod.splits sum.splits)
  with None \<open>acc_newConnectCallback (tcpAccept w)\<close> show ?thesis
    by (simp add: server_handler_def Accept_AcceptHandle_def split: prod.splits sum.splits)
next
  case (Some i)
  with h obtain c where c: "conns w i = Some c" by auto
  have inv: "server_inv R S H (codec_of opts) (w, b)" using server_reachable_inv [OF R H r] .
  with c have c': "messageCallback c" "codec_wf (codeImp c)"
    using cd by (auto simp: server_inv_def conn_place_def)
  have "\<exists>d v. readEvent R S (server_app H) c w = Ret (d, v)"
    by (rule readEvent_frames [OF R server_app_ok [OF H] codec_wf_safe [OF c'(2)] c'(1)]) blast+
  then have "\<exists>d v. run_handler R S (server_app H) h c w = Ret (d, v)"
    by (cases h) (simp_all add: split_paired_Ex [symmetric])
  with Some c show ?thesis by (auto simp: server_handler_def)
qed

lemma server_task_returns:
  assumes inv: "server_inv R S H cd (w, b)" and t: "t \<in> set (b (current w))"
  shows "\<exists>v. server_task N R S H t w = Ret v"
proof (cases "task_conn t")
  case None
  then show ?thesis by (simp add: server_task_def split: prod.splits)
next
  case (Some i)
  have "t \<in> set (tasks_at (current w) (w, b))" using t by (simp add: tasks_at_def)
  with inv Some obtain c where "conns w i = Some c"
    unfolding server_inv_def tasks_placed_def fst_conv by blast
  with Some show ?thesis by (simp add: server_task_def split: prod.splits)
qed

text \<open>C7: a server whose codec is well configured never panics on its events and functions: in every reachable configuration, every
  event of the pool of the running loop leads to an event structure, whatever the kernel reports
  for it the handler chosen by \<open>HandleEvent\<close> returns, and so does every function taken out of the
  queue; the loop therefore survives arbitrary input.\<close>

theorem server_never_panics:
  assumes "bufs_ok R cont" and "handle_ok H" and "codec_wf (codec_of opts)"
    and "server_reachable N R S P H opts (w, b)"
  shows "(\<forall>fd p revents. eventPool w fd = Some p \<longrightarrow> (\<exists>e. server_deref p w = Some e \<and>
      (\<forall>h. HandleEvent e revents = Some h \<longrightarrow> (\<exists>v. server_handler R S P H h w = Ret v)))) \<and>
    (\<forall>t \<in> set (b (current w)). \<exists>v. server_task N R S H t w = Ret v)"
proof -
  have inv: "server_inv R S H (codec_of opts) (w, b)" using server_reachable_inv [OF assms(1,2,4)] .
  note returns = server_handler_returns [OF assms]
  have "\<exists>e. server_deref p w = Some e \<and>
      (\<forall>h. HandleEvent e revents = Some h \<longrightarrow> (\<exists>v. server_handler R S P H h w = Ret v))"
    if p: "eventPool w fd = Some p" for fd p revents
  proof (cases p)
    case AcceptorEvent
    have "handler_conn h = None" if "HandleEvent (acc_event (tcpAccept w)) revents = Some h" for h
      using inv that by (auto simp: server_inv_def acceptor_ok_def HandleEvent_def split: if_splits)
    with returns show ?thesis by (simp add: server_deref_def AcceptorEvent)
  next
    case (ConnEvent i)
    with p have "core_eventPool (core_at (current w) w) fd = Some (ConnEvent i)"
      by (simp add: core_at_current)
    moreover have "current w < length (loops w)" "pool_placed (w, b)" using inv by (simp_all add: server_inv_def)
    ultimately obtain c where c: "conns w i = Some c" unfolding pool_placed_def fst_conv by blast
    then have "handlers_of i (event c)" using inv by (simp add: server_inv_def conn_place_def)
    then have "handler_conn h = Some i" if "HandleEvent (event c) revents = Some h" for h
      using that by (auto simp: handlers_of_def HandleEvent_def split: if_splits)
    with returns c show ?thesis by (simp add: server_deref_def ConnEvent)
  qed
  moreover have "\<forall>t \<in> set (b (current w)). \<exists>v. server_task N R S H t w = Ret v"
    using server_task_returns [OF inv] by blast
  ultimately show ?thesis by blast
qed

theorem server_never_panics_witness:
  "\<exists>v. server_handler list_bufs net_sys no_buffers echo_handle (WriteHandler 0) read_server = Ret v"
proof -
  have p: "eventPool read_server 8 = Some (ConnEvent 0)"
    "HandleEvent (event read_conn) EventWrite = Some (WriteHandler 0)"
    by (simp_all add: read_server_def open_server_def read_conn_def open_conn_def new_conn_def
        HandleEvent_def mask_defs)
  have "codec_wf (codec_of demo_opts)" by (simp add: demo_codec)
  from server_never_panics [OF list_bufs_ok echo_handle_ok this read_reachable] p
  show ?thesis by (force simp: server_deref_def read_server_fields)
qed

section \<open>Closing all connections\<close>

text \<open>What \<open>Stop\<close> does before it stops the loops is a sequence of steps.\<close>

lemma closing_call:
  fixes w :: "('k, 'rb, 'bb, 'l) server"
  assumes "conns w i = Some c"
  shows "on_loop (conn_loop w i) (call_api S ApiClose i c) w =
    on_loop (conn_loop w i) (\<lambda>w. snd (Connect_Close S c w)) w"
proof -
  have "put_conn i c (snd (Connect_Close S c u)) = snd (Connect_Close S c u)"
    if "conns u i = Some c" for u :: "('k, 'rb, 'bb, 'l) server"
  proof -
    have "conns (snd (Connect_Close S c u)) i = Some c"
      using that by (auto simp: Connect_Close_def RunInLoop_def Multiplex_Wake_def sys_write_def emit_def
          split: prod.splits sum.splits)
    then show ?thesis by (simp add: put_conn_def fun_upd_idem)
  qed
  moreover have "conns (switch_to j w) i = conns w i" for j
    by (simp add: switch_to_def load_core_def Let_def)
  ultimately show ?thesis using assms by (simp add: on_loop_def call_api_def)
qed

lemma close_conns_reachable:
  "server_reachable N R S P H opts (w, b) \<Longrightarrow> server_reachable N R S P H opts (close_conns S is w, b)"
proof (induction "is" arbitrary: w)
  case (Cons i "is")
  show ?case
  proof (cases "conns w i")
    case (Some c)
    have "server_step N R S P H (w, b) (on_loop (conn_loop w i) (call_api S ApiClose i c) w, b)"
      using Some by (rule server_step.call)
    from server_reachable.step [OF Cons.prems this] Cons.IH closing_call [OF Some, of S] Some
    show ?thesis by simp
  qed (use Cons in simp)
qed simp

lemma stop_request_reachable:
  assumes "server_reachable N R S P H opts (w, b)"
  shows "server_reachable N R S P H opts (Server_Stop_request tw S order w, b)"
  unfolding Server_Stop_request_def Let_def
proof (rule close_conns_reachable, rule server_reachable.step)
  show "server_reachable N R S P H opts (w\<lparr>kern := tw (kern w)\<rparr>, b)"
    using assms server_step.env by (rule server_reachable.step)
qed (rule server_step.stop)

end
