(* ===== verification/Effects.thy ===== *)
theory Effects
  imports ServerWhole
begin

text \<open>
  Which effects an operation can have. \<open>adds P w v\<close> says that what was done between \<open>w\<close> and \<open>v\<close>
  satisfies \<open>P\<close>. For a class of effects that contains the system calls and the end of a connection
  every operation stays in it; the locales prove this once, and it is used for effects that are no
  messages (\<open>ServerAnswers\<close>), that do not announce a connection (\<open>ServerOrder\<close>), and for all.
\<close>

definition adds :: "(effect \<Rightarrow> bool) \<Rightarrow> ('k, 'z) world_scheme \<Rightarrow> ('k, 'z) world_scheme \<Rightarrow> bool" where
  "adds P w v \<longleftrightarrow> (\<exists>es. trace v = trace w @ es \<and> list_all P es)"

lemma adds_refl [simp]: "adds P w w"
  by (simp add: adds_def)

lemma adds_trans: "adds P w v \<Longrightarrow> adds P v u \<Longrightarrow> adds P w u"
  by (auto simp: adds_def)

lemma adds_left: "P e \<Longrightarrow> adds P (emit e w) v \<Longrightarrow> adds P w v"
  by (auto simp: adds_def emit_def)

lemma adds_trace: "trace v = trace u \<Longrightarrow> adds P w u \<Longrightarrow> adds P w v"
  by (simp add: adds_def)

lemma adds_add: "adds P w v \<Longrightarrow> P e \<Longrightarrow> adds P w (emit e v)"
  by (auto simp: adds_def emit_def)

lemma adds_app:
  "app_ok A \<Longrightarrow> on_message A c f w = (r, v) \<Longrightarrow> adds P w v"
  "app_ok A \<Longrightarrow> on_close A c w = (as, v) \<Longrightarrow> adds P w v"
  "app_ok A \<Longrightarrow> on_write_complete A c w = (as, v) \<Longrightarrow> adds P w v"
  using app_okD [of A] adds_trace [where v = v and u = w and w = w] by (metis adds_refl)+

section \<open>Calls to the kernel\<close>

text \<open>What the loops, the acceptor, the public methods and the timers do.\<close>

locale calls =
  fixes P :: "effect \<Rightarrow> bool"
  assumes P_calls [simp]: "P (EffRead fd r)" "P (EffWrite fd d r')" "P (EffClose fd)" "P (EffShutdown fd)"
      "P (EffCtl ep op fd ev err)" "P (EffAfterFunc i d')"
begin

lemma adds_sys:
  "sys_read S fd n w = (r0, v) \<Longrightarrow> adds P w v"
  "sys_write S fd d w = (r, v) \<Longrightarrow> adds P w v"
  "sys_close S fd w = (r1, v) \<Longrightarrow> adds P w v"
  "sys_shutdown_wr S fd w = (r2, v) \<Longrightarrow> adds P w v"
  "sys_epoll_ctl S epfd op fd ev w = (r3, v) \<Longrightarrow> adds P w v"
  "sys_set_nonblock S fd w = (r4, v) \<Longrightarrow> adds P w v"
  by (auto simp: adds_def sys_defs emit_def split: prod.splits)

lemma RunInLoop_adds: "adds P w (RunInLoop S t w)"
  using RunInLoop_world [of S t w] by (auto simp: adds_def)

lemma Event_update_adds: "Event_update S e w = (err, e', v) \<Longrightarrow> adds P w v"
  by (auto simp: adds_def emit_def dest!: Event_update_world)

lemma run_api_adds: "adds P w (snd (run_api S as c w))"
proof (induction as arbitrary: c w)
  case (Cons a as)
  have "adds P w (snd (run_api S [a] c w))"
    by (cases a) (auto simp: Connect_Close_def WriteInSelfLoop_def ShutdownWrite_def RunInLoop_adds
        split: prod.splits dest: adds_sys)
  with Cons.IH show ?case
    by (subst run_api_Cons) (auto split: prod.splits intro: adds_trans)
qed simp

lemma run_api_addsD: "run_api S as c w = (d, v) \<Longrightarrow> adds P w v"
  using run_api_adds [of w S as c] by simp

lemma enable_adds: "adds P w (snd (enable_writing S b c w))" "adds P w (snd (enable_reading S b c w))"
  by (auto simp: enable_writing_def enable_reading_def EnableWriting_def EnableReading_def
      split: prod.splits dest!: Event_update_adds)

lemma timer_conn_adds: "adds P u (closeTimeoutConn S c u)"
  using run_api_adds [of u S "[ApiClose]" c]
  by (auto simp: closeTimeoutConn_def adds_def emit_def Let_def)

section \<open>Calls and timers on a server\<close>

lemma switch_adds: "adds P w (switch_to j w)"
  by (simp add: adds_def)

lemma on_loop_adds: "(\<And>u. adds P u (f u)) \<Longrightarrow> adds P w (on_loop j f w)"
  unfolding on_loop_def by (auto intro: adds_trans [OF adds_trans [OF switch_adds] switch_adds])

lemma put_conn_adds [simp]: "adds P w (put_conn i d v) = adds P w v"
  by (simp add: adds_def put_conn_def)

lemma call_adds: "adds P w (on_loop j (call_api S a i c) w)"
  by (rule on_loop_adds) (auto simp: call_api_def split: prod.splits dest: run_api_addsD)

lemma timer_adds: "adds P w (on_loop j (closeTimeoutConn S c) w)"
  by (rule on_loop_adds) (rule timer_conn_adds)

lemma Accept_close_task_adds: "Accept_close_task N S a w = (a', u) \<Longrightarrow> adds P w u"
  by (auto simp: Accept_close_task_def DisableAll_def UnRegister_def EventCtrl_removeEvent_def
      Multiplex_RemoveEvent_def epollCtrl_def adds_def dest!: Event_update_adds adds_sys(5)
      split: prod.splits if_splits)

lemma Connect_New_adds: "Connect_New R S i fd sa idle cd o0 i0 w = (q, v) \<Longrightarrow> adds P w v"
  by (auto simp: Connect_New_def setNoDelay_def sys_set_nonblock_def sys_close_def adds_def emit_def
      Let_def split: prod.splits option.splits if_splits)

lemma newConnected_adds:
  assumes n: "newConnected R S B fd sa w = Ret v"
  shows "adds P w v"
proof -
  let ?u = "w\<lparr>nextLoopIndex := (nextLoopIndex w + 1) mod n_subLoops w, next_conn := Suc (next_conn w)\<rparr>"
  obtain codec where codec: "GetCode (options w) = Some codec"
    using n by (auto simp: newConnected_def getOneLoopFromPool_def bind_eq_Some_conv split: if_splits)
  obtain q w2 where 2: "Connect_New R S (next_conn w) fd sa (opt_IdleTime (options w)) codec
      (fst (B (next_conn w))) (snd (B (next_conn w))) ?u = (q, w2)" by fastforce
  have "adds P w w2" using Connect_New_adds [OF 2] by (simp add: adds_def)
  moreover have "adds P w2 v"
  proof (cases q)
    case (Inl e)
    with n codec 2 show ?thesis
      by (simp add: newConnected_def getOneLoopFromPool_def bind_eq_Some_conv Let_def split: if_splits)
  next
    case (Inr c)
    with n codec 2 obtain V j where "v = on_loop j (RunInLoop S (TaskConnected (next_conn w))) V" "trace V = trace w2"
      by (auto simp: newConnected_def getOneLoopFromPool_def put_conn_def addConnect_def Let_def split: if_splits)
    moreover have "adds P V (on_loop j (RunInLoop S (TaskConnected (next_conn w))) V)"
      by (rule on_loop_adds) (rule RunInLoop_adds)
    ultimately show ?thesis by (simp add: adds_def)
  qed
  ultimately show ?thesis by (rule adds_trans)
qed

lemma accept_adds: "Accept_AcceptHandle S (newConnected R S B) a w = Ret v \<Longrightarrow> adds P w v"
  by (auto simp: Accept_AcceptHandle_def adds_def dest!: newConnected_adds split: prod.splits sum.splits if_splits)

lemma ConnectedHandle_adds: "ConnectedHandle S c w = (err, d, v) \<Longrightarrow> adds P w v"
  by (auto simp: ConnectedHandle_def EnableReading_def EnableErrorEvent_def Register_def
      EventCtrl_addEvent_def Multiplex_AddEvent_def epollCtrl_def adds_def Let_def
      dest!: Event_update_adds adds_sys(5) split: prod.splits option.splits)

lemma EventLoop_New_adds:
  "EventLoop_New S q w = (r, v) \<Longrightarrow> adds P w v \<and> (\<forall>l. r = Inr l \<longrightarrow> trace l = trace v)"
  by (auto simp: EventLoop_New_def NewEventCtrl_def Multiplex_New_def newWakeFd_def Let_def adds_def
      sys_epoll_ctl_def sys_close_def split: prod.splits sum.splits option.splits)

lemma Accept_New_adds: "Accept_New N S opt w = (r, v) \<Longrightarrow> adds P w v"
  by (auto simp: Accept_New_def setFd_def Register_def EventCtrl_addEvent_def Multiplex_AddEvent_def
      epollCtrl_def sys_epoll_ctl_def adds_def Let_def split: prod.splits sum.splits option.splits if_splits)

lemma new_subLoops_adds: "new_subLoops S q n w = (r, v) \<Longrightarrow> adds P w v"
  by (induction n arbitrary: q w r v)
     (auto split: prod.splits sum.splits dest!: EventLoop_New_adds intro: adds_trans)

lemma Server_New_adds:
  assumes new: "Server_New N S cpus opts w0 = (Inr w, w1)"
  shows "\<exists>es. trace w = trace w0 @ es \<and> list_all P es"
proof -
  obtain r2 w2 where 2: "EventLoop_New S (- 1) w0 = (r2, w2)" by fastforce
  then obtain m where m: "r2 = Inr m" using new by (cases r2) (auto simp: Server_New_def)
  obtain r3 w3 where 3: "Accept_New N S (GetNet (NewOptions opts)) m = (r3, w3)" by fastforce
  then obtain a where a: "r3 = Inr a" using new 2 m by (cases r3) (auto simp: Server_New_def Let_def)
  define n where "n = nat (if opt_NumLoops (NewOptions opts) \<le> 0 then cpus else opt_NumLoops (NewOptions opts))"
  obtain r4 w4 where 4: "new_subLoops S 0 n (world_of w3) = (r4, w4)" by fastforce
  then have w: "trace w = trace w4"
    using new 2 m 3 a by (cases r4) (auto simp: Server_New_def n_def Let_def split: if_splits)
  have "\<exists>es. trace m = trace w0 @ es \<and> list_all P es"
    using EventLoop_New_adds [OF 2] m by (simp add: adds_def)
  moreover have "\<exists>es. trace w3 = trace m @ es \<and> list_all P es" using Accept_New_adds [OF 3] by (simp add: adds_def)
  moreover have "\<exists>es. trace w4 = trace w3 @ es \<and> list_all P es"
    using new_subLoops_adds [OF 4] by (simp add: adds_def world_of_def)
  ultimately show ?thesis using w by auto
qed

lemma Start_adds: "Server_Start tw S w = Ret v \<Longrightarrow> adds P w v"
  by (auto simp: Server_Start_def Accept_Listen_def EnableReading_def adds_def Let_def
      dest!: Event_update_adds split: prod.splits option.splits)

lemma wake_adds: "adds P w (wakeHandlerRead S m w)"
  by (simp add: wakeHandlerRead_def sys_read_def adds_def emit_def split: prod.splits)

lemma stop_adds: "adds P w (on_loop 0 (Accept_Close S) w)"
  by (rule on_loop_adds) (simp add: Accept_Close_def RunInLoop_adds)

end

section \<open>Closing and writing\<close>

locale effects = calls +
  assumes P_ends [simp]: "P (EffWriteComplete i)" "P (EffConnectClose i)" "P (EffPutBuffers i)"
begin

text \<open>A callback and the calls it makes.\<close>

lemma adds_callback:
  assumes "app_ok A" "P e"
  shows "on_close A c (emit e w) = (as, v) \<Longrightarrow> adds P w (snd (run_api S as c v))"
    "on_write_complete A c (emit e w) = (as, v) \<Longrightarrow> adds P w (snd (run_api S as c v))"
  using assms by (blast intro: adds_trans [OF _ run_api_adds] adds_left adds_app)+

lemma closeEvent_adds:
  assumes A: "app_ok A"
  shows "adds P w (snd (closeEvent S A c w))"
proof (cases "state c = Disconnected")
  case False
  obtain c1 c3 w2 w3 w4 where s: "closing S A c w c1 w2 c3 w3 w4"
    and cl: "closeEvent S A c w = (c3, emit (EffPutBuffers (self c3)) w4)"
    using closeEvent_steps [OF False] .
  have "adds P w w2"
    using s by (auto simp: closing_def UnRegister_def EventCtrl_removeEvent_def Multiplex_RemoveEvent_def
        epollCtrl_def adds_def dest!: Event_update_adds adds_sys(5) split: if_splits)
  moreover have "adds P w2 w3"
    using s adds_callback(1) [OF A, of "EffConnectClose (self c)"]
    by (auto simp: closing_def split: if_splits prod.splits) (metis snd_conv)
  moreover have "adds P w3 w4" using s by (auto simp: closing_def dest!: adds_sys)
  ultimately have "adds P w w4" by (blast intro: adds_trans)
  then show ?thesis by (simp add: cl adds_add)
qed (simp add: closeEvent_def)

lemma write_drained_adds:
  assumes A: "app_ok A"
  shows "adds P w (snd (write_drained R S A c w))"
proof -
  obtain c1 w1 where 1: "(if IsWriting (event c) then enable_writing S False c w else (c, w)) = (c1, w1)"
    by fastforce
  obtain c2 w2 where 2:
    "(if \<not> IsReading (event c1) then enable_reading S True c1 w1 else (c1, w1)) = (c2, w2)"
    by fastforce
  obtain acts w3 where 3: "on_write_complete A c2 (emit (EffWriteComplete (self c2)) w2) = (acts, w3)"
    by fastforce
  have "adds P w w1" using 1 enable_adds(1) [of w S False c] by (auto split: if_splits)
  moreover have "adds P w1 w2" using 2 enable_adds(2) [of w1 S True c1] by (auto split: if_splits)
  ultimately have "adds P w w2" by (rule adds_trans)
  moreover have "adds P w2 (snd (run_api S acts c2 w3))" using adds_callback(2) [OF A _ 3] by simp
  ultimately show ?thesis using 1 2 3 by (auto simp: write_drained_def intro: adds_trans)
qed

lemma writeEvent_adds:
  assumes A: "app_ok A"
  shows "adds P w (snd (writeEvent R S A c w))"
proof -
  let ?c = "updateActivityTime S c w"
  obtain f e where fe: "rb_PeekAll R (outBuffer ?c) = (f, e)" by fastforce
  obtain r1 w1 where 1: "sys_write S (conn_fd ?c) f w = (r1, w1)" by fastforce
  obtain r2 w2 where 2: "sys_write S (conn_fd ?c) e w1 = (r2, w2)" by fastforce
  have q: "adds P w w1" "adds P w w2"
    using adds_sys(2) [OF 1] adds_sys(2) [OF 2] by (auto intro: adds_trans)
  show ?thesis
    using fe 1 2 q
    by (auto simp: writeEvent_def Let_def split: sum.splits
        intro: adds_trans [OF q(1) write_drained_adds [OF A]] adds_trans [OF q(1) closeEvent_adds [OF A]]
          adds_trans [OF q(2) write_drained_adds [OF A]] adds_trans [OF q(2) closeEvent_adds [OF A]])
qed

text \<open>A write submits its data and nothing else.\<close>

lemma conn_write_adds:
  assumes A: "app_ok A"
  shows "adds P (emit (EffSubmit (self c) data) w) (snd (conn_write R S A data c w))"
proof -
  obtain r w1 where 1: "sys_write S (conn_fd c) data (emit (EffSubmit (self c) data) w) = (r, w1)"
    by fastforce
  note q = adds_sys(2) [OF 1]
  show ?thesis
    using 1 q
    by (auto simp: conn_write_def Let_def split: sum.splits
        intro: adds_trans [OF q enable_adds(1)] adds_trans [OF q closeEvent_adds [OF A]])
qed

end

section \<open>Messages\<close>

locale conn_effects = effects +
  assumes P_messages [simp]: "P (EffMessage i f)" "P (EffSubmit i d)"
begin

lemma write_adds: "app_ok A \<Longrightarrow> adds P w (snd (conn_write R S A data c w))"
  by (rule adds_left [OF _ conn_write_adds]) simp_all

lemma deliver_adds:
  assumes A: "app_ok A" and s: "deliver R S A f c w = Ret (d, v)"
  shows "adds P w v"
proof -
  obtain out acts w1 where 1: "on_message A c f (emit (EffMessage (self c) f) w) = ((out, acts), w1)"
    by (metis surj_pair)
  obtain c2 w2 where 2: "run_api S acts c w1 = (c2, w2)" by fastforce
  have q: "adds P w w2"
    using adds_left [where P = P, OF P_messages(1) adds_app(1) [OF A 1]] run_api_addsD [OF 2] by (rule adds_trans)
  have w: "adds P w (snd (conn_write R S A x c2 w2))" for x using adds_trans [OF q write_adds [OF A]] .
  show ?thesis
  proof (cases out)
    case None
    with s 1 2 q show ?thesis by (auto simp: deliver_def split: if_splits)
  next
    case (Some b)
    with s 1 2 obtain y :: "go_error + bytes" where y: "(case y of Inl _ \<Rightarrow> Ret (c2, w2) | Inr outFrame \<Rightarrow>
        if outFrame \<noteq> [] then Ret (conn_write R S A outFrame c2 w2) else Ret (c2, w2)) = Ret (d, v)"
      by (auto simp: deliver_def bind_eq_Some_conv split: if_splits)
    show ?thesis
    proof (cases y)
      case (Inr x)
      with y q w [of x] show ?thesis by (auto split: if_splits)
    qed (use y q in simp)
  qed
qed

lemma readEvent_adds:
  fixes c :: "('rb, 'bb) conn"
  assumes A: "app_ok A" and s: "readEvent R S A c w = Ret (d, v)"
  shows "adds P w v"
proof -
  define c0 where "c0 = updateActivityTime S c w"
  obtain x w1 where x: "sys_read S (conn_fd c0) 65535 w = (x, w1)" by fastforce
  note w1 = adds_sys(1) [OF x]
  have loop: "adds P w v'" if l: "read_loop R S A (c0\<lparr>temporaryBuf := b\<rparr>) w1 = Ret (d', v')" for b d' v'
  proof -
    have "(\<lambda>c u. adds P w u) (fst (d', v')) (snd (d', v'))"
      by (rule read_loop_keeps [where Q = "\<lambda>c u. adds P w u", OF _ _ l])
        (use deliver_adds [OF A] w1 in \<open>blast intro: adds_trans\<close>)+
    then show ?thesis by simp
  qed
  have cl: "adds P w (snd (closeEvent S A c0 w1))" using adds_trans [OF w1 closeEvent_adds [OF A]] .
  have en: "adds P w (snd (enable_reading S False c0 w))" by (rule enable_adds)
  from s show ?thesis
    unfolding readEvent_def Let_def c0_def [symmetric] x prod.case
    using cl en w1 by (auto simp: bind_eq_Some_conv loop split: if_splits sum.splits)
qed

lemma run_handler_adds: "app_ok A \<Longrightarrow> run_handler R S A h c w = Ret (d, v) \<Longrightarrow> adds P w v"
  using readEvent_adds [of A R S c w d v] writeEvent_adds [of A w R S c] closeEvent_adds [of A w S c]
  by (cases h) (auto simp: errEvent_def)

lemma run_task_adds: "app_ok A \<Longrightarrow> adds P w (snd (run_task R S A t c w))"
  using write_adds [of A] closeEvent_adds [of A] by (cases t) auto

end

section \<open>Registration\<close>

locale server_effects = effects +
  assumes P_server [simp]: "P (EffConnect i)"
begin

lemma connected_task_adds:
  assumes "handle_ok H" "connected_task S H i c w = (d, u)"
  shows "adds P w u"
proof -
  obtain err c1 w1 where 1: "ConnectedHandle S c w = (err, c1, w1)" by (metis prod_cases3)
  define w2 where "w2 = (if err \<noteq> None then removeConnect (PeerAddr c1) (snd (Connect_Close S c1 w1)) else w1)"
  obtain acts w4 where 4: "ConnectCallback H c1 (emit (EffConnect i) w2) = (acts, w4)" by fastforce
  have "adds P w w1" using ConnectedHandle_adds [OF 1] .
  moreover have "adds P w1 w2"
    using run_api_adds [of w1 S "[ApiClose]" c1] by (auto simp: w2_def adds_def removeConnect_def)
  moreover obtain k where "w4 = (emit (EffConnect i) w2)\<lparr>kern := k\<rparr>" using handle_okD(1) [OF assms(1) 4] by blast
  then have "adds P w2 w4" by (simp add: adds_def emit_def)
  moreover have "adds P w4 u"
    using assms(2) 1 4 run_api_addsD by (simp add: connected_task_def w2_def Let_def)
  ultimately show ?thesis by (blast intro: adds_trans)
qed

lemma task_adds:
  assumes H: "handle_ok H" and s: "server_task N R S H t w = Ret v" and t: "\<nexists>i f. t = TaskWrite i f"
  shows "adds P w v"
proof (cases "task_conn t")
  case None
  with s show ?thesis by (auto simp: server_task_def adds_def split: prod.splits dest!: Accept_close_task_adds)
next
  case (Some i)
  with s obtain c where c: "conns w i = Some c" by (auto simp: server_task_def bind_eq_Some_conv)
  obtain d u where du: "(if t = TaskConnected i then connected_task S H i c w
      else run_task R S (server_app H) t c w) = (d, u)" by fastforce
  have "adds P w u"
    using t du Some connected_task_adds [OF H] closeEvent_adds [OF server_app_ok [OF H], of w S c]
    by (cases t) auto
  moreover have "v = put_conn i d u" using s Some c du by (simp add: server_task_def)
  ultimately show ?thesis by simp
qed

end

section \<open>All effects\<close>

locale all_effects = conn_effects + server_effects
begin

lemma server_handler_adds:
  assumes R: "bufs_ok R cont" and H: "handle_ok H" and s: "server_handler R S B H h w = Ret v"
  shows "adds P w v"
proof (cases "handler_conn h")
  case None
  with s show ?thesis by (auto simp: server_handler_def dest: accept_adds)
next
  case (Some i)
  with s show ?thesis
    using run_handler_adds [OF server_app_ok [OF H]] by (auto simp: server_handler_def bind_eq_Some_conv)
qed

lemma server_task_adds:
  assumes H: "handle_ok H" and s: "server_task N R S H t w = Ret v"
  shows "adds P w v"
proof (cases "\<exists>i f. t = TaskWrite i f")
  case True
  then obtain i f where t: "t = TaskWrite i f" by blast
  with s obtain c where c: "conns w i = Some c" by (auto simp: server_task_def bind_eq_Some_conv)
  obtain d u where du: "conn_write R S (server_app H) f c w = (d, u)" by fastforce
  have "adds P w u" using write_adds [OF server_app_ok [OF H], of w R S f c] du by simp
  moreover have "v = put_conn i d u" using s t c du by (simp add: server_task_def)
  ultimately show ?thesis by simp
next
  case False
  with task_adds [OF H s] show ?thesis by blast
qed

lemma server_step_adds:
  assumes R: "bufs_ok R cont" and H: "handle_ok H" and step: "server_step N R S B H s s'"
  shows "adds P (fst s) (fst s')"
  using step
proof cases
qed (auto simp: Start_adds wake_adds stop_adds call_adds timer_adds switch_adds server_handler_adds [OF R H] server_task_adds [OF H],
    simp_all add: adds_def)

end

interpretation anything: all_effects "\<lambda>e. True"
  by unfold_locales simp_all

lemma steps_extend:
  assumes "bufs_ok R cont" "handle_ok H" "server_step N R S B H s s'"
  shows "\<exists>es. trace (fst s') = trace (fst s) @ es"
  using anything.server_step_adds [OF assms] by (auto simp: adds_def)

end
