(* ===== verification/ServerPass.thy ===== *)
theory ServerPass
  imports Effects
begin

text \<open>
  One pass of a loop's \<open>Run\<close> (\<open>server_pass\<close>: wait for events, call their handlers, run the
  queued functions) returns, and it is a sequence of steps of the server: what the step relation
  says of reachable configurations holds of the code's own loops. A pass of the main loop may accept
  any number of connections, each of which needs a descriptor of its own (\<open>accepts_fresh\<close>).
\<close>

section \<open>The acceptor's event stays with the main loop\<close>

definition acceptor_home :: "('k, 'rb, 'bb, 'l) server \<Rightarrow> bool" where
  "acceptor_home w \<longleftrightarrow> (\<forall>k fd. 0 < k \<longrightarrow> k < length (loops w) \<longrightarrow>
     core_eventPool (core_at k w) fd \<noteq> Some AcceptorEvent)"

lemma home_frame:
  assumes "acceptor_home w" "length (loops v) = length (loops w)"
    and "\<And>k fd. k < length (loops w) \<Longrightarrow> core_eventPool (core_at k v) fd = Some AcceptorEvent \<Longrightarrow>
      core_eventPool (core_at k w) fd = Some AcceptorEvent"
  shows "acceptor_home v"
  using assms unfolding acceptor_home_def by metis

lemma home_acts: "srv_acts fd i j ts w v \<Longrightarrow> acceptor_home w \<Longrightarrow> acceptor_home v"
proof (erule home_frame)
  assume s: "srv_acts fd i j ts w v"
  show "length (loops v) = length (loops w)" using s by (simp add: srv_acts_def same_rest_def)
  show "core_eventPool (core_at k w) fd' = Some AcceptorEvent"
    if "k < length (loops w)" "core_eventPool (core_at k v) fd' = Some AcceptorEvent" for k fd'
    using s that unfolding srv_acts_def by (cases "k = j"; cases "fd' = fd") auto
qed

lemma home_put [simp]: "acceptor_home (put_conn i d w) = acceptor_home w"
  by (simp add: acceptor_home_def put_conn_def)

lemma home_current:
  assumes "acceptor_home w" "current v = current w" "loops v = loops w"
    and "\<And>fd. eventPool v fd = Some AcceptorEvent \<Longrightarrow> eventPool w fd = Some AcceptorEvent"
  shows "acceptor_home v"
  using assms(1) by (rule home_frame) (use assms in \<open>auto simp: core_at_def split: if_splits\<close>)

lemma home_operation:
  assumes inv: "server_inv R S H cd (w, b)" and c: "conns w i = Some c"
    and al: "alone S server_view c (view (conn_loop w i) w) (d, u)" and h: "acceptor_home w"
  shows "acceptor_home (put_conn i d (from_view (conn_loop w i) w u))"
proof -
  have p: "conn_place w i c" "current w < length (loops w)" using inv c by (simp_all add: server_inv_def)
  then have "acts_alone S server_view (conn_fd c) i (view (conn_loop w i) w) u"
    using al by (simp add: alone_def conn_place_def)
  from from_view_acts(1) [OF this] p h show ?thesis
    by (auto simp: conn_place_def intro: home_acts)
qed

lemma home_post:
  assumes "j < length (loops w)" "current w < length (loops w)" "acceptor_home w"
  shows "acceptor_home (on_loop j (RunInLoop S t) w)"
  using assms(3)
proof (rule home_frame)
  show "length (loops (on_loop j (RunInLoop S t) w)) = length (loops w)"
    using on_loop_post(1) [OF assms(1,2)] by (simp add: same_server_def)
qed (simp add: on_loop_post(3) [OF assms(1,2)])

text \<open>What \<open>newConnected\<close> comes to: the socket could not be set up, or there is a new connection and
  its registration has been queued.\<close>

lemma newConnected_cases:
  fixes w :: "('k, 'rb, 'bb, 'l) server"
  assumes n: "newConnected R S P fd sa w = Ret v"
  obtains (refused) es k where
      "v = w\<lparr>nextLoopIndex := (nextLoopIndex w + 1) mod n_subLoops w, next_conn := Suc (next_conn w),
        kern := k, trace := trace w @ es\<rparr>"
  | (created) es k j c pool V where "v = on_loop j (RunInLoop S (TaskConnected (next_conn w))) V" "j < length (loops w)"
      "V = w\<lparr>nextLoopIndex := (nextLoopIndex w + 1) mod n_subLoops w, next_conn := Suc (next_conn w),
        kern := k, trace := trace w @ es, connectPool := pool, conns := (conns w)(next_conn w \<mapsto> c),
        conn_loop := (conn_loop w)(next_conn w := j)\<rparr>"
proof -
  have idx: "0 \<le> nextLoopIndex w" "nextLoopIndex w < n_subLoops w"
    using n by (auto simp: newConnected_def getOneLoopFromPool_def n_subLoops_def bind_eq_Some_conv split: if_splits)
  define j where "j = Suc (nat (nextLoopIndex w))"
  have j: "j < length (loops w)" using idx by (simp add: j_def n_subLoops_def)
  obtain codec where codec: "GetCode (options w) = Some codec"
    using n idx by (auto simp: newConnected_def getOneLoopFromPool_def bind_eq_Some_conv)
  let ?u = "w\<lparr>nextLoopIndex := (nextLoopIndex w + 1) mod n_subLoops w, next_conn := Suc (next_conn w)\<rparr>"
  obtain q w2 where 2: "Connect_New R S (next_conn w) fd sa (opt_IdleTime (options w)) codec
      (fst (P (next_conn w))) (snd (P (next_conn w))) ?u = (q, w2)" by fastforce
  obtain q' k' es where "\<And>u :: ('k, 'rb, 'bb, 'l) server. kern u = kern ?u \<Longrightarrow> Connect_New R S (next_conn w) fd sa (opt_IdleTime (options w)) codec
      (fst (P (next_conn w))) (snd (P (next_conn w))) u = (q', u\<lparr>kern := k', trace := trace u @ es\<rparr>)"
    using Connect_New_world [of fd "next_conn w" "kern ?u" R S sa "opt_IdleTime (options w)" codec
        "fst (P (next_conn w))" "snd (P (next_conn w))"] by blast
  from this [of ?u] 2 have w2: "w2 = ?u\<lparr>kern := k', trace := trace w @ es\<rparr>" by simp
  show thesis
  proof (cases q)
    case (Inl e)
    with n idx codec 2 have "v = w2"
      by (simp add: newConnected_def getOneLoopFromPool_def n_subLoops_def Let_def)
    with w2 show thesis by (intro refused) simp
  next
    case (Inr c)
    define V where "V = (put_conn (next_conn w) (with_callbacks c) (addConnect (PeerAddr c) (next_conn w) w2))
      \<lparr>conn_loop := (conn_loop w2)(next_conn w := j)\<rparr>"
    have "v = on_loop j (RunInLoop S (TaskConnected (next_conn w))) V"
      using n idx codec 2 Inr
      by (simp add: newConnected_def getOneLoopFromPool_def V_def j_def callbacks_order addConnect_def
          n_subLoops_def Let_def)
    moreover have "V = w\<lparr>nextLoopIndex := (nextLoopIndex w + 1) mod n_subLoops w, next_conn := Suc (next_conn w),
        kern := k', trace := trace w @ es, connectPool := (connectPool w)(PeerAddr c \<mapsto> next_conn w),
        conns := (conns w)(next_conn w \<mapsto> with_callbacks c), conn_loop := (conn_loop w)(next_conn w := j)\<rparr>"
      by (simp add: V_def put_conn_def addConnect_def w2)
    ultimately show thesis using j by (intro created)
  qed
qed

lemma accept_cases:
  assumes "Accept_AcceptHandle S (newConnected R S P) a w = Ret v"
  obtains k where "v = w\<lparr>kern := k\<rparr>" | k fd sa where "newConnected R S P fd sa (w\<lparr>kern := k\<rparr>) = Ret v"
  using assms by (auto simp: Accept_AcceptHandle_def split: prod.splits sum.splits if_splits)

lemma home_accept:
  assumes inv: "server_inv R S H cd (w, b)" and h: "acceptor_home w"
    and s: "Accept_AcceptHandle S (newConnected R S P) (tcpAccept w) w = Ret v"
  shows "acceptor_home v"
  using s
proof (cases rule: accept_cases)
  case (1 k)
  then show ?thesis by (auto intro: home_current [OF h])
next
  case (2 k fd sa)
  then show ?thesis
  proof (cases rule: newConnected_cases)
    case (created es k' j c pool V)
    have "acceptor_home V" by (rule home_current [OF h]) (simp_all add: created(3))
    then show ?thesis
      using home_post [of j V] created inv by (simp add: server_inv_def)
  qed (auto intro: home_current [OF h])
qed

lemma Accept_close_task_world:
  assumes "Accept_close_task N S a w = (a', u)"
  shows "\<exists>fd k es. u = w\<lparr>eventPool := (eventPool w)(fd := None), kern := k, trace := trace w @ es\<rparr>"
proof -
  obtain e1 ev w1 where 1: "DisableAll S (acc_event a) w = (e1, ev, w1)" by (metis prod_cases3)
  obtain e2 w2 where 2: "UnRegister S ev w1 = (e2, w2)" by fastforce
  from 1 obtain k1 es1 where w1: "w1 = w\<lparr>kern := k1, trace := trace w @ es1\<rparr>"
    by (auto simp: DisableAll_def emit_def dest!: Event_update_world)
  from 2 obtain k2 es2 where w2: "w2 = w1\<lparr>eventPool := (eventPool w1)(eventFd ev := None), kern := k2,
      trace := trace w1 @ es2\<rparr>"
    by (auto simp: UnRegister_def EventCtrl_removeEvent_def Multiplex_RemoveEvent_def epollCtrl_def
        sys_epoll_ctl_def emit_def fun_upd_idem split: prod.splits if_splits)
  obtain k3 where "u = w2\<lparr>kern := k3\<rparr>"
    using assms 1 2 by (auto simp: Accept_close_task_def split: prod.splits)
  with w1 w2 have "u = w\<lparr>eventPool := (eventPool w)(eventFd ev := None), kern := k3,
      trace := trace w @ es1 @ es2\<rparr>" by simp
  then show ?thesis by blast
qed

text \<open>What functions and handlers leave of the loop that runs them: its queue only grows.\<close>

definition same_runner :: "('k, 'rb, 'bb, 'l) server \<Rightarrow> ('k, 'rb, 'bb, 'l) server \<Rightarrow> bool" where
  "same_runner w v \<longleftrightarrow> current v = current w \<and> multi v = multi w \<and> running v = running w \<and>
     (\<exists>ts. loopFunctions v = loopFunctions w @ ts)"

lemma same_runner_trans: "same_runner w v \<Longrightarrow> same_runner v u \<Longrightarrow> same_runner w u"
  by (auto simp: same_runner_def)

lemma runner_alone:
  assumes a: "acts_alone S server_view fd i w u" and cur: "current w < length (loops w)" and h: "acceptor_home w"
  shows "acceptor_home (put_conn i d u)" "same_runner w (put_conn i d u)"
proof -
  obtain ts where s: "srv_acts fd i (current w) ts w u" using acts_alone_srv [OF a refl cur] by blast
  from home_acts [OF s h] show "acceptor_home (put_conn i d u)" by simp
  have cu: "current u = current w" using s by (simp add: srv_acts_def same_rest_def)
  then have "core_of u = core_at (current w) u" by (simp add: core_at_def)
  then have "core_loopFunctions (core_of u) = core_loopFunctions (core_of w) @ ts"
    using s by (simp add: srv_acts_def core_at_current)
  then have "loopFunctions u = loopFunctions w @ ts" by (simp add: core_of_def)
  with cu acts_alone_multi [OF a] show "same_runner w (put_conn i d u)"
    by (simp add: same_runner_def put_conn_def)
qed

lemma home_task:
  assumes H: "handle_ok H" and inv: "server_inv R S H cd (w, b)" and h: "acceptor_home w"
    and s: "server_task N R S H t w = Ret v"
  shows "acceptor_home v" "same_runner w v"
proof -
  have cur: "current w < length (loops w)" using inv by (simp add: server_inv_def)
  have "acceptor_home v \<and> same_runner w v"
  proof (cases "task_conn t")
    case None
    obtain a u where au: "Accept_close_task N S (tcpAccept w) w = (a, u)" by fastforce
    obtain fd k es where u: "u = w\<lparr>eventPool := (eventPool w)(fd := None), kern := k, trace := trace w @ es\<rparr>"
      using Accept_close_task_world [OF au] by blast
    have v: "v = u\<lparr>tcpAccept := a\<rparr>" using s None au by (simp add: server_task_def)
    have "acceptor_home v" by (rule home_current [OF h]) (simp_all add: v u split: if_splits)
    then show ?thesis by (simp add: same_runner_def v u)
  next
    case (Some i)
    obtain c where c: "conns w i = Some c" using s Some by (auto simp: server_task_def bind_eq_Some_conv)
    obtain d u where du: "(if t = TaskConnected i then connected_task S H i c w
                     else run_task R S (server_app H) t c w) = (d, u)" by fastforce
    have v: "v = put_conn i d u" using s Some c du by (simp add: server_task_def)
    have p: "conn_place w i c" using inv c by (simp add: server_inv_def)
    have "acts_alone S server_view (conn_fd c) i w u"
    proof (cases "t = TaskConnected i")
      case True
      with du p show ?thesis
        by (intro connected_alone [OF H, where d = d]) (simp_all add: conn_place_def handlers_of_def)
    next
      case False
      with du p server_rest.run_task_alone [OF server_app_keeps [OF H], of S c w R t] show ?thesis
        by (simp add: alone_def conn_place_def)
    qed
    from runner_alone [OF this cur h] v show ?thesis by simp
  qed
  then show "acceptor_home v" "same_runner w v" by simp_all
qed

lemma home_event:
  assumes R: "bufs_ok R cont" and H: "handle_ok H" and inv: "server_inv R S H cd (w, b)" and h: "acceptor_home w"
    and c: "conns w i = Some c" and e: "HandleEvent (event c) revents = Some f"
    and s: "server_handler R S P H f w = Ret v"
  shows "acceptor_home v" "same_runner w v"
proof -
  have p: "conn_place w i c" "current w < length (loops w)" using inv c by (simp_all add: server_inv_def)
  then have "handler_conn f = Some i" using HandleEvent_conn e by (auto simp: conn_place_def)
  with s c obtain d u where du: "run_handler R S (server_app H) f c w = Ret (d, u)" "v = put_conn i d u"
    by (auto simp: server_handler_def bind_eq_Some_conv)
  have "acts_alone S server_view (conn_fd c) i w u"
    using server_rest.run_handler_alone [OF R server_app_keeps [OF H] du(1)] p(1)
    by (simp add: alone_def conn_place_def)
  from runner_alone [OF this p(2) h] du(2) show "acceptor_home v" "same_runner w v" by simp_all
qed

lemma runner_post:
  assumes "j < length (loops w)" "current w < length (loops w)"
  shows "same_runner w (on_loop j (RunInLoop S t) w)"
proof -
  let ?v = "on_loop j (RunInLoop S t) w"
  have "current ?v = current w" using on_loop_post(1) [OF assms] by (simp add: same_server_def)
  then have "core_of ?v = core_at (current w) ?v" by (simp add: core_at_def)
  then have "core_multi (core_of ?v) = core_multi (core_of w)" "core_running (core_of ?v) = core_running (core_of w)"
    "\<exists>ts. core_loopFunctions (core_of ?v) = core_loopFunctions (core_of w) @ ts"
    using on_loop_post(3) [OF assms assms(2)] by (simp_all add: core_at_current)
  with \<open>current ?v = current w\<close> show ?thesis by (simp add: same_runner_def core_of_def)
qed

lemma runner_accept:
  assumes cur: "current w < length (loops w)"
    and s: "Accept_AcceptHandle S (newConnected R S P) (tcpAccept w) w = Ret v"
  shows "same_runner w v"
  using s
proof (cases rule: accept_cases)
  case (2 k fd sa)
  then show ?thesis
  proof (cases rule: newConnected_cases)
    case (created es k' j c pool V)
    then show ?thesis using runner_post [of j V] cur by (simp add: same_runner_def)
  qed (simp add: same_runner_def)
qed (simp add: same_runner_def)

lemma home_created:
  assumes new: "Server_New N S cpus opts w0 = (Inr w, w1)"
  shows "acceptor_home w"
proof -
  obtain m q n ls v w4 where "loops w = m # ls" and ls: "new_subLoops S q n v = (Inr ls, w4)" and "current w = 0"
    using new by (auto simp: Server_New_def Let_def split: prod.splits sum.splits)
  moreover have "\<forall>k \<in> set ls. core_eventPool k = Map.empty" using new_subLoops_trace [OF ls] by blast
  ultimately show ?thesis by (auto simp: acceptor_home_def core_at_def nth_Cons split: nat.splits)
qed

lemma server_step_home:
  assumes R: "bufs_ok R cont" and H: "handle_ok H" and step: "server_step N R S P H s s'"
    and inv: "server_inv R S H cd s" and h: "acceptor_home (fst s)"
  shows "acceptor_home (fst s')"
  using step inv h
proof cases
  case (switch j w b)
  then show ?thesis using h by (auto simp: core_at_switch intro: home_frame)
next
  case (env w b k)
  then show ?thesis using h by (auto intro: home_current)
next
  case (start w tw v b)
  then have "eventPool v = eventPool w \<and> current v = current w \<and> loops v = loops w"
    by (auto simp: Server_Start_def Accept_Listen_def EnableReading_def Event_update_def
        EventCtrl_modifyEvent_def Multiplex_ModifyEvent_def epollCtrl_def sys_epoll_ctl_def emit_def Let_def
        split: prod.splits option.splits)
  then show ?thesis using start h by (auto intro: home_current)
next
  case (event w fd p e revents f v b)
  show ?thesis
  proof (cases p)
    case AcceptorEvent
    then have "f = AcceptHandle"
      using event inv by (auto simp: server_deref_def server_inv_def acceptor_ok_def HandleEvent_def split: if_splits)
    then have "Accept_AcceptHandle S (newConnected R S P) (tcpAccept w) w = Ret v"
      using event by (simp add: server_handler_def)
    then show ?thesis using home_accept event inv h by simp
  next
    case (ConnEvent i)
    then obtain c where "conns w i = Some c" "e = event c"
      using event by (auto simp: server_deref_def)
    then show ?thesis using home_event(1) [OF R H] event inv h by simp
  qed
next
  case (wake w b)
  have "eventPool (wakeHandlerRead S (multi w) w) = eventPool w \<and>
    current (wakeHandlerRead S (multi w) w) = current w \<and> loops (wakeHandlerRead S (multi w) w) = loops w"
    by (simp add: wakeHandlerRead_def sys_read_def emit_def split: prod.splits)
  then show ?thesis using wake h by (auto intro: home_current)
next
  case (grow w b n)
  then show ?thesis using h by (auto intro: home_current)
next
  case (swap b w)
  then show ?thesis using h by (auto intro: home_current)
next
  case (execute b w t ts v)
  then show ?thesis using home_task(1) [OF H] inv h by simp
next
  case (running w b r)
  then show ?thesis using h by (auto intro: home_current)
next
  case (call w i c b a)
  obtain d u where du: "run_api S [a] c (view (conn_loop w i) w) = (d, u)" by fastforce
  have "alone S server_view c (view (conn_loop w i) w) (d, u)"
    using server_rest.run_api_alone [of S c "view (conn_loop w i) w" "[a]"] by (simp only: du)
  from home_operation [OF _ _ this] call inv h
  show ?thesis by (simp add: on_loop_view call_api_def du from_view_put)
next
  case (timer w i c b)
  have "alone S server_view c (view (conn_loop w i) w) (c, closeTimeoutConn S c (view (conn_loop w i) w))"
    by (rule server_rest.timer_alone)
  from home_operation [OF _ _ this] timer inv h
  have "acceptor_home (put_conn i c (on_loop (conn_loop w i) (closeTimeoutConn S c) w))"
    by (simp add: on_loop_view)
  with timer show ?thesis by simp
next
  case (stop w b)
  then have "0 < length (loops w)" "current w < length (loops w)" using inv by (auto simp: server_inv_def)
  then show ?thesis using stop h home_post [of 0 w] by (simp add: Accept_Close_def [abs_def])
qed

lemma server_reachable_home:
  assumes R: "bufs_ok R cont" and H: "handle_ok H" and r: "server_reachable N R S P H opts s"
  shows "acceptor_home (fst s)"
  using r
proof induction
  case (created w0 cpus w w1)
  then show ?case using home_created by simp
next
  case (step s s')
  then show ?case using server_step_home [OF R H] server_reachable_inv [OF R H] by blast
qed

section \<open>A pass\<close>

text \<open>
  The condition on a round of the main loop: whenever the event of the acceptor is handled, in the
  state the events before it have left, the kernel returns an error or a descriptor not used before.
\<close>

fun accepts_fresh :: "'k sys \<Rightarrow> Multiplex \<Rightarrow>
    (int \<Rightarrow> EventType \<Rightarrow> ('k, 'rb, 'bb, 'l) server \<Rightarrow> ('k, 'rb, 'bb, 'l) server go) \<Rightarrow>
    (32 word \<times> int) list \<Rightarrow> ('k, 'rb, 'bb, 'l) server \<Rightarrow> bool" where
  "accepts_fresh S m h [] w = True"
| "accepts_fresh S m h ((ev, fd) # evs) w =
     (if fd = mx_wakeEventFd m then accepts_fresh S m h evs (wakeHandlerRead S m w)
      else (eventPool w fd = Some AcceptorEvent \<longrightarrow> accepts_unused S w) \<and>
        (case h fd (ioevent_of_epoll ev) w of None \<Rightarrow> True | Some u \<Rightarrow> accepts_fresh S m h evs u))"

abbreviation server_steps where
  "server_steps N R S P H \<equiv> (server_step N R S P H)\<^sup>*\<^sup>*"

lemma steps_reachable:
  "server_steps N R S P H s s' \<Longrightarrow> server_reachable N R S P H opts s \<Longrightarrow> server_reachable N R S P H opts s'"
  by (induction rule: rtranclp_induct) (blast intro: server_reachable.step)+

lemma loop_event:
  assumes R: "bufs_ok R cont" and H: "handle_ok H" and cd: "codec_wf (codec_of opts)"
    and r: "server_reachable N R S P H opts (w, b)"
    and new: "current w = 0 \<Longrightarrow> eventPool w fd = Some AcceptorEvent \<Longrightarrow> accepts_unused S w"
  shows "\<exists>v. handlerEventWrap server_deref (server_handler R S P H) fd revents w = Ret v \<and>
    server_steps N R S P H (w, b) (v, b) \<and> same_runner w v"
proof (cases "\<exists>p e f. fd \<noteq> - 1 \<and> eventPool w fd = Some p \<and> server_deref p w = Some e \<and> HandleEvent e revents = Some f")
  case False
  then have "handlerEventWrap server_deref (server_handler R S P H) fd revents w = Ret w"
    by (cases "Option.bind (eventPool w fd) (\<lambda>p. server_deref p w)")
       (auto simp: handlerEventWrap_def bind_eq_Some_conv split: option.splits)
  then show ?thesis by (simp add: same_runner_def)
next
  case True
  then obtain p e f where fd: "fd \<noteq> - 1" and p: "eventPool w fd = Some p" and e: "server_deref p w = Some e"
    and f: "HandleEvent e revents = Some f" by blast
  have inv: "server_inv R S H (codec_of opts) (w, b)" using server_reachable_inv [OF R H r] .
  have h: "acceptor_home w" using server_reachable_home [OF R H r] by simp
  have new: "p = AcceptorEvent \<longrightarrow> accepts_unused S w"
  proof
    assume a: "p = AcceptorEvent"
    then have "core_eventPool (core_at (current w) w) fd = Some AcceptorEvent" using p by (simp add: core_at_current)
    then have "current w = 0" using h inv by (auto simp: acceptor_home_def server_inv_def)
    with a p show "accepts_unused S w" by (intro new) simp_all
  qed
  obtain v where v: "server_handler R S P H f w = Ret v" "same_runner w v"
  proof (cases p)
    case AcceptorEvent
    then have "f = AcceptHandle"
      using e f inv by (auto simp: server_deref_def server_inv_def acceptor_ok_def HandleEvent_def split: if_splits)
    then have n: "handler_conn f = None" by simp
    then obtain v where v: "server_handler R S P H f w = Ret v"
      using server_handler_returns [OF R H cd r, of f] by blast
    then have "Accept_AcceptHandle S (newConnected R S P) (tcpAccept w) w = Ret v"
      using n by (simp add: server_handler_def)
    with inv v that show thesis using runner_accept [of w] by (simp add: server_inv_def)
  next
    case (ConnEvent i)
    then obtain c where c: "conns w i = Some c" "e = event c" using e by (auto simp: server_deref_def)
    then have "handlers_of i e" using inv by (simp add: server_inv_def conn_place_def)
    then have "handler_conn f = Some i" using HandleEvent_conn f by blast
    then obtain v where v: "server_handler R S P H f w = Ret v"
      using server_handler_returns [OF R H cd r, of f] c by auto
    with that home_event(2) [OF R H inv h c(1) f [unfolded c(2)] v] show thesis by simp
  qed
  have "server_step N R S P H (w, b) (v, b)"
    using p e f new v(1) by (rule server_step.event)
  then have "server_steps N R S P H (w, b) (v, b)" ..
  moreover have "handlerEventWrap server_deref (server_handler R S P H) fd revents w = Ret v"
    using fd p e f v(1) by (simp add: handlerEventWrap_def)
  ultimately show ?thesis using v(2) by blast
qed

lemma loop_events:
  assumes R: "bufs_ok R cont" and H: "handle_ok H" and cd: "codec_wf (codec_of opts)"
  shows "server_reachable N R S P H opts (w, b) \<Longrightarrow> multi w = m \<Longrightarrow>
    (current w = 0 \<Longrightarrow> accepts_fresh S m (handlerEventWrap server_deref (server_handler R S P H)) evs w) \<Longrightarrow>
    \<exists>v. wait_loop S m (handlerEventWrap server_deref (server_handler R S P H)) evs w = Ret v \<and>
      server_steps N R S P H (w, b) (v, b) \<and> same_runner w v"
proof (induction evs arbitrary: w)
  case Nil
  then show ?case by (simp add: same_runner_def)
next
  case (Cons x evs)
  obtain ev fd where x: "x = (ev, fd)" by (cases x)
  let ?h = "handlerEventWrap server_deref (server_handler R S P H)"
  obtain v where v: "wait_loop S m ?h (x # evs) w = wait_loop S m ?h evs v"
    "server_steps N R S P H (w, b) (v, b)" "same_runner w v" "current w = 0 \<Longrightarrow> accepts_fresh S m ?h evs v"
  proof (cases "fd = mx_wakeEventFd m")
    case True
    let ?v = "wakeHandlerRead S m w"
    have "server_step N R S P H (w, b) (?v, b)"
      using server_step.wake [of N R S P H w b] Cons.prems(2) by simp
    moreover have "same_runner w ?v"
      by (simp add: same_runner_def wakeHandlerRead_def sys_read_def emit_def split: prod.splits)
    moreover have "?h (- 1) 0 ?v = Ret ?v" by (simp add: handlerEventWrap_def)
    moreover have "current w = 0 \<Longrightarrow> accepts_fresh S m ?h evs ?v" using Cons.prems(3) True x by simp
    ultimately show thesis using True x by (intro that [of ?v]) auto
  next
    case False
    let ?mask = "ioevent_of_epoll ev"
    have "current w = 0 \<Longrightarrow> eventPool w fd = Some AcceptorEvent \<Longrightarrow> accepts_unused S w"
      using Cons.prems(3) False x by simp
    from loop_event [OF R H cd Cons.prems(1) this, of fd ?mask] obtain v where
      v: "?h fd ?mask w = Ret v" "server_steps N R S P H (w, b) (v, b)" "same_runner w v" by blast
    moreover have "current w = 0 \<Longrightarrow> accepts_fresh S m ?h evs v" using Cons.prems(3) False x v(1) by simp
    ultimately show thesis using False x by (intro that [of v]) auto
  qed
  have "multi v = m" "current v = 0 \<Longrightarrow> accepts_fresh S m ?h evs v"
    using v(3,4) Cons.prems(2) by (simp_all add: same_runner_def)
  from Cons.IH [OF steps_reachable [OF v(2) Cons.prems(1)] this] obtain v' where
    v': "wait_loop S m ?h evs v = Ret v'" "server_steps N R S P H (v, b) (v', b)" "same_runner v v'" by blast
  show ?case
  proof (intro exI conjI)
    show "wait_loop S m ?h (x # evs) w = Ret v'" using v(1) v'(1) by simp
    show "server_steps N R S P H (w, b) (v', b)" using v(2) v'(2) by (rule rtranclp_trans)
    show "same_runner w v'" using v(3) v'(3) by (rule same_runner_trans)
  qed
qed

text \<open>The registration of a connection tells the application.\<close>

lemma task_announces:
  assumes H: "handle_ok H" and s: "server_task N R S H (TaskConnected i) w = Ret v"
  shows "EffConnect i \<in> set (trace v)"
proof -
  obtain c where c: "conns w i = Some c" using s by (auto simp: server_task_def bind_eq_Some_conv)
  obtain err c1 w1 where 1: "ConnectedHandle S c w = (err, c1, w1)" by (metis prod_cases3)
  define w2 where "w2 = (if err \<noteq> None then removeConnect (PeerAddr c1) (snd (Connect_Close S c1 w1)) else w1)"
  obtain acts w4 where 4: "ConnectCallback H c1 (emit (EffConnect i) w2) = (acts, w4)" by fastforce
  obtain d u where du: "run_api S acts c1 w4 = (d, u)" by fastforce
  have "v = put_conn i d u"
    using s c 1 4 du by (simp add: server_task_def connected_task_def w2_def Let_def)
  moreover obtain k where "w4 = (emit (EffConnect i) w2)\<lparr>kern := k\<rparr>" using handle_okD(1) [OF H 4] by blast
  moreover have "\<exists>es. trace u = trace w4 @ es" using anything.run_api_addsD [OF du] by (auto simp: adds_def)
  ultimately show ?thesis by (auto simp: put_conn_def emit_def)
qed

lemma steps_trace:
  assumes "bufs_ok R cont" "handle_ok H"
  shows "server_steps N R S P H s s' \<Longrightarrow> \<exists>es. trace (fst s') = trace (fst s) @ es"
proof (induction rule: rtranclp_induct)
  case (step s' s'')
  with steps_extend [OF assms step(2)] show ?case by auto
qed simp

lemma loop_functions:
  assumes R: "bufs_ok R cont" and H: "handle_ok H" and cd: "codec_wf (codec_of opts)"
  shows "server_reachable N R S P H opts (w, b) \<Longrightarrow> b (current w) = ts \<Longrightarrow>
    \<exists>v. run_functions (server_task N R S H) ts w = Ret v \<and>
      server_steps N R S P H (w, b) (v, b(current w := [])) \<and> same_runner w v \<and>
      (\<forall>i. TaskConnected i \<in> set ts \<longrightarrow> EffConnect i \<in> set (trace v))"
proof (induction ts arbitrary: w b)
  case Nil
  then have "b(current w := []) = b" by (simp add: fun_upd_idem)
  with Nil.prems show ?case by (simp add: same_runner_def)
next
  case (Cons t ts)
  let ?b = "b(current w := ts)"
  have inv: "server_inv R S H (codec_of opts) (w, b)" using server_reachable_inv [OF R H Cons.prems(1)] .
  have h: "acceptor_home w" using server_reachable_home [OF R H Cons.prems(1)] by simp
  obtain u where u: "server_task N R S H t w = Ret u"
    using server_task_returns [OF inv, of t] Cons.prems(2) by auto
  have step: "server_step N R S P H (w, b) (u, ?b)"
    using Cons.prems(2) u by (rule server_step.execute)
  with Cons.prems(1) have r: "server_reachable N R S P H opts (u, ?b)" by (rule server_reachable.step)
  have same: "same_runner w u" using home_task(2) [OF H inv h u] .
  then have cu: "current u = current w" by (simp add: same_runner_def)
  have bb: "?b(current w := []) = b(current w := [])" by simp
  obtain v where v: "run_functions (server_task N R S H) ts u = Ret v"
    "server_steps N R S P H (u, ?b) (v, ?b(current w := []))" "same_runner u v"
    "\<forall>i. TaskConnected i \<in> set ts \<longrightarrow> EffConnect i \<in> set (trace v)"
    using Cons.IH [OF r] cu by fastforce
  show ?case
  proof (intro exI conjI)
    show "run_functions (server_task N R S H) (t # ts) w = Ret v" using u v(1) by simp
    show "server_steps N R S P H (w, b) (v, b(current w := []))"
      using step v(2) unfolding bb by (rule converse_rtranclp_into_rtranclp)
    show "same_runner w v" using same v(3) by (rule same_runner_trans)
    have "EffConnect i \<in> set (trace v)" if "t = TaskConnected i" for i
      using steps_trace [OF R H v(2)] task_announces [OF H, of N R S i w u] u that by auto
    with v(4) show "\<forall>i. TaskConnected i \<in> set (t # ts) \<longrightarrow> EffConnect i \<in> set (trace v)" by auto
  qed
qed

text \<open>The part of a pass after the handlers: the buffer for events may grow, the functions run.\<close>

lemma loop_rest:
  assumes R: "bufs_ok R cont" and H: "handle_ok H" and cd: "codec_wf (codec_of opts)"
    and r: "server_reachable N R S P H opts (u, b)" and b: "b (current u) = []"
  shows "\<exists>v. runAllFunctionInLoop (server_task N R S H) (u\<lparr>multi := (multi u)\<lparr>mx_waitEvents_len := n\<rparr>\<rparr>) = Ret v \<and>
    server_steps N R S P H (u, b) (v, b) \<and> current v = current u \<and> running v = running u \<and>
    (\<forall>i. TaskConnected i \<in> set (loopFunctions u) \<longrightarrow> EffConnect i \<in> set (trace v))"
proof -
  let ?u = "u\<lparr>multi := (multi u)\<lparr>mx_waitEvents_len := n\<rparr>\<rparr>"
  let ?b = "b(current u := loopFunctions u)"
  have s1: "server_step N R S P H (u, b) (?u, b)" by (rule server_step.grow)
  have s2: "server_step N R S P H (?u, b) (?u\<lparr>loopFunctions := []\<rparr>, ?b)"
    using server_step.swap [of b ?u N R S P H] b by simp
  have "server_reachable N R S P H opts (?u\<lparr>loopFunctions := []\<rparr>, ?b)"
    using server_reachable.step [OF server_reachable.step [OF r s1] s2] .
  from loop_functions [OF R H cd this, of "loopFunctions u"] obtain v where
    v: "run_functions (server_task N R S H) (loopFunctions u) (?u\<lparr>loopFunctions := []\<rparr>) = Ret v"
    "server_steps N R S P H (?u\<lparr>loopFunctions := []\<rparr>, ?b) (v, ?b(current u := []))"
    "same_runner (?u\<lparr>loopFunctions := []\<rparr>) v"
    "\<forall>i. TaskConnected i \<in> set (loopFunctions u) \<longrightarrow> EffConnect i \<in> set (trace v)"
    by auto
  have "?b(current u := []) = b" using b by (simp add: fun_upd_idem)
  with v(2) have "server_steps N R S P H (?u\<lparr>loopFunctions := []\<rparr>, ?b) (v, b)" by simp
  with s2 have "server_steps N R S P H (?u, b) (v, b)" by (rule converse_rtranclp_into_rtranclp)
  with s1 have "server_steps N R S P H (u, b) (v, b)" by (rule converse_rtranclp_into_rtranclp)
  with v(1,3,4) show ?thesis by (intro exI [of _ v]) (simp add: runAllFunctionInLoop_def same_runner_def)
qed

text \<open>The waiting, once the handlers are known to return.\<close>

lemma wait_events:
  fixes w :: "('k, 'z) loop_scheme"
  assumes "k_epoll_wait S (mx_fd (multi w)) (mx_waitEvents_len (multi w)) PollTimeMs (kern w) = (Inr evs, k)"
    and "wait_loop S (multi w) (handlerEventWrap deref run) evs (w\<lparr>kern := k\<rparr>) = Ret u" and "multi u = multi w"
  shows "\<exists>n. waitAndRunHandle S deref run PollTimeMs w = Ret (u\<lparr>multi := (multi u)\<lparr>mx_waitEvents_len := n\<rparr>\<rparr>)"
proof
  let ?n = "if length evs = mx_waitEvents_len (multi w) then length evs * 2 else mx_waitEvents_len (multi w)"
  show "waitAndRunHandle S deref run PollTimeMs w = Ret (u\<lparr>multi := (multi u)\<lparr>mx_waitEvents_len := ?n\<rparr>\<rparr>)"
    using assms by (simp add: waitAndRunHandle_def WaitEvent_def)
qed

lemma wait_error:
  fixes w :: "('k, 'z) loop_scheme"
  assumes "k_epoll_wait S (mx_fd (multi w)) (mx_waitEvents_len (multi w)) PollTimeMs (kern w) = (Inl e, k)"
  shows "waitAndRunHandle S deref run PollTimeMs w =
    Ret (w\<lparr>kern := k, multi := (multi w)\<lparr>mx_waitEvents_len := mx_waitEvents_len (multi w)\<rparr>\<rparr>)"
  using assms by (simp add: waitAndRunHandle_def WaitEvent_def)

lemma loop_wait:
  fixes w :: "('k, 'rb, 'bb, 'l) server"
  assumes R: "bufs_ok R cont" and H: "handle_ok H" and cd: "codec_wf (codec_of opts)"
    and r: "server_reachable N R S P H opts (w, b)"
    and new: "\<And>evs k. current w = 0 \<Longrightarrow>
      k_epoll_wait S (mx_fd (multi w)) (mx_waitEvents_len (multi w)) PollTimeMs (kern w) = (Inr evs, k) \<Longrightarrow>
      accepts_fresh S (multi w) (handlerEventWrap server_deref (server_handler R S P H)) evs (w\<lparr>kern := k\<rparr>)"
  shows "\<exists>u n. waitAndRunHandle S server_deref (server_handler R S P H) PollTimeMs w =
      Ret (u\<lparr>multi := (multi u)\<lparr>mx_waitEvents_len := n\<rparr>\<rparr>) \<and>
    server_steps N R S P H (w, b) (u, b) \<and> same_runner w u"
proof -
  obtain q k where q: "k_epoll_wait S (mx_fd (multi w)) (mx_waitEvents_len (multi w)) PollTimeMs (kern w) = (q, k)"
    by fastforce
  have env: "server_steps N R S P H (w, b) (w\<lparr>kern := k\<rparr>, b)" using server_step.env ..
  have same: "same_runner w (w\<lparr>kern := k\<rparr>)" by (simp add: same_runner_def)
  show ?thesis
  proof (cases q)
    case (Inl e)
    let ?u = "w\<lparr>kern := k\<rparr>"
    have "waitAndRunHandle S server_deref (server_handler R S P H) PollTimeMs w =
        Ret (?u\<lparr>multi := (multi ?u)\<lparr>mx_waitEvents_len := mx_waitEvents_len (multi w)\<rparr>\<rparr>)"
      using wait_error [OF q [unfolded Inl], of server_deref "server_handler R S P H"] by simp
    with env same show ?thesis by blast
  next
    case (Inr evs)
    have "current (w\<lparr>kern := k\<rparr>) = 0 \<Longrightarrow> accepts_fresh S (multi w)
        (handlerEventWrap server_deref (server_handler R S P H)) evs (w\<lparr>kern := k\<rparr>)"
      using new q Inr by simp
    from loop_events [OF R H cd steps_reachable [OF env r] _ this] obtain u where
      u: "wait_loop S (multi w) (handlerEventWrap server_deref (server_handler R S P H)) evs (w\<lparr>kern := k\<rparr>) = Ret u"
      "server_steps N R S P H (w\<lparr>kern := k\<rparr>, b) (u, b)" "same_runner (w\<lparr>kern := k\<rparr>) u" by auto
    have "same_runner w u" using same u(3) by (rule same_runner_trans)
    moreover from this have "multi u = multi w" by (simp add: same_runner_def)
    moreover have "server_steps N R S P H (w, b) (u, b)" using env u(2) by (rule rtranclp_trans)
    ultimately show ?thesis using wait_events [OF q [unfolded Inr] u(1)] by blast
  qed
qed

lemma pass_of_wait:
  assumes R: "bufs_ok R cont" and H: "handle_ok H" and cd: "codec_wf (codec_of opts)"
    and r: "server_reachable N R S P H opts (w, b)" and b: "b (current w) = []"
    and wait: "waitAndRunHandle S server_deref (server_handler R S P H) PollTimeMs w =
      Ret (u\<lparr>multi := (multi u)\<lparr>mx_waitEvents_len := n\<rparr>\<rparr>)"
    and u: "server_steps N R S P H (w, b) (u, b)" "same_runner w u"
  shows "\<exists>v. server_pass N R S P H w = Ret (Bool_Get (running w), v) \<and>
    server_steps N R S P H (u, b) (v, b) \<and> current v = current w \<and>
    (\<forall>i. TaskConnected i \<in> set (loopFunctions w) \<longrightarrow> EffConnect i \<in> set (trace v))"
proof -
  have cu: "current u = current w" "running u = running w" using u(2) by (simp_all add: same_runner_def)
  from loop_rest [OF R H cd steps_reachable [OF u(1) r], of n] b cu obtain v where
    "runAllFunctionInLoop (server_task N R S H) (u\<lparr>multi := (multi u)\<lparr>mx_waitEvents_len := n\<rparr>\<rparr>) = Ret v"
    "server_steps N R S P H (u, b) (v, b)" "current v = current u" "running v = running u"
    "\<forall>i. TaskConnected i \<in> set (loopFunctions u) \<longrightarrow> EffConnect i \<in> set (trace v)" by auto
  moreover have "set (loopFunctions w) \<subseteq> set (loopFunctions u)" using u(2) by (auto simp: same_runner_def)
  ultimately show ?thesis using wait cu by (intro exI [of _ v]) (auto simp: server_pass_def Run_pass_def)
qed



end
