(* ===== verification/ServerDelivery.thy ===== *)
theory ServerDelivery
  imports ServerPass
begin

text \<open>
  What a pass of a sub loop does for a connection that the kernel reports: what is readable reaches
  the application, and what is left to send is sent, within the same pass.
\<close>

lemma steps_append:
  assumes "bufs_ok R cont" "handle_ok H" "server_steps N R S P H (w, b) (v, b')"
  shows "\<exists>rest. received fd (trace v) = received fd (trace w) @ rest"
    "\<exists>fs. delivered i (trace v) = delivered i (trace w) @ fs"
    "\<exists>out. sent fd (trace v) = sent fd (trace w) @ out"
    "\<exists>out. submitted i (trace v) = submitted i (trace w) @ out"
  using steps_trace [OF assms] by auto

text \<open>The first event of a pass is handled in the state in which the wait ended.\<close>

lemma pass_first_event:
  assumes R: "bufs_ok R cont" and S: "sys_ok S" and H: "handle_ok H" and cd: "codec_wf (codec_of opts)"
    and r: "server_reachable N R S P H opts (w, b)" and cur: "current w \<noteq> 0" and b: "b (current w) = []"
    and c: "conns w i = Some c" "state c \<noteq> Disconnected" "conn_loop w i = current w" "conn_fd c \<noteq> - 1"
    and wait: "k_epoll_wait S (mx_fd (multi w)) (mx_waitEvents_len (multi w)) PollTimeMs (kern w) =
      (Inr ((ev, conn_fd c) # evs), k)"
    and he: "HandleEvent (event c) (ioevent_of_epoll ev) = Some f"
    and h: "server_handler R S P H f (w\<lparr>kern := k\<rparr>) = Ret u"
  shows "\<exists>v. server_pass N R S P H w = Ret (Bool_Get (running w), v) \<and> server_steps N R S P H (u, b) (v, b)"
proof -
  let ?w = "w\<lparr>kern := k\<rparr>" and ?fd = "conn_fd c"
  let ?h = "handlerEventWrap server_deref (server_handler R S P H)"
  have place: "conn_place w i c" using server_connection(1) [OF R H r c(1,2)] .
  have "sound cont c w" using server_sound [OF R S H r c(1,2)] c(3) by (metis view_current)
  then have l: "mx_wakeEventFd (multi w) \<noteq> ?fd" "eventPool w ?fd = Some (ConnEvent i)"
    using c(2) place by (simp_all add: sound_def linked_def conn_place_def)
  have env: "server_steps N R S P H (w, b) (?w, b)" using server_step.env ..
  have "server_step N R S P H (?w, b) (u, b)"
  proof (rule server_step.event [OF _ _ he _ h])
    show "eventPool ?w ?fd = Some (ConnEvent i)" using l(2) by simp
    show "server_deref (ConnEvent i) ?w = Some (event c)" using c(1) by (simp add: server_deref_def)
  qed simp
  with env have s1: "server_steps N R S P H (w, b) (u, b)" by (rule rtranclp.rtrancl_into_rtrancl)
  note re = steps_reachable [OF env r]
  have "same_runner ?w u"
    using home_event(2) [OF R H server_reachable_inv [OF R H re] _ _ he h] server_reachable_home [OF R H re] c(1)
    by simp
  then have same1: "same_runner w u" by (simp add: same_runner_def)
  then have "multi u = multi w" "current u \<noteq> 0" using cur by (simp_all add: same_runner_def)
  from loop_events [OF R H cd steps_reachable [OF s1 r] this(1), of evs] this(2) obtain x where
    x: "wait_loop S (multi w) ?h evs u = Ret x" "server_steps N R S P H (u, b) (x, b)" "same_runner u x" by blast
  have "?h ?fd (ioevent_of_epoll ev) ?w = Ret u"
    using c(1,4) l(2) he h by (simp add: handlerEventWrap_def server_deref_def)
  then have loop: "wait_loop S (multi w) ?h ((ev, ?fd) # evs) ?w = Ret x" using l(1) x(1) by simp
  have same2: "same_runner w x" using same1 x(3) by (rule same_runner_trans)
  then have "multi x = multi w" by (simp add: same_runner_def)
  from wait_events [OF wait loop this] obtain n where
    "waitAndRunHandle S server_deref (server_handler R S P H) PollTimeMs w =
      Ret (x\<lparr>multi := (multi x)\<lparr>mx_waitEvents_len := n\<rparr>\<rparr>)" ..
  from pass_of_wait [OF R H cd r b this rtranclp_trans [OF s1 x(2)] same2] x(2)
  show ?thesis by (meson rtranclp_trans)
qed

text \<open>C12: what is readable is delivered in the same pass: when \<open>epoll_wait\<close> reports an open connection
  of the running sub loop as readable and nothing else, first of its events, nothing is left to send
  on it and the codec cannot panic, then
  by the end of the pass the bytes the kernel has for it have been read and the handler has been
  given all frames they complete.\<close>

theorem sub_loop_delivers:
  assumes "bufs_ok R cont" and "sys_ok S" and "handle_ok H" and "codec_wf (codec_of opts)"
    and "server_reachable N R S P H opts (w, b)" and "current w \<noteq> 0" and "b (current w) = []"
    and "conns w i = Some c" and "state c \<noteq> Disconnected" and "conn_loop w i = current w"
    and "conn_fd c \<noteq> - 1" and "cont (outBuffer c) = []" and "ioevent_of_epoll ev = EventRead"
    and "k_epoll_wait S (mx_fd (multi w)) (mx_waitEvents_len (multi w)) PollTimeMs (kern w) =
      (Inr ((ev, conn_fd c) # evs), k)"
    and "k_read S (conn_fd c) 65535 k = (Inr bs, k')" and "bs \<noteq> []"
  shows "\<exists>v. server_pass N R S P H w = Ret (Bool_Get (running w), v) \<and>
    (\<exists>rest. received (conn_fd c) (trace v) = received (conn_fd c) (trace w) @ bs @ rest) \<and>
    (\<exists>fs. delivered i (trace v) = delivered i (trace w) @
       fst (frames (frame_of (codec_of opts)) (cont (inBuffer c) @ bs)) @ fs)"
proof -
  let ?w = "w\<lparr>kern := k\<rparr>" and ?fd = "conn_fd c" and ?cd = "codec_of opts"
  let ?fs = "fst (frames (frame_of ?cd) (cont (inBuffer c) @ bs))"
  have inv: "server_inv R S H ?cd (w, b)" using server_reachable_inv [OF assms(1,3,5)] .
  then have c: "self c = i" "messageCallback c" "codeImp c = ?cd" "handlers_of i (event c)"
    using server_connection(1) [OF assms(1,3,5,8,9)] by (simp_all add: conn_place_def server_inv_def)
  have rd: "sys_read S ?fd 65535 ?w = (Inr bs, emit (EffRead ?fd (Inr bs)) (w\<lparr>kern := k'\<rparr>))"
    using assms(15) by (simp add: sys_read_def)
  have "codec_safe (codeImp c)" using codec_wf_safe [OF assms(4)] c(3) by simp
  from readEvent_data [OF assms(1) server_app_ok [OF assms(3)] this c(2) assms(12) rd assms(16)]
  obtain d u where re: "readEvent R S (server_app H) c ?w = Ret (d, u)"
    and ha: "hands ?fs c (emit (EffRead ?fd (Inr bs)) (w\<lparr>kern := k'\<rparr>)) d u" using c(3) by auto
  have he: "HandleEvent (event c) (ioevent_of_epoll ev) = Some (ReadHandler i)"
    using c(4) assms(13) by (simp add: handlers_of_def HandleEvent_def mask_defs)
  have "server_handler R S P H (ReadHandler i) ?w = Ret (put_conn i d u)"
    using assms(8) re by (simp add: server_handler_def)
  from pass_first_event [OF assms(1-11,14) he this] obtain v where
    v: "server_pass N R S P H w = Ret (Bool_Get (running w), v)"
    "server_steps N R S P H (put_conn i d u, b) (v, b)" by blast
  have "received ?fd (trace (put_conn i d u)) = received ?fd (trace w) @ bs"
    "delivered i (trace (put_conn i d u)) = delivered i (trace w) @ ?fs"
    using ha c(1) by (simp_all add: hands_def put_conn_def)
  with steps_append(1,2) [OF assms(1,3) v(2)] v(1) show ?thesis by (metis append.assoc)
qed

theorem sub_loop_delivers_witness:
  "\<exists>v fs. server_pass net_lib list_bufs net_sys no_buffers echo_handle ready_server = Ret (False, v) \<and>
     delivered 0 (trace v) = [104] # fs"
proof -
  have r: "demo_reachable (ready_server, \<lambda>_. [])"
    using open_reachable read_steps(1) by (rule server_reachable.step)
  have f: "current ready_server = 1" "conns ready_server 0 = Some open_conn" "conn_loop ready_server 0 = 1"
    "state open_conn = Connected" "conn_fd open_conn = 8" "outBuffer open_conn = []" "inBuffer open_conn = []"
    "running ready_server = 0" "delivered 0 (trace ready_server) = []"
    by (simp_all add: ready_server_def open_server_def accepted_server_def created_server_def open_conn_def new_conn_def)
  have ev: "ioevent_of_epoll EPOLLIN = EventRead" by (simp add: ioevent_of_epoll_def mask_defs)
  have wait: "k_epoll_wait net_sys (mx_fd (multi ready_server)) (mx_waitEvents_len (multi ready_server))
      PollTimeMs (kern ready_server) = (Inr [(EPOLLIN, conn_fd open_conn)], kern ready_server)"
    by (simp add: net_sys_def f) (simp add: ready_server_def open_server_def sub_core_def)
  have rd: "k_read net_sys (conn_fd open_conn) 65535 (kern ready_server) =
      (Inr [104, 10, 105], \<lparr>s_reads = [], s_writes = [Inr 1], s_now = 9\<rparr>)"
    by (simp add: net_sys_def script_sys_def ready_server_def)
  have "frame_of LineBasedFrameCodec [104, 10, 105] = Some ([104], 2)" "frame_of LineBasedFrameCodec [105] = None"
    by (simp_all add: frame_of_def delim_next_def CRLFByte_def Let_def)
  then have "fst (frames (frame_of LineBasedFrameCodec) [104, 10, 105]) = [[104]]" by (simp add: codec.frames_eqs)
  with sub_loop_delivers [OF list_bufs_ok net_sys_ok echo_handle_ok _ r _ _ f(2) _ _ _ _ ev wait rd]
  show ?thesis by (force simp: demo_codec f Bool_Get_def)
qed

text \<open>C13: what is left to send is sent in the same pass: when \<open>epoll_wait\<close> reports an open connection of
  the running sub loop as writable, first of its events, and the kernel takes what it is offered, then
  by the end of the pass all bytes handed to the connection before it have been sent.\<close>

theorem sub_loop_drains:
  assumes "bufs_ok R cont" and "sys_ok S" and "handle_ok H" and "codec_wf (codec_of opts)"
    and "server_reachable N R S P H opts (w, b)" and "current w \<noteq> 0" and "b (current w) = []"
    and "conns w i = Some c" and "state c \<noteq> Disconnected" and "conn_loop w i = current w"
    and "conn_fd c \<noteq> - 1" and "ioevent_of_epoll ev = EventWrite"
    and "k_epoll_wait S (mx_fd (multi w)) (mx_waitEvents_len (multi w)) PollTimeMs (kern w) =
      (Inr ((ev, conn_fd c) # evs), k)"
    and "takes_all S (conn_fd c) k"
  shows "\<exists>v. server_pass N R S P H w = Ret (Bool_Get (running w), v) \<and>
    (\<exists>rest. sent (conn_fd c) (trace v) = submitted i (trace w) @ rest)"
proof -
  let ?w = "w\<lparr>kern := k\<rparr>" and ?fd = "conn_fd c"
  have place: "conn_place w i c" using server_connection(1) [OF assms(1,3,5,8,9)] .
  then have c: "self c = i" "handlers_of i (event c)" by (simp_all add: conn_place_def)
  have env: "server_steps N R S P H (w, b) (?w, b)" using server_step.env ..
  have "conns ?w i = Some c" "conn_loop ?w i = current ?w" using assms(8,10) by simp_all
  with server_sound [OF assms(1-3) steps_reachable [OF env assms(5)], of i c] assms(9)
  have snd: "sound cont c ?w" by (metis view_current)
  obtain d u where du: "writeEvent R S (server_app H) c ?w = (d, u)" by fastforce
  note A = server_app_ok [OF assms(3)]
  have "takes_all S (conn_fd c) (kern ?w)" using assms(14) by simp
  from writeEvent_drains [OF assms(1,2) A this snd assms(9) du] writeEvent_sound [OF assms(1,2) A snd du]
  have "submitted (self d) (trace u) = sent (conn_fd d) (trace u)" by (simp add: sound_def fifo_def)
  moreover have "self d = i" "conn_fd d = ?fd"
    using writeEvent_calm [OF A, of c ?w R S] du c(1) by (simp_all add: calm_def same_input_def)
  moreover have "\<exists>out. submitted i (trace u) = submitted i (trace w) @ out"
    using anything.writeEvent_adds [OF A, of ?w R S c] du by (auto simp: adds_def)
  ultimately have sent: "\<exists>out. sent ?fd (trace (put_conn i d u)) = submitted i (trace w) @ out"
    by (simp add: put_conn_def)
  have he: "HandleEvent (event c) (ioevent_of_epoll ev) = Some (WriteHandler i)"
    using c(2) assms(12) by (simp add: handlers_of_def HandleEvent_def mask_defs)
  have "server_handler R S P H (WriteHandler i) ?w = Ret (put_conn i d u)"
    using assms(8) du by (simp add: server_handler_def)
  from pass_first_event [OF assms(1-11,13) he this] obtain v where
    v: "server_pass N R S P H w = Ret (Bool_Get (running w), v)"
    "server_steps N R S P H (put_conn i d u, b) (v, b)" by blast
  from steps_append(3) [OF assms(1,3) v(2)] sent v(1) show ?thesis by (metis append.assoc)
qed

theorem sub_loop_drains_witness:
  "\<exists>v rest. server_pass net_lib list_bufs net_sys no_buffers echo_handle read_server = Ret (False, v) \<and>
     sent 8 (trace v) = [104, 10] @ rest"
proof -
  have f: "current read_server = 1" "running read_server = 0" "submitted 0 (trace read_server) = [104, 10]"
    by (simp_all add: read_server_def open_server_def accepted_server_def created_server_def)
  have ev: "ioevent_of_epoll EPOLLOUT = EventWrite" by (simp add: ioevent_of_epoll_def mask_defs)
  have kern: "kern read_server = \<lparr>s_reads = [], s_writes = [], s_now = 9\<rparr>"
    by (simp add: read_server_def open_server_def accepted_server_def)
  have wait: "k_epoll_wait net_sys (mx_fd (multi read_server)) (mx_waitEvents_len (multi read_server))
      PollTimeMs (kern read_server) = (Inr [(EPOLLOUT, conn_fd read_conn)], kern read_server)"
    by (simp add: net_sys_def read_server_fields kern) (simp add: read_server_def open_server_def sub_core_def)
  have all: "takes_all net_sys (conn_fd read_conn) (kern read_server)"
    by (simp add: takes_all_def net_sys_def script_sys_def kern)
  from sub_loop_drains [OF list_bufs_ok net_sys_ok echo_handle_ok _ read_reachable _ _ read_server_fields(1)
      _ _ _ ev wait all]
  show ?thesis by (simp add: demo_codec f read_server_fields Bool_Get_def)
qed

end
