(* ===== verification/ServerOrder.thy ===== *)
theory ServerOrder
  imports ServerPass
begin

text \<open>
  The order in which the handler of a server is called for one connection: it is told of the
  connection once, by \<open>ConnectCallback\<close>, and before every other callback for it.
\<close>

section \<open>The callbacks for a connection\<close>

fun tells :: "nat \<Rightarrow> effect \<Rightarrow> bool" where
  "tells i (EffConnect j) = (j = i)"
| "tells i (EffMessage j _) = (j = i)"
| "tells i (EffWriteComplete j) = (j = i)"
| "tells i (EffConnectClose j) = (j = i)"
| "tells i _ = False"

definition callbacks :: "nat \<Rightarrow> effect list \<Rightarrow> effect list" where
  "callbacks i es = filter (tells i) es"

definition announced :: "nat \<Rightarrow> effect list \<Rightarrow> bool" where
  "announced i es \<longleftrightarrow> (\<exists>rest. callbacks i es = EffConnect i # rest \<and> EffConnect i \<notin> set rest)"

lemma callbacks_append [simp]: "callbacks i (es @ fs) = callbacks i es @ callbacks i fs"
  by (simp add: callbacks_def)

lemma callbacks_one [simp]: "callbacks i [e] = (if tells i e then [e] else [])"
  by (simp add: callbacks_def)

text \<open>Calls of the kernel tell nobody anything, operations of a connection announce nothing.\<close>

definition untold :: "effect \<Rightarrow> bool" where
  "untold e \<longleftrightarrow> (\<forall>i. \<not> tells i e)"

interpretation untold: calls untold
  by unfold_locales (simp_all add: untold_def)

lemma untold_callbacks: "adds untold w v \<Longrightarrow> callbacks i (trace v) = callbacks i (trace w)"
  by (auto simp: adds_def callbacks_def untold_def list_all_iff)

definition no_announcement :: "effect \<Rightarrow> bool" where
  "no_announcement e \<longleftrightarrow> (\<forall>i. e \<noteq> EffConnect i)"

interpretation unannounced: conn_effects no_announcement
  by unfold_locales (simp_all add: no_announcement_def)

lemma stays_announced:
  assumes "adds no_announcement w v" and "announced i (trace w)"
  shows "announced i (trace v)"
proof -
  obtain es where es: "trace v = trace w @ es" "list_all no_announcement es"
    using assms(1) by (auto simp: adds_def)
  have "EffConnect i \<notin> set (callbacks i es)"
    using es(2) by (auto simp: callbacks_def list_all_iff no_announcement_def)
  with es(1) assms(2) show ?thesis by (auto simp: announced_def)
qed

lemma acts_alone_callbacks:
  "acts_alone S V fd i w v \<Longrightarrow> k \<noteq> i \<Longrightarrow> callbacks k (trace v) = callbacks k (trace w)"
proof (induction rule: acts_alone.induct)
  case (effect v e)
  then have "\<not> tells k e" by (cases e) auto
  with effect show ?case by simp
next
  case (post v t)
  then show ?case using RunInLoop_world [of S t v] by (auto simp: callbacks_def)
qed simp_all

section \<open>The invariant\<close>

definition waiting :: "('k, 'rb, 'bb, 'l) config \<Rightarrow> nat \<Rightarrow> bool" where
  "waiting s i \<longleftrightarrow> conns (fst s) i = None \<or> TaskConnected i \<in> set (tasks_at (conn_loop (fst s) i) s)"

definition in_order :: "('k, 'rb, 'bb, 'l) config \<Rightarrow> bool" where
  "in_order s \<longleftrightarrow> (\<forall>i. if waiting s i then callbacks i (trace (fst s)) = [] else announced i (trace (fst s)))"

lemma order_frame:
  assumes "in_order s" and "\<And>i. waiting s' i = waiting s i"
    and "\<And>i. callbacks i (trace (fst s')) = callbacks i (trace (fst s))"
  shows "in_order s'"
  using assms unfolding in_order_def announced_def by metis

text \<open>An operation of connection \<open>i\<close> that is not its registration.\<close>

lemma operation_waiting:
  assumes inv: "server_inv R S H cd (w, b)" and c: "conns w i = Some c" and j: "j = conn_loop w i"
    and acts: "srv_acts fd i j ts w W" "list_all (method_task i) ts"
    and batch: "b j = pre @ b' j" "\<And>k. k \<noteq> j \<Longrightarrow> b' k = b k" "TaskConnected k \<notin> set pre"
  shows "waiting (put_conn i d W, b') k = waiting (w, b) k"
proof -
  have same: "conns W = conns w" "conn_loop W = conn_loop w" using acts by (simp_all add: srv_acts_def same_rest_def)
  have no: "TaskConnected k \<notin> set ts" "TaskConnected k \<notin> set pre"
    using acts(2) batch(3) by (auto simp: list_all_iff)
  show ?thesis
  proof (cases "conns w k")
    case None
    with c same show ?thesis by (auto simp: waiting_def put_conn_def)
  next
    case (Some c')
    then have l: "conn_loop w k < length (loops w)" using inv by (simp add: server_inv_def conn_place_def)
    have "core_at n (put_conn i d W) = core_at n W" for n by (simp add: put_conn_def)
    then have "set (tasks_at (conn_loop w k) (put_conn i d W, b')) \<union> set pre =
        set (tasks_at (conn_loop w k) (w, b)) \<union> set ts \<union> set pre \<or>
      tasks_at (conn_loop w k) (put_conn i d W, b') = tasks_at (conn_loop w k) (w, b)"
      using acts l batch by (cases "conn_loop w k = j") (auto simp: tasks_at_def srv_acts_def)
    with no Some c same show ?thesis by (auto simp: waiting_def put_conn_def)
  qed
qed

lemma operation_order:
  assumes inv: "server_inv R S H cd (w, b)" and c: "conns w i = Some c" and j: "j = conn_loop w i"
    and a: "acts_alone S server_view (conn_fd c) i (view j w) u"
    and batch: "b j = pre @ b' j" "\<And>k. k \<noteq> j \<Longrightarrow> b' k = b k" "list_all (method_task i) pre"
    and own: "if waiting (w, b) i then callbacks i (trace u) = callbacks i (trace w) else adds no_announcement w u"
    and o: "in_order (w, b)"
  shows "in_order (put_conn i d (from_view j w u), b')"
proof -
  have jl: "j < length (loops w)" "current w < length (loops w)"
    using inv c by (simp_all add: server_inv_def conn_place_def j)
  note W = from_view_acts [OF a jl]
  obtain ts where ts: "list_all (method_task i) ts" "srv_acts (conn_fd c) i j ts w (from_view j w u)"
    using W(1) by blast
  have wait: "waiting (put_conn i d (from_view j w u), b') k = waiting (w, b) k" for k
    by (rule operation_waiting [OF inv c j ts(2,1) batch(1,2)]) (use batch(3) in \<open>auto simp: list_all_iff\<close>)
  have tr: "trace (put_conn i d (from_view j w u)) = trace u" by (simp add: put_conn_def W(3))
  have "if waiting (w, b) k then callbacks k (trace u) = [] else announced k (trace u)" for k
  proof (cases "k = i")
    case True
    with own o show ?thesis by (auto simp: in_order_def intro: stays_announced split: if_splits)
  next
    case False
    have "callbacks k (trace u) = callbacks k (trace w)" using acts_alone_callbacks [OF a False] by simp
    moreover have "if waiting (w, b) k then callbacks k (trace w) = [] else announced k (trace w)"
      using o unfolding in_order_def fst_conv by blast
    ultimately show ?thesis by (auto simp: announced_def split: if_splits)
  qed
  then show ?thesis unfolding in_order_def fst_conv wait tr ..
qed

section \<open>Every step keeps it\<close>

lemma in_orderD:
  "in_order (w, b) \<Longrightarrow> if waiting (w, b) k then callbacks k (trace w) = [] else announced k (trace w)"
  unfolding in_order_def fst_conv by (rule spec)

text \<open>Changes of the loop in view and of what no loop owns.\<close>

lemma loop_order:
  assumes o: "in_order (w, b)" and u: "adds untold w v"
    and same: "conns v = conns w" "conn_loop v = conn_loop w" "length (loops v) = length (loops w)"
    and inv: "server_inv R S H cd (w, b)"
    and tasks: "\<And>k. k < length (loops w) \<Longrightarrow> conn_tasks (tasks_at k (v, b')) = conn_tasks (tasks_at k (w, b))"
  shows "in_order (v, b')"
  using o
proof (rule order_frame)
  fix i
  show "waiting (v, b') i = waiting (w, b) i"
  proof (cases "conns w i")
    case (Some c)
    then have "conn_loop w i < length (loops w)" using inv by (simp add: server_inv_def conn_place_def)
    from conn_tasks_same(3) [OF tasks [OF this], of "TaskConnected i"] Some same
    show ?thesis by (simp add: waiting_def)
  qed (simp add: waiting_def same)
  show "callbacks i (trace (fst (v, b'))) = callbacks i (trace (fst (w, b)))"
    using untold_callbacks [OF u] by simp
qed

lemma accept_order:
  assumes inv: "server_inv R S H cd (w, b)" and o: "in_order (w, b)"
    and s: "Accept_AcceptHandle S (newConnected R S P) (tcpAccept w) w = Ret v"
  shows "in_order (v, b)"
proof -
  have u: "callbacks k (trace v) = callbacks k (trace w)" for k
    using untold_callbacks [OF untold.accept_adds [OF s]] .
  have cur: "current w < length (loops w)" using inv by (simp add: server_inv_def)
  from s show ?thesis
  proof (cases rule: accept_cases)
    case (1 k)
    then show ?thesis
      by (intro order_frame [OF o]) (simp_all add: waiting_def tasks_at_def)
  next
    case (2 k fd sa)
    then show ?thesis
    proof (cases rule: newConnected_cases)
      case (refused es k')
      have "waiting (v, b) n = waiting (w, b) n" for n
        by (simp add: refused waiting_def tasks_at_def core_at_def core_of_def)
      then show ?thesis by (intro order_frame [OF o]) (simp_all add: u)
    next
      case (created es k' j c pool V)
      let ?i = "next_conn w"
      have V: "conns V = (conns w)(?i \<mapsto> c)" "conn_loop V = (conn_loop w)(?i := j)" "current V = current w"
        "loops V = loops w" "core_at m V = core_at m w" for m
        using created(3) by (simp_all add: core_at_def core_of_def)
      have jl: "j < length (loops V)" "current V < length (loops V)" using created(2) cur V by simp_all
      have v: "v = on_loop j (RunInLoop S (TaskConnected ?i)) V" using created(1) by simp
      note post = on_loop_post [OF jl, where S = S and t = "TaskConnected ?i", folded v]
      have F: "conns v = (conns w)(?i \<mapsto> c)" "conn_loop v = (conn_loop w)(?i := j)"
        using post(1) V by (simp_all add: same_server_def)
      have tasks: "tasks_at m (v, b) = tasks_at m (w, b) @ (if m = j then [TaskConnected ?i] else [])"
        if "m < length (loops w)" for m
        using post(3) [of m] that V by (simp add: tasks_at_def)
      have none: "conns w ?i = None" using inv by (simp add: server_inv_def unborn_def)
      have wait: "waiting (v, b) n \<longleftrightarrow> waiting (w, b) n" for n
      proof (cases "n = ?i")
        case True
        with none F tasks [of j] created(2) show ?thesis by (simp add: waiting_def)
      next
        case False
        show ?thesis
        proof (cases "conns w n")
          case (Some c')
          then have "conn_loop w n < length (loops w)" using inv by (simp add: server_inv_def conn_place_def)
          with False Some F tasks show ?thesis by (auto simp: waiting_def)
        qed (use False F in \<open>simp add: waiting_def\<close>)
      qed
      show ?thesis by (rule order_frame [OF o]) (simp_all add: wait u)
    qed
  qed
qed

lemma event_order:
  assumes R: "bufs_ok R cont" and H: "handle_ok H" and inv: "server_inv R S H cd (w, b)" and o: "in_order (w, b)"
    and p: "eventPool w fd = Some (ConnEvent i)" and c: "conns w i = Some c"
    and h: "HandleEvent (event c) revents = Some h" and s: "server_handler R S P H h w = Ret v"
  shows "in_order (v, b)"
proof -
  have cur: "current w < length (loops w)" using inv by (simp add: server_inv_def)
  have "core_eventPool (core_at (current w) w) fd = Some (ConnEvent i)" using p by (simp add: core_at_def)
  then have pl: "conn_loop w i = current w" "TaskConnected i \<notin> set (tasks_at (current w) (w, b))"
    using inv cur unfolding server_inv_def pool_placed_def fst_conv by blast+
  have place: "conn_place w i c" using inv c by (simp add: server_inv_def)
  then have hc: "handler_conn h = Some i" using HandleEvent_conn h by (auto simp: conn_place_def)
  with s c obtain d u where du: "run_handler R S (server_app H) h c w = Ret (d, u)" "v = put_conn i d u"
    by (auto simp: server_handler_def bind_eq_Some_conv)
  have a: "acts_alone S server_view (conn_fd c) i (view (current w) w) u"
    using server_rest.run_handler_alone [OF R server_app_keeps [OF H] du(1)] place
    by (simp add: alone_def conn_place_def)
  have "in_order (put_conn i d (from_view (current w) w u), b)"
  proof (rule operation_order [OF inv c pl(1) [symmetric] a, where pre = "[]"])
    show "if waiting (w, b) i then callbacks i (trace u) = callbacks i (trace w) else adds no_announcement w u"
      using unannounced.run_handler_adds [OF server_app_ok [OF H] du(1)] c pl by (simp add: waiting_def)
  qed (use o in simp_all)
  then show ?thesis by (simp add: from_view_def du(2))
qed

lemma method_order:
  assumes R: "bufs_ok R cont" and H: "handle_ok H" and inv: "server_inv R S H cd (w, b)" and o: "in_order (w, b)"
    and b: "b (current w) = t # ts" and t: "method_task i t" and s: "server_task N R S H t w = Ret v"
  shows "in_order (v, b(current w := ts))"
proof -
  have cur: "current w < length (loops w)" using inv by (simp add: server_inv_def)
  have tc: "task_conn t = Some i" and tn: "t \<noteq> TaskConnected i" using t method_task_conn by auto
  then obtain c where c: "conns w i = Some c" using s by (auto simp: server_task_def bind_eq_Some_conv)
  obtain d u where du: "run_task R S (server_app H) t c w = (d, u)" by fastforce
  have v: "v = put_conn i d u" using s tc tn c du by (simp add: server_task_def)
  have mem: "t \<in> set (tasks_at (current w) (w, b))" using b by (simp add: tasks_at_def)
  have loop: "conn_loop w i = current w"
    using inv cur mem tc by (auto simp: server_inv_def tasks_placed_def)
  have place: "conn_place w i c" and ph: "conn_phase R S H cd i c (tasks_at (current w) (w, b)) (view (current w) w)"
    using inv c by (simp_all add: server_inv_def loop [symmetric])
  have a: "acts_alone S server_view (conn_fd c) i (view (current w) w) u"
    using server_rest.run_task_alone [OF server_app_keeps [OF H], of S c w R t] du place
    by (simp add: alone_def conn_place_def)
  have "in_order (put_conn i d (from_view (current w) w u), b(current w := ts))"
  proof (rule operation_order [OF inv c loop [symmetric] a, where pre = "[t]"])
    have "\<not> waiting (w, b) i" using ph t mem c loop by (auto simp: waiting_def conn_phase_def list_all_iff)
    then show "if waiting (w, b) i then callbacks i (trace u) = callbacks i (trace w) else adds no_announcement w u"
      using unannounced.run_task_adds [OF server_app_ok [OF H], of w R S t c] du by simp
  qed (use b t o in simp_all)
  then show ?thesis by (simp add: from_view_def v)
qed

text \<open>The registration announces the connection.\<close>

lemma connected_callbacks:
  assumes "handle_ok H" "connected_task S H i c w = (d, u)"
  shows "callbacks k (trace u) = callbacks k (trace w) @ (if k = i then [EffConnect i] else [])"
proof -
  obtain err c1 w1 where 1: "ConnectedHandle S c w = (err, c1, w1)" by (metis prod_cases3)
  define w2 where "w2 = (if err \<noteq> None then removeConnect (PeerAddr c1) (snd (Connect_Close S c1 w1)) else w1)"
  obtain acts w4 where 4: "ConnectCallback H c1 (emit (EffConnect i) w2) = (acts, w4)" by fastforce
  have "adds untold w w1" using untold.ConnectedHandle_adds [OF 1] .
  moreover have "adds untold w1 w2"
    using untold.run_api_adds [of w1 S "[ApiClose]" c1] by (auto simp: w2_def adds_def removeConnect_def)
  moreover obtain k' where "w4 = (emit (EffConnect i) w2)\<lparr>kern := k'\<rparr>" using handle_okD(1) [OF assms(1) 4] by blast
  moreover have "adds untold w4 u"
    using assms(2) 1 4 untold.run_api_addsD by (simp add: connected_task_def w2_def Let_def)
  ultimately show ?thesis by (simp add: untold_callbacks emit_def)
qed

lemma connected_order:
  assumes H: "handle_ok H" and inv: "server_inv R S H cd (w, b)" and o: "in_order (w, b)"
    and b: "b (current w) = TaskConnected i # ts"
    and s: "server_task N R S H (TaskConnected i) w = Ret v"
  shows "in_order (v, b(current w := ts))"
proof -
  let ?j = "current w" and ?b = "b(current w := ts)"
  have cur: "?j < length (loops w)" using inv by (simp add: server_inv_def)
  obtain c where c: "conns w i = Some c" using s by (auto simp: server_task_def bind_eq_Some_conv)
  obtain d u where du: "connected_task S H i c w = (d, u)" by fastforce
  have v: "v = put_conn i d u" using s c du by (simp add: server_task_def)
  have mem: "TaskConnected i \<in> set (tasks_at ?j (w, b))" using b by (simp add: tasks_at_def)
  have loop: "conn_loop w i = ?j" using inv cur mem by (auto simp: server_inv_def tasks_placed_def)
  have place: "conn_place w i c" and "conn_phase R S H cd i c (tasks_at ?j (w, b)) (view ?j w)"
    using inv c by (simp_all add: server_inv_def loop [symmetric])
  then have ph: "count_list (tasks_at ?j (w, b)) (TaskConnected i) = 1" using mem by (auto simp: conn_phase_def)
  have a: "acts_alone S server_view (conn_fd c) i w u"
    using place by (intro connected_alone [OF H _ _ _ du]) (simp_all add: conn_place_def handlers_of_def)
  obtain us where us: "list_all (method_task i) us" "srv_acts (conn_fd c) i ?j us w u"
    using acts_alone_srv [OF a refl cur] by blast
  have tasks: "tasks_at ?j (v, ?b) = ts @ core_loopFunctions (core_at ?j w) @ us"
    "tasks_at ?j (w, b) = TaskConnected i # ts @ core_loopFunctions (core_at ?j w)"
    using us(2) b by (simp_all add: tasks_at_def srv_acts_def v put_conn_def)
  have "TaskConnected i \<notin> set us" using us(1) by (auto simp: list_all_iff)
  then have no: "TaskConnected i \<notin> set (tasks_at ?j (v, ?b))"
    using ph unfolding tasks by (auto simp: count_list_0_iff)
  have same: "conn_loop v = conn_loop w" "conns v i = Some d"
    using us(2) by (simp_all add: v put_conn_def srv_acts_def same_rest_def)
  have tr: "callbacks k (trace v) = callbacks k (trace w) @ (if k = i then [EffConnect i] else [])" for k
    using connected_callbacks [OF H du] by (simp add: v put_conn_def)
  have "if waiting (v, ?b) k then callbacks k (trace v) = [] else announced k (trace v)" for k
  proof (cases "k = i")
    case True
    have "waiting (w, b) i" using c loop mem by (simp add: waiting_def)
    then have "callbacks i (trace w) = []" using in_orderD [OF o, of i] by simp
    moreover have "\<not> waiting (v, ?b) i" using no same loop by (simp add: waiting_def)
    ultimately show ?thesis using True tr [of i] by (simp add: announced_def)
  next
    case False
    have "waiting (v, ?b) k = waiting (w, b) k"
      unfolding v by (rule operation_waiting [OF inv c loop [symmetric] us(2,1), where pre = "[TaskConnected i]"])
        (use b False in simp_all)
    with in_orderD [OF o, of k] tr [of k] False show ?thesis by (auto simp: announced_def split: if_splits)
  qed
  then show ?thesis unfolding in_order_def fst_conv ..
qed

lemma server_step_order:
  assumes R: "bufs_ok R cont" and H: "handle_ok H" and step: "server_step N R S P H s s'"
    and inv: "server_inv R S H cd s" and o: "in_order s"
  shows "in_order s'"
  using step
proof cases
  case (switch j w b)
  have core: "core_at k (switch_to j w) = core_at k w" if "k < length (loops w)" for k
    using core_at_switch [OF switch(3) that] .
  show ?thesis unfolding switch(2)
    by (rule loop_order [OF o [unfolded switch(1)] _ _ _ _ inv [unfolded switch(1)]]) (simp_all add: untold.switch_adds tasks_at_def core)
next
  case (env w b k)
  show ?thesis unfolding env(2)
    by (rule loop_order [OF o [unfolded env(1)] _ _ _ _ inv [unfolded env(1)]]) (simp_all add: adds_def tasks_at_def)
next
  case (start w tw v b)
  have "same_server (w\<lparr>tcpAccept := tcpAccept v\<rparr>) v \<and> core_at k v = core_at k w" for k
    using start(4)
    by (auto simp: Server_Start_def Accept_Listen_def EnableReading_def Let_def same_server_def core_at_def core_of_def
        emit_def dest!: Event_update_world split: prod.splits option.splits)
  with untold.Start_adds [OF start(4)] show ?thesis unfolding start(2)
    by (intro loop_order [OF o [unfolded start(1)] _ _ _ _ inv [unfolded start(1)]]) (simp_all add: same_server_def tasks_at_def)
next
  case (event w fd p e revents h v b)
  show ?thesis
  proof (cases p)
    case AcceptorEvent
    then have "h = AcceptHandle"
      using event inv by (auto simp: server_deref_def server_inv_def acceptor_ok_def HandleEvent_def split: if_splits)
    then have "Accept_AcceptHandle S (newConnected R S P) (tcpAccept w) w = Ret v"
      using event by (simp add: server_handler_def)
    then show ?thesis using accept_order event inv o by simp
  next
    case (ConnEvent i)
    then obtain c where "conns w i = Some c" "e = event c" using event by (auto simp: server_deref_def)
    then show ?thesis using event_order [OF R H] event inv o ConnEvent by simp
  qed
next
  case (wake w b)
  have "core_at k (wakeHandlerRead S (multi w) w) = core_at k w" for k
    by (simp add: wakeHandlerRead_def sys_read_def emit_def core_at_def core_of_def split: prod.splits)
  moreover have "same_server w (wakeHandlerRead S (multi w) w)"
    by (simp add: wakeHandlerRead_def sys_read_def emit_def same_server_def split: prod.splits)
  ultimately show ?thesis unfolding wake(2)
    by (intro loop_order [OF o [unfolded wake(1)] _ _ _ _ inv [unfolded wake(1)]]) (simp_all add: untold.wake_adds tasks_at_def same_server_def)
next
  case (grow w b n)
  show ?thesis unfolding grow(2)
    by (rule loop_order [OF o [unfolded grow(1)] _ _ _ _ inv [unfolded grow(1)]]) (simp_all add: adds_def tasks_at_def core_at_def core_of_def)
next
  case (swap b w)
  show ?thesis unfolding swap(2)
    by (rule loop_order [OF o [unfolded swap(1)] _ _ _ _ inv [unfolded swap(1)]]) (simp_all add: adds_def tasks_at_def core_at_def core_of_def swap(3))
next
  case (execute b w t ts v)
  show ?thesis
  proof (cases "task_conn t")
    case None
    then have t: "t = TaskAcceptClose" by (cases t) auto
    obtain a u where au: "Accept_close_task N S (tcpAccept w) w = (a, u)" by fastforce
    have v: "v = u\<lparr>tcpAccept := a\<rparr>" using execute t au by (simp add: server_task_def)
    obtain fd k es where u: "u = w\<lparr>eventPool := (eventPool w)(fd := None), kern := k, trace := trace w @ es\<rparr>"
      using Accept_close_task_world [OF au] by blast
    have "adds untold w v" using untold.Accept_close_task_adds [OF au] by (simp add: v adds_def)
    then show ?thesis unfolding execute(2) using execute(3)
      by (intro loop_order [OF o [unfolded execute(1)] _ _ _ _ inv [unfolded execute(1)]])
        (auto simp: v u t tasks_at_def core_at_def core_of_def conn_tasks_def)
  next
    case (Some i)
    then consider "t = TaskConnected i" | "method_task i t" by (cases t) auto
    then show ?thesis
      using connected_order [OF H] method_order [OF R H] execute inv o by cases simp_all
  qed
next
  case (running w b r)
  show ?thesis unfolding running(2)
    by (rule loop_order [OF o [unfolded running(1)] _ _ _ _ inv [unfolded running(1)]]) (simp_all add: adds_def tasks_at_def core_at_def core_of_def)
next
  case (call w i c b a)
  obtain d u where du: "run_api S [a] c (view (conn_loop w i) w) = (d, u)" by fastforce
  have place: "conn_place w i c" using call inv by (simp add: server_inv_def)
  have a: "acts_alone S server_view (conn_fd c) i (view (conn_loop w i) w) u"
    using server_rest.run_api_alone [of S c "view (conn_loop w i) w" "[a]"] place
    by (simp add: du alone_def conn_place_def)
  have "in_order (put_conn i d (from_view (conn_loop w i) w u), b)"
  proof (rule operation_order [OF inv [unfolded call(1)] call(3) refl a, where pre = "[]"])
    show "if waiting (w, b) i then callbacks i (trace u) = callbacks i (trace w) else adds no_announcement w u"
      using untold_callbacks [OF untold.run_api_addsD [OF du]] unannounced.run_api_addsD [OF du]
      by (simp add: adds_def)
  qed (use o call in simp_all)
  then show ?thesis by (simp add: call on_loop_view call_api_def du from_view_put)
next
  case (timer w i c b)
  let ?u = "closeTimeoutConn S c (view (conn_loop w i) w)"
  have place: "conn_place w i c" using timer inv by (simp add: server_inv_def)
  have a: "acts_alone S server_view (conn_fd c) i (view (conn_loop w i) w) ?u"
    using server_rest.timer_alone [of S c "view (conn_loop w i) w"] place
    by (simp add: alone_def conn_place_def)
  have "in_order (put_conn i c (from_view (conn_loop w i) w ?u), b)"
  proof (rule operation_order [OF inv [unfolded timer(1)] timer(3) refl a, where pre = "[]"])
    show "if waiting (w, b) i then callbacks i (trace ?u) = callbacks i (trace w) else adds no_announcement w ?u"
      using untold_callbacks [OF untold.timer_conn_adds, of i S c "view (conn_loop w i) w"]
        unannounced.timer_conn_adds [of "view (conn_loop w i) w" S c]
      by (simp add: adds_def)
  qed (use o timer in simp_all)
  moreover have "conns (from_view (conn_loop w i) w ?u) i = Some c"
    using server_rest.acts_alone_view [OF a] timer(3)
    by (auto simp: server_view_def from_view_def)
  then have "put_conn i c (from_view (conn_loop w i) w ?u) = from_view (conn_loop w i) w ?u"
    by (simp add: put_conn_def fun_upd_idem)
  ultimately show ?thesis by (simp add: timer on_loop_view)
next
  case (stop w b)
  then have l: "0 < length (loops w)" "current w < length (loops w)" using inv by (auto simp: server_inv_def)
  note p = on_loop_post [OF l, where S = S and t = TaskAcceptClose]
  have eq: "on_loop 0 (Accept_Close S) w = on_loop 0 (RunInLoop S TaskAcceptClose) w"
    by (simp add: on_loop_def Accept_Close_def)
  show ?thesis unfolding stop(2) eq
    by (rule loop_order [OF o [unfolded stop(1)] _ _ _ _ inv [unfolded stop(1)]])
      (use p(1) p(3) untold.stop_adds [of w S] in \<open>simp_all add: eq same_server_def tasks_at_def conn_tasks_def\<close>)
qed

lemma server_reachable_order:
  assumes R: "bufs_ok R cont" and H: "handle_ok H"
  shows "server_reachable N R S P H opts s \<Longrightarrow> in_order s"
proof (induction rule: server_reachable.induct)
  case (created w0 cpus w w1)
  have "list_all untold (trace w)"
    using created(1) untold.Server_New_adds [OF created(3)] by auto
  then have "callbacks i (trace w) = []" for i by (simp add: callbacks_def untold_def list_all_iff)
  moreover have "conns w = Map.empty"
    using created(3) by (auto simp: Server_New_def Let_def split: prod.splits sum.splits)
  ultimately show ?case by (simp add: in_order_def waiting_def)
next
  case (step s s')
  then show ?case using server_step_order [OF R H] server_reachable_inv [OF R H] by blast
qed

text \<open>C14: the handler is told of a connection first and once: in every reachable configuration, if any
  callback has been made for a connection, the first was \<open>ConnectCallback\<close>, and it has not been made
  again; for an open connection it has been made.\<close>

theorem server_callback_order:
  assumes "bufs_ok R cont" and "handle_ok H" and "server_reachable N R S P H opts (w, b)"
  shows "(callbacks i (trace w) = [] \<or> announced i (trace w)) \<and>
    (\<forall>c. conns w i = Some c \<longrightarrow> state c \<noteq> Disconnected \<longrightarrow> announced i (trace w))"
proof -
  have o: "in_order (w, b)" using server_reachable_order [OF assms] .
  have inv: "server_inv R S H (codec_of opts) (w, b)" using server_reachable_inv [OF assms] .
  have "\<not> waiting (w, b) i" if "conns w i = Some c" "state c \<noteq> Disconnected" for c
    using waiting_closed [OF assms(1) inv that(1)] that by (auto simp: waiting_def)
  with in_orderD [OF o, of i] show ?thesis by (auto split: if_splits)
qed

theorem server_callback_order_witness:
  "announced 0 (trace read_server) \<and> callbacks 0 (trace read_server) = [EffConnect 0, EffMessage 0 [104]]"
proof -
  have "callbacks 0 (trace read_server) = [EffConnect 0, EffMessage 0 [104]]"
    by (simp add: callbacks_def read_server_def open_server_def accepted_server_def created_server_def)
  with server_callback_order [OF list_bufs_ok echo_handle_ok read_reachable, of 0] show ?thesis
    by (simp add: read_server_fields)
qed

text \<open>C11: an accepted connection is announced in the next pass of its loop: when the function that
  registers it is queued and a sub loop makes a pass, then by the end of the pass the handler has been
  told of the connection, once and before any other callback for it.\<close>

theorem sub_loop_announces:
  assumes "bufs_ok R cont" and "handle_ok H" and "codec_wf (codec_of opts)"
    and "server_reachable N R S P H opts (w, b)" and "current w \<noteq> 0" and "b (current w) = []"
    and "TaskConnected i \<in> set (loopFunctions w)"
  shows "\<exists>v. server_pass N R S P H w = Ret (Bool_Get (running w), v) \<and> announced i (trace v)"
proof -
  obtain u n where u: "waitAndRunHandle S server_deref (server_handler R S P H) PollTimeMs w =
      Ret (u\<lparr>multi := (multi u)\<lparr>mx_waitEvents_len := n\<rparr>\<rparr>)"
    "server_steps N R S P H (w, b) (u, b)" "same_runner w u"
    using loop_wait [OF assms(1-4)] assms(5) by blast
  from pass_of_wait [OF assms(1-4,6) u] assms(7) obtain v where
    v: "server_pass N R S P H w = Ret (Bool_Get (running w), v)"
    "server_steps N R S P H (u, b) (v, b)" "EffConnect i \<in> set (trace v)" by blast
  have "in_order (v, b)"
    using server_reachable_order [OF assms(1,2) steps_reachable [OF v(2) steps_reachable [OF u(2) assms(4)]]] .
  from in_orderD [OF this, of i] v(3) have "announced i (trace v)"
    by (auto simp: callbacks_def filter_empty_conv split: if_splits)
  with v(1) show ?thesis by blast
qed

theorem sub_loop_announces_witness:
  "\<exists>v. server_pass net_lib list_bufs net_sys no_buffers echo_handle (switch_to 1 accepted_server) = Ret (False, v) \<and>
     announced 0 (trace v)"
proof -
  have r: "demo_reachable (switch_to 1 accepted_server, \<lambda>_. [])"
    using accepted_reachable open_steps(1) by (rule server_reachable.step)
  have f: "current (switch_to 1 accepted_server) = 1" "running (switch_to 1 accepted_server) = 0"
    "loopFunctions (switch_to 1 accepted_server) = [TaskConnected 0]"
    by (simp_all add: switch_to_def load_core_def accepted_server_def created_server_def sub_core_def)
  have "codec_wf (codec_of demo_opts)" "current (switch_to 1 accepted_server) \<noteq> 0"
    "TaskConnected 0 \<in> set (loopFunctions (switch_to 1 accepted_server))"
    unfolding f by (simp_all add: demo_codec)
  from sub_loop_announces [OF list_bufs_ok echo_handle_ok this(1) r this(2) _ this(3)]
  show ?thesis unfolding f by (simp add: Bool_Get_def)
qed

end
