(* ===== verification/ServerAnswers.thy ===== *)
theory ServerAnswers
  imports Effects
begin

text \<open>
  Servers whose handler answers every message by itself, without queued writes (the echo server is
  one): what is handed to a connection is the encoded answers to the messages delivered on it, in
  their order. With framing on the input and the order of the output this makes the bytes sent a
  function of the bytes received.
\<close>

section \<open>Operations that neither deliver nor submit\<close>

fun mute_eff :: "effect \<Rightarrow> bool" where
  "mute_eff (EffMessage _ _) = False"
| "mute_eff (EffSubmit _ _) = False"
| "mute_eff _ = True"

abbreviation mute :: "('k, 'z) world_scheme \<Rightarrow> ('k, 'z) world_scheme \<Rightarrow> bool" where
  "mute \<equiv> adds mute_eff"

interpretation muted: server_effects mute_eff
  by unfold_locales simp_all

lemma mute_views:
  assumes "mute w v"
  shows "submitted i (trace v) = submitted i (trace w)" "delivered i (trace v) = delivered i (trace w)"
proof -
  obtain es where es: "trace v = trace w @ es" "list_all mute_eff es" using assms by (auto simp: adds_def)
  have "submitted1 i e = [] \<and> delivered1 i e = []" if "mute_eff e" for e using that by (cases e) simp_all
  then have "submitted i es = [] \<and> delivered i es = []" using es(2) by (induction es) auto
  with es(1) show "submitted i (trace v) = submitted i (trace w)" "delivered i (trace v) = delivered i (trace w)"
    by simp_all
qed

section \<open>Answers\<close>

text \<open>\<open>answer\<close> is what \<open>deliver\<close> hands to the connection for a message when the handler answers with \<open>r\<close>.\<close>

definition answer :: "ICodec \<Rightarrow> (bytes \<Rightarrow> bytes option) \<Rightarrow> bytes \<Rightarrow> bytes" where
  "answer cd r f = (case r f of
     None \<Rightarrow> []
   | Some out \<Rightarrow> (case ICodec_Encode cd out of Some (Inr outFrame) \<Rightarrow> outFrame | _ \<Rightarrow> []))"

definition answered ::
  "ICodec \<Rightarrow> (bytes \<Rightarrow> bytes option) \<Rightarrow> ('k, 'z) world_scheme \<Rightarrow> bool" where
  "answered cd r w \<longleftrightarrow>
     (\<forall>i. submitted i (trace w) = concat (map (answer cd r) (delivered i (trace w))))"

definition answers :: "(bytes \<Rightarrow> bytes option) \<Rightarrow> ('rb, 'bb, 'w) app \<Rightarrow> bool" where
  "answers r A \<longleftrightarrow> (\<forall>c f w. fst (fst (on_message A c f w)) = r f)"

lemma mute_answered: "mute w v \<Longrightarrow> answered cd r w \<Longrightarrow> answered cd r v"
  by (simp add: answered_def mute_views)

lemma deliver_writes:
  assumes "deliver R S A f c w = Ret s" and "on_message A c f (emit (EffMessage (self c) f) w) = ((r f, acts), w1)"
    and "run_api S acts c w1 = (d, v)" and "codeImp d = cd"
  shows "answer cd r f = [] \<and> s = (d, v) \<or> s = conn_write R S A (answer cd r f) d v"
proof (cases "r f")
  case None
  with assms show ?thesis by (auto simp: deliver_def answer_def split: if_splits)
next
  case (Some out)
  obtain y where y: "ICodec_Encode cd out = Ret y"
    using assms Some by (auto simp: deliver_def bind_eq_Some_conv split: if_splits)
  with assms Some show ?thesis
    by (cases y) (auto simp: deliver_def answer_def split: if_splits)
qed

lemma deliver_answered:
  assumes A: "app_ok A" and r: "answers r A" and cd: "codeImp c = cd"
    and s: "deliver R S A f c w = Ret (d, v)" and a: "answered cd r w"
  shows "codeImp d = cd" "answered cd r v"
proof -
  let ?w = "emit (EffMessage (self c) f) w"
  obtain out acts w1 where "on_message A c f ?w = ((out, acts), w1)" by (metis surj_pair)
  with r have 1: "on_message A c f ?w = ((r f, acts), w1)" unfolding answers_def by (metis fst_conv)
  obtain c2 w2 where 2: "run_api S acts c w1 = (c2, w2)" by fastforce
  have same: "codeImp c2 = cd" "self c2 = self c"
    using run_api_calm [of c w1 S acts] 2 cd by (simp_all add: calm_def same_input_def)
  have q: "mute ?w w2" using adds_app(1) [OF A 1] muted.run_api_addsD [OF 2] by (rule adds_trans)
  have views: "delivered i (trace w2) = delivered i (trace w) @ (if i = self c then [f] else [])"
    "submitted i (trace w2) = submitted i (trace w)" for i
    using mute_views [OF q, of i] by auto
  have "codeImp d = cd \<and> answered cd r v"
    using deliver_writes [where r = r, OF s 1 2 same(1)]
  proof
    assume "answer cd r f = [] \<and> (d, v) = (c2, w2)"
    with a same show ?thesis by (simp add: answered_def views)
  next
    assume cw: "(d, v) = conn_write R S A (answer cd r f) c2 w2"
    have "answered cd r (emit (EffSubmit (self c) (answer cd r f)) w2)"
      using a by (auto simp: answered_def views)
    then have "answered cd r v"
      using muted.conn_write_adds [OF A, of c2 "answer cd r f" w2 R S] same(2)
      by (auto simp: cw [symmetric] intro: mute_answered)
    with conn_write_calm [OF A, of c2 w2 R S "answer cd r f"] same(1) show ?thesis
      by (simp add: cw [symmetric] calm_def same_input_def)
  qed
  then show "codeImp d = cd" "answered cd r v" by simp_all
qed

lemma readEvent_answered:
  fixes c :: "('rb, 'bb) conn"
  assumes R: "bufs_ok R cont" and A: "app_ok A" and r: "answers r A" and cd: "codeImp c = cd"
    and s: "readEvent R S A c w = Ret (d, v)" and a: "answered cd r w"
  shows "answered cd r v"
proof -
  define c0 where "c0 = updateActivityTime S c w"
  have cd0: "codeImp c0 = cd" using cd by (simp add: c0_def updateActivityTime_def)
  obtain x w1 where x: "sys_read S (conn_fd c0) 65535 w = (x, w1)" by fastforce
  have w1: "answered cd r w1" using mute_answered [OF muted.adds_sys(1) [OF x] a] .
  have loop: "answered cd r v'"
    if l: "read_loop R S A (c0\<lparr>temporaryBuf := b\<rparr>) w1 = Ret (d', v')" for b d' v'
  proof -
    let ?Q = "\<lambda>c u. codeImp c = cd \<and> answered cd r u"
    have "?Q (fst (d', v')) (snd (d', v'))"
    proof (rule read_loop_keeps [where Q = ?Q, OF _ _ l])
      fix c' e :: "('rb, 'bb) conn" and u q
      assume "?Q c' u" "ICodec_Decode (codeImp c') (connect_Conn R) c' = Ret (q, e)"
      then show "?Q e u" by (auto simp: same_shell_def dest: decode_shell [OF R])
    next
      fix c' e :: "('rb, 'bb) conn" and u u' g
      assume "?Q c' u" "deliver R S A g c' u = Ret (e, u')"
      then show "?Q e u'" using deliver_answered [OF A r] by blast
    qed (use w1 cd0 in simp)
    then have "codeImp d' = cd \<and> answered cd r v'" by simp
    then show ?thesis ..
  qed
  have cl: "answered cd r (snd (closeEvent S A c0 w1))"
    using mute_answered [OF muted.closeEvent_adds [OF A] w1] .
  have en: "answered cd r (snd (enable_reading S False c0 w))"
    using mute_answered [OF muted.enable_adds(2) a] .
  from s show ?thesis
    unfolding readEvent_def Let_def c0_def [symmetric] x prod.case
    using cl en w1 by (auto simp: bind_eq_Some_conv loop split: if_splits sum.splits)
qed

section \<open>Whole servers\<close>

definition answering :: "(bytes \<Rightarrow> bytes option) \<Rightarrow> ('rb, 'bb, 'w) handle_event \<Rightarrow> bool" where
  "answering r H \<longleftrightarrow> (\<forall>c f w. fst (fst (MessageCallback H c f w)) = r f)"

definition no_writes :: "('k, 'rb, 'bb, 'l) config \<Rightarrow> bool" where
  "no_writes s \<longleftrightarrow> (\<forall>j < length (loops (fst s)). \<forall>i f. TaskWrite i f \<notin> set (tasks_at j s))"

text \<open>A step after which no \<open>WriteInSelfLoop\<close> is queued.\<close>

definition direct_step ::
  "('k, 'l) netlib \<Rightarrow> ('rb, 'bb) bufs \<Rightarrow> 'k sys \<Rightarrow> (nat \<Rightarrow> 'rb \<times> 'rb) \<Rightarrow>
   ('rb, 'bb, ('k, 'rb, 'bb, 'l) server) handle_event \<Rightarrow>
     ('k, 'rb, 'bb, 'l) config \<Rightarrow> ('k, 'rb, 'bb, 'l) config \<Rightarrow> bool" where
  "direct_step N R S P H s s' \<longleftrightarrow> server_step N R S P H s s' \<and> no_writes s'"

text \<open>Runs of a server in which no \<open>WriteInSelfLoop\<close> is ever queued.\<close>

inductive direct_reachable ::
  "('k, 'l) netlib \<Rightarrow> ('rb, 'bb) bufs \<Rightarrow> 'k sys \<Rightarrow> (nat \<Rightarrow> 'rb \<times> 'rb) \<Rightarrow>
   ('rb, 'bb, ('k, 'rb, 'bb, 'l) server) handle_event \<Rightarrow> Option list \<Rightarrow>
     ('k, 'rb, 'bb, 'l) config \<Rightarrow> bool"
  for N R S P H opts where
  created: "direct_reachable N R S P H opts (w, \<lambda>_. [])"
    if "trace w0 = []" and "0 < cpus" and "Server_New N S cpus opts w0 = (Inr w, w1)"
| step: "direct_reachable N R S P H opts s'"
    if "direct_reachable N R S P H opts s" and "direct_step N R S P H s s'"

lemma direct_more:
  "direct_reachable N R S P H opts s \<Longrightarrow> server_step N R S P H s s' \<Longrightarrow> no_writes s' \<Longrightarrow>
     direct_reachable N R S P H opts s'"
  by (rule direct_reachable.step) (simp_all add: direct_step_def)

lemma direct_server: "direct_reachable N R S P H opts s \<Longrightarrow> server_reachable N R S P H opts s"
  by (induction rule: direct_reachable.induct) (auto simp: direct_step_def intro: server_reachable.intros)

lemma direct_steps:
  "(direct_step N R S P H)\<^sup>*\<^sup>* s s' \<Longrightarrow> direct_reachable N R S P H opts s \<Longrightarrow>
     direct_reachable N R S P H opts s'"
  by (induction rule: rtranclp_induct) (blast intro: direct_reachable.step)+

lemma handler_answered:
  assumes R: "bufs_ok R cont" and H: "handle_ok H" and r: "answering r H" and inv: "server_inv R S H cd (w, b)"
    and s: "server_handler R S P H h w = Ret v" and a: "answered cd r w"
  shows "answered cd r v"
proof (cases "handler_conn h")
  case None
  with s have "mute w v" by (auto simp: server_handler_def dest: muted.accept_adds)
  then show ?thesis using a by (rule mute_answered)
next
  case (Some i)
  with s obtain c d u where c: "conns w i = Some c" and v: "v = put_conn i d u"
    and du: "run_handler R S (server_app H) h c w = Ret (d, u)"
    by (auto simp: server_handler_def bind_eq_Some_conv)
  have "conn_place w i c" "GetCode (options w) = Some cd" using inv c by (simp_all add: server_inv_def)
  then have cd: "codeImp c = cd" by (simp add: conn_place_def)
  note A = server_app_ok [OF H]
  have app: "answers r (server_app H)" using r by (simp add: answers_def answering_def server_app_def)
  have "answered cd r u"
  proof (cases "\<exists>i. h = ReadHandler i")
    case True
    with du readEvent_answered [OF R A app cd _ a] show ?thesis by auto
  next
    case False
    with du have "mute w u"
      using muted.writeEvent_adds [OF A, of w R S c] muted.closeEvent_adds [OF A, of w S c]
      by (cases h) (auto simp: errEvent_def)
    then show ?thesis using a by (rule mute_answered)
  qed
  then show ?thesis by (simp add: answered_def v put_conn_def)
qed

lemma server_step_answered:
  assumes R: "bufs_ok R cont" and H: "handle_ok H" and r: "answering r H" and step: "server_step N R S P H s s'"
    and inv: "server_inv R S H cd s" and no: "no_writes s" and a: "answered cd r (fst s)"
  shows "answered cd r (fst s')"
  using step
proof cases
  case (event w fd p e revents h v b)
  then show ?thesis using handler_answered [OF R H r] inv a by simp
next
  case (execute b w t ts v)
  have "t \<in> set (tasks_at (current w) s)" "current w < length (loops w)"
    using execute inv by (simp_all add: tasks_at_def server_inv_def)
  then have "\<nexists>i f. t = TaskWrite i f" using no execute by (auto simp: no_writes_def)
  with muted.task_adds [OF H] execute have "mute w v" by blast
  with execute a show ?thesis by (simp add: mute_answered)
qed (use a in \<open>auto simp: answered_def mute_views [OF muted.call_adds] mute_views [OF muted.timer_adds]
    mute_views [OF muted.Start_adds] mute_views [OF muted.wake_adds] mute_views [OF muted.stop_adds]\<close>)

lemma direct_answered:
  assumes R: "bufs_ok R cont" and H: "handle_ok H" and r: "answering r H"
  shows "direct_reachable N R S P H opts s \<Longrightarrow> no_writes s \<and> answered (codec_of opts) r (fst s)"
proof (induction rule: direct_reachable.induct)
  case (created w0 cpus w w1)
  have inv: "server_inv R S H (codec_of opts) (w, \<lambda>_. [])" using created_inv [OF created] .
  have "next_conn w = 0" using created(3) by (auto simp: Server_New_def Let_def split: prod.splits sum.splits)
  with inv have "no_writes (w, \<lambda>_. [])" "answered (codec_of opts) r w"
    by (simp add: server_inv_def no_writes_def tasks_placed_def, fastforce)
      (use \<open>next_conn w = 0\<close> inv in \<open>simp add: server_inv_def unborn_def answered_def\<close>)
  then show ?case by simp
next
  case (step s s')
  then have "server_inv R S H (codec_of opts) s" using server_reachable_inv [OF R H direct_server] by blast
  with step server_step_answered [OF R H r, of N S P s s'] show ?case by (simp add: direct_step_def)
qed

text \<open>C1: with the line, delimiter or length field codec, in a configuration that cannot panic, a server
  is a function from the bytes it receives to the bytes it sends: when the handler answers every
  message \<open>f\<close> with \<open>r f\<close> and nothing else is written, then for every open connection, in every
  reachable configuration, what the kernel has taken on its descriptor followed by what is
  in its out buffer is the encoded answers to the frames of the bytes received, in their order,
  however the kernel cuts input and output and whatever the other connections do.\<close>

theorem server_answers:
  assumes "bufs_ok R cont" and "sys_ok S" and "handle_ok H" and "answering r H"
    and "incremental (codec_of opts)" and "codec_wf (codec_of opts)"
    and "direct_reachable N R S P H opts (w, b)"
    and "conns w i = Some c" and "state c \<noteq> Disconnected"
  shows "sent (conn_fd c) (trace w) @ cont (outBuffer c) =
    concat (map (answer (codec_of opts) r)
      (fst (frames (frame_of (codec_of opts)) (received (conn_fd c) (trace w)))))"
proof -
  note reach = direct_server [OF assms(7)]
  have place: "conn_place w i c" using server_connection(1) [OF assms(1,3) reach assms(8,9)] .
  have "frames (frame_of (codec_of opts)) (received (conn_fd c) (trace w)) =
      (delivered i (trace w), cont (inBuffer c))"
    using conn_reachable_frames [OF assms(1) server_app_ok [OF assms(3)] assms(5,6)
        server_connection(2) [OF assms(1,3) reach assms(8,9)]] place by (simp add: conn_place_def)
  moreover have "submitted i (trace w) = sent (conn_fd c) (trace w) @ cont (outBuffer c)"
    using server_sound [OF assms(1-3) reach assms(8,9)] place assms(9)
    by (simp add: sound_def fifo_def conn_place_def)
  ultimately show ?thesis
    using direct_answered [OF assms(1,3,4,7)] by (simp add: answered_def)
qed

lemma demo_direct:
  "direct_reachable net_lib list_bufs net_sys no_buffers echo_handle demo_opts (read_server, \<lambda>_. [])"
proof -
  let ?D = "direct_reachable net_lib list_bufs net_sys no_buffers echo_handle demo_opts"
  note step = direct_more [where N = net_lib and R = list_bufs and S = net_sys and
      P = no_buffers and H = echo_handle and opts = demo_opts]
  note D = no_writes_def tasks_at_def core_at_def core_of_def accepted_server_def created_server_def
    main_core_def sub_core_def less_Suc_eq
  obtain w1 where "Server_New net_lib net_sys 1 demo_opts demo_world = (Inr created_server, w1)"
    using demo_new by blast
  then have "?D (created_server, \<lambda>_. [])"
    by (rule direct_reachable.created [rotated 2]) (simp_all add: demo_world_def)
  then have "?D (accepted_server, \<lambda>_. [])" using accepted_step by (rule step) (auto simp: D)
  then have "?D (switch_to 1 accepted_server, \<lambda>_. [])" using open_steps(1)
    by (rule step) (auto simp: D switch_to_def load_core_def)
  then have "?D (taken_server, taken_batch)" using open_steps(2)
    by (rule step) (auto simp: D taken_server_def taken_batch_def switch_to_def load_core_def)
  then have "?D (open_server, \<lambda>_. [])" using open_steps(3) by (rule step) (auto simp: D open_server_def)
  then have "?D (ready_server, \<lambda>_. [])" using read_steps(1)
    by (rule step) (auto simp: D open_server_def ready_server_def)
  then show "?D (read_server, \<lambda>_. [])" using read_steps(2)
    by (rule step) (auto simp: D open_server_def read_server_def)
qed

theorem server_answers_witness:
  "[104, 10] = concat (map (answer LineBasedFrameCodec Some) (fst (frames (frame_of LineBasedFrameCodec) [104, 10, 105])))"
  using server_answers [OF list_bufs_ok net_sys_ok echo_handle_ok _ _ _ demo_direct read_server_fields(1), of Some]
  by (simp add: demo_codec read_server_fields answering_def echo_handle_def)

text \<open>The same for codecs that hand over every byte at once.\<close>

lemma server_answers_eager:
  assumes "bufs_ok R cont" and "sys_ok S" and "handle_ok H" and "answering r H"
    and "\<not> incremental (codec_of opts)" and "codec_wf (codec_of opts)"
    and "direct_reachable N R S P H opts (w, b)"
    and "conns w i = Some c" and "state c \<noteq> Disconnected"
  shows "sent (conn_fd c) (trace w) @ cont (outBuffer c) =
      concat (map (answer (codec_of opts) r) (delivered i (trace w)))"
    "concat (delivered i (trace w)) = received (conn_fd c) (trace w)"
proof -
  note reach = direct_server [OF assms(7)]
  have place: "conn_place w i c" using server_connection(1) [OF assms(1,3) reach assms(8,9)] .
  show "concat (delivered i (trace w)) = received (conn_fd c) (trace w)"
    using conn_reachable_bytes [OF assms(1) server_app_ok [OF assms(3)] assms(5,6)
        server_connection(2) [OF assms(1,3) reach assms(8,9)]] place by (simp add: conn_place_def)
  show "sent (conn_fd c) (trace w) @ cont (outBuffer c) =
      concat (map (answer (codec_of opts) r) (delivered i (trace w)))"
    using server_sound [OF assms(1-3) reach assms(8,9)] place assms(9) direct_answered [OF assms(1,3,4,7)]
    by (simp add: sound_def fifo_def conn_place_def answered_def)
qed

end
