(* ===== verification/Echo.thy ===== *)
theory Echo
  imports ServerLemmas
begin

text \<open>
  \<open>example/echo/echo.go\<close>: a handler that sends back what it gets and counts connections. The
  counter is part of the surroundings (the kernel state), like all state of an application. Of
  \<open>main\<close> the flags are arguments; the profiler and the log output are left out.
\<close>

record echo =
  connectTimes :: "64 word"

definition GetConnectTimes :: "'z echo_scheme \<Rightarrow> 64 word" where
  "GetConnectTimes k = connectTimes k"

definition AddConnectTimes ::
  "64 word \<Rightarrow> ('z echo_scheme, 'rb, 'bb, 'l) server \<Rightarrow> ('z echo_scheme, 'rb, 'bb, 'l) server" where
  "AddConnectTimes n w = w\<lparr>kern := (kern w)\<lparr>connectTimes := connectTimes (kern w) + n\<rparr>\<rparr>"

text \<open>What \<open>Echo\<close> does not define it has from \<open>HandleEventImpl\<close>.\<close>

definition Echo :: "('rb, 'bb, ('z echo_scheme, 'rb, 'bb, 'l) server) handle_event" where
  "Echo = HandleEventImpl
     \<lparr>ConnectCallback := (\<lambda>c w. ConnectCallback HandleEventImpl c (AddConnectTimes 1 w)),
      MessageCallback := (\<lambda>c buffer w. ((Some buffer, []), w))\<rparr>"

definition Echo_OnClose ::
  "('rb, 'bb) conn \<Rightarrow> ('z echo_scheme, 'rb, 'bb, 'l) server \<Rightarrow>
     api list \<times> ('z echo_scheme, 'rb, 'bb, 'l) server" where
  "Echo_OnClose c w = ConnectCloseCallback HandleEventImpl c (AddConnectTimes (- 1) w)"

text \<open>\<open>main\<close>: the options the server is created with.\<close>

definition echo_options :: "string \<Rightarrow> int \<Rightarrow> Option list" where
  "echo_options port n = [Network ''tcp'', Address ('':'' @ port), NumLoops n]"

text \<open>
  \<open>main\<close> from the creation of the server to the point where \<open>Start\<close> runs the loops; \<open>f\<close> is the
  function that logs the number of connections every 20 s.
\<close>

definition echo_main ::
  "('z echo_scheme, 'l) netlib \<Rightarrow> 'z echo_scheme sys \<Rightarrow> ('z echo_scheme, 'f, 't) timing_wheel \<Rightarrow> int \<Rightarrow>
     string \<Rightarrow> int \<Rightarrow> 'f \<Rightarrow> 'z echo_scheme world \<Rightarrow> ('z echo_scheme, 'rb, 'bb, 'l) server go" where
  "echo_main N S T numCPU port n f w = (case Server_New N S numCPU (echo_options port n) w of
     (Inl err, w) \<Rightarrow> Panic
   | (Inr s, w) \<Rightarrow> (case Server_RunEvery T (20 * 10 ^ 9) f s of (t, s) \<Rightarrow> Server_Start (tw_Start T) S s))"

lemma Echo_ok: "handle_ok (Echo :: ('rb, 'bb, ('z echo_scheme, 'rb, 'bb, 'l) server) handle_event)"
proof -
  have "\<exists>k. w = w\<lparr>kern := k\<rparr>" for w :: "('z echo_scheme, 'rb, 'bb, 'l) server"
    by (rule exI [of _ "kern w"]) simp
  then show ?thesis by (auto simp: handle_ok_def Echo_def HandleEventImpl_def AddConnectTimes_def)
qed

text \<open>
  \<open>OnClose\<close> is not a method of the interface, so nothing calls it: the counter only grows, the
  callback for a closed connection leaves it as it is.
\<close>

theorem echo_never_counts_down:
  "connectTimes (kern (snd (on_close (server_app Echo) c w))) = connectTimes (kern w) \<and>
   connectTimes (kern (snd (ConnectCallback Echo c w))) = connectTimes (kern w) + 1 \<and>
   connectTimes (kern (snd (Echo_OnClose c w))) = connectTimes (kern w) - 1"
  by (simp add: server_app_def connectCloseEvent_def Echo_def HandleEventImpl_def AddConnectTimes_def
      Echo_OnClose_def removeConnect_def)

end
