(* ===== verification/EchoDemo.thy ===== *)
theory EchoDemo
  imports ServerAnswers Echo
begin

text \<open>
  A run of the echo server from \<open>main\<close>: a kernel that accepts descriptor 8, always has two bytes to
  read and takes one byte at a time.
\<close>

definition echo_sys :: "echo sys" where
  "echo_sys =
     \<lparr>k_read = (\<lambda>fd n k. (Inr (take n [104, 105]), k)), k_write = (\<lambda>fd d k. (Inr (min 1 (length d)), k)),
      k_close = (\<lambda>fd k. (None, k)), k_shutdown_wr = (\<lambda>fd k. (None, k)),
      k_set_nonblock = (\<lambda>fd k. (None, k)), k_accept = (\<lambda>fd k. (Inr (8, SockaddrInet4 [10, 0, 0, 1] 80), k)),
      k_epoll_create = (\<lambda>k. (Inr 3, k)), k_eventfd = (\<lambda>k. (Inr 4, k)),
      k_epoll_ctl = (\<lambda>ep op fd ev k. (None, k)), k_epoll_wait = (\<lambda>ep n t k. (Inr [], k)), k_now = (\<lambda>k. 0)\<rparr>"

definition echo_lib :: "(echo, unit) netlib" where
  "echo_lib =
     \<lparr>nl_listen = (\<lambda>reuse n a k. (Inr (), k)), nl_is_tcp = (\<lambda>l. True),
      nl_file = (\<lambda>l k. (Inr 5, k)), nl_close = (\<lambda>l k. (None, k))\<rparr>"

definition echo_wheel :: "(echo, unit, unit) timing_wheel" where
  "echo_wheel = \<lparr>tw_Start = id, tw_Stop = id, tw_AfterFunc = (\<lambda>d f k. ((), k)), tw_ScheduleFunc = (\<lambda>s f k. ((), k))\<rparr>"

lemma echo_sys_ok: "sys_ok echo_sys"
  by (auto simp: sys_ok_def echo_sys_def)

definition echo_multi :: Multiplex where
  "echo_multi = \<lparr>mx_fd = 3, mx_wakeEventFd = 4, mx_waitEvents_len = WaitEventsNumber\<rparr>"

definition echo_sub :: loop_core where
  "echo_sub = \<lparr>core_SequenceID = 0, core_eventPool = Map.empty, core_multi = echo_multi,
     core_loopFunctions = [], core_running = 0\<rparr>"

definition echo_main_core :: loop_core where
  "echo_main_core = \<lparr>core_SequenceID = - 1, core_eventPool = [5 \<mapsto> AcceptorEvent], core_multi = echo_multi,
     core_loopFunctions = [], core_running = 0\<rparr>"

definition echo_started :: "(echo, bytes, bytes, unit) server" where
  "echo_started =
     \<lparr>kern = \<lparr>connectTimes = 0\<rparr>,
      trace = [EffCtl 3 1 4 1 None, EffCtl 3 1 5 0 None, EffCtl 3 1 4 1 None, EffCtl 3 3 5 3 None],
      SequenceID = - 1, eventPool = [5 \<mapsto> AcceptorEvent], multi = echo_multi,
      loopFunctions = [], running = 0, options = NewOptions (echo_options ''1'' 1),
      tcpAccept = \<lparr>acc_listener = (), acc_fd = 5,
        acc_event = (NewEvent AcceptorEvent 5)\<lparr>readHandle := Some AcceptHandle, events := EventRead\<rparr>,
        acc_newConnectCallback = True\<rparr>,
      connectPool = Map.empty, nextLoopIndex = 0, current = 0, loops = [echo_main_core, echo_sub],
      conns = Map.empty, conn_loop = (\<lambda>_. 0), next_conn = 0\<rparr>"

definition echo_world :: "echo world" where
  "echo_world = \<lparr>kern = \<lparr>connectTimes = 0\<rparr>, trace = []\<rparr>"

lemma echo_starts: "echo_main echo_lib echo_sys echo_wheel 1 ''1'' 1 () echo_world = Ret echo_started"
  by (simp add: echo_main_def Server_New_def EventLoop_New_def NewEventCtrl_def Multiplex_New_def newWakeFd_def
      sys_epoll_ctl_def echo_sys_def echo_world_def Accept_New_def echo_lib_def setFd_def
      Register_def EventCtrl_addEvent_def Multiplex_AddEvent_def epollCtrl_def NewEvent_def
      GetEpollEventsFromIOEvent_def mask_defs echo_options_def NewOptions_def fill_defaults_fields
      GetNet_def world_of_def core_of_def echo_started_def echo_main_core_def echo_sub_def echo_multi_def
      EPOLL_CTL_ADD_def EPOLL_CTL_MOD_def SetNewConnectCallback_def NumLoops_def Network_def Address_def
      zero_Options_def emit_def Server_RunEvery_def echo_wheel_def Server_Start_def Accept_Listen_def
      EnableReading_def Event_update_def EventCtrl_modifyEvent_def Multiplex_ModifyEvent_def set_mask_def Let_def)

section \<open>One connection\<close>

definition echo_new :: "(bytes, bytes) conn" where
  "echo_new =
     \<lparr>self = 0, event = (NewEvent (ConnEvent 0) 8)\<lparr>readHandle := Some (ReadHandler 0),
        writeHandle := Some (WriteHandler 0), errorHandle := Some (ErrHandler 0),
        closeHandle := Some (CloseHandler 0)\<rparr>,
      temporaryBuf = [], outBuffer = [], inBuffer = [], byteBuffer = None,
      messageCallback = True, connectCloseCallback = True, writeCompleteCallback = True,
      state = Disconnected, conn_fd = 8, peerAddr = ''10.0.0.1:80'', idleTime = 0, activeTime = 0,
      codeImp = BuiltInFrameCodec\<rparr>"

definition echo_open :: "(bytes, bytes) conn" where
  "echo_open = echo_new\<lparr>state := Connected,
     event := (event echo_new)\<lparr>events := EventRead OR EventErr, oldEvents := EventRead\<rparr>\<rparr>"

definition echo_accepted :: "(echo, bytes, bytes, unit) server" where
  "echo_accepted = echo_started
     \<lparr>trace := trace echo_started @ [EffWrite 4 wakeBytes (Inr 1)],
      connectPool := [''10.0.0.1:80'' \<mapsto> 0], conns := [0 \<mapsto> echo_new], conn_loop := (\<lambda>_. 0)(0 := 1),
      next_conn := 1, loops := [echo_main_core, echo_sub\<lparr>core_loopFunctions := [TaskConnected 0]\<rparr>]\<rparr>"

definition echo_taken :: "(echo, bytes, bytes, unit) server" where
  "echo_taken = (switch_to 1 echo_accepted)\<lparr>loopFunctions := []\<rparr>"

definition echo_opened :: "(echo, bytes, bytes, unit) server" where
  "echo_opened = echo_accepted
     \<lparr>kern := \<lparr>connectTimes = 1\<rparr>,
      trace := trace echo_accepted @
        [EffCtl 3 1 8 0 None, EffCtl 3 3 8 3 None, EffCtl 3 3 8 11 None, EffConnect 0],
      SequenceID := 0, eventPool := [8 \<mapsto> ConnEvent 0], multi := echo_multi,
      conns := [0 \<mapsto> echo_open], current := 1\<rparr>"

lemma echo_accepts:
  "server_handler list_bufs echo_sys no_buffers Echo AcceptHandle echo_started = Ret echo_accepted"
  by (simp add: server_handler_def Accept_AcceptHandle_def echo_started_def echo_sys_def
      newConnected_def getOneLoopFromPool_def n_subLoops_def GetCode_def NewOptions_def echo_options_def
      fill_defaults_fields NumLoops_def Network_def Address_def zero_Options_def Connect_New_def setNoDelay_def
      sys_set_nonblock_def list_bufs_def no_buffers_def demo_peer addConnect_def PeerAddr_def
      SetMessageCallback_def SetConnectCloseCallback_def SetWriteCompleteCallback_def put_conn_def
      on_loop_def switch_to_def load_core_def core_of_def RunInLoop_def Multiplex_Wake_def
      sys_write_def length_wakeBytes emit_def echo_accepted_def echo_main_core_def echo_sub_def echo_multi_def
      echo_new_def NewEvent_def Let_def)

lemma echo_connects:
  "server_task echo_lib list_bufs echo_sys Echo (TaskConnected 0) echo_taken = Ret echo_opened"
  by (simp add: server_task_def connected_task_def ConnectedHandle_def Register_def EventCtrl_addEvent_def
      Multiplex_AddEvent_def EnableReading_def EnableErrorEvent_def Event_update_def EventCtrl_modifyEvent_def
      Multiplex_ModifyEvent_def epollCtrl_def sys_epoll_ctl_def echo_sys_def emit_def echo_taken_def
      switch_to_def load_core_def core_of_def echo_accepted_def echo_started_def echo_main_core_def
      echo_sub_def echo_multi_def echo_new_def echo_open_def echo_opened_def NewEvent_def set_mask_def mask_defs
      GetEpollEventsFromIOEvent_def EPOLL_CTL_ADD_def EPOLL_CTL_MOD_def Echo_def HandleEventImpl_def
      AddConnectTimes_def put_conn_def Let_def)

section \<open>Two bytes arrive\<close>

definition echo_answered :: "(bytes, bytes) conn" where
  "echo_answered = echo_open\<lparr>outBuffer := [105],
     event := (event echo_open)\<lparr>events := EventRead OR EventErr OR EventWrite, oldEvents := EventRead OR EventErr\<rparr>\<rparr>"

definition echo_read :: "(echo, bytes, bytes, unit) server" where
  "echo_read = echo_opened
     \<lparr>trace := trace echo_opened @
        [EffRead 8 (Inr [104, 105]), EffMessage 0 [104, 105], EffSubmit 0 [104, 105],
         EffWrite 8 [104, 105] (Inr 1), EffCtl 3 3 8 15 None],
      conns := [0 \<mapsto> echo_answered]\<rparr>"

lemma echo_decodes:
  "ICodec_Decode BuiltInFrameCodec (connect_Conn list_bufs) (echo_open\<lparr>temporaryBuf := [104, 105]\<rparr>) =
     Ret (Inr (Some [104, 105]), echo_open)"
  "ICodec_Decode BuiltInFrameCodec (connect_Conn list_bufs) echo_answered = Ret (Inr None, echo_answered)"
  by code_simp+

lemma echo_delivers:
  "deliver list_bufs echo_sys (server_app Echo) [104, 105] echo_open
     (echo_opened\<lparr>trace := trace echo_opened @ [EffRead 8 (Inr [104, 105])]\<rparr>) =
   Ret (echo_answered, echo_read\<lparr>conns := [0 \<mapsto> echo_open]\<rparr>)"
  by (simp add: deliver_def server_app_def Echo_def HandleEventImpl_def echo_open_def echo_new_def
      BuiltInFrameCodec_Encode_def conn_write_def list_bufs_def sys_write_def
      echo_sys_def enable_writing_def EnableWriting_def Event_update_def EventCtrl_modifyEvent_def
      Multiplex_ModifyEvent_def epollCtrl_def sys_epoll_ctl_def set_mask_def mask_defs NewEvent_def
      GetEpollEventsFromIOEvent_def EPOLL_CTL_MOD_def emit_def echo_answered_def echo_read_def
      echo_opened_def echo_accepted_def echo_started_def echo_multi_def Let_def)

lemma echo_reads:
  "server_handler list_bufs echo_sys no_buffers Echo (ReadHandler 0) echo_opened = Ret echo_read"
proof -
  let ?w = "echo_opened\<lparr>trace := trace echo_opened @ [EffRead 8 (Inr [104, 105])]\<rparr>"
  let ?v = "echo_read\<lparr>conns := [0 \<mapsto> echo_open]\<rparr>"
  have codec: "codeImp (echo_open\<lparr>temporaryBuf := x\<rparr>) = BuiltInFrameCodec"
    "codeImp echo_answered = BuiltInFrameCodec" for x
    by (simp_all add: echo_open_def echo_new_def echo_answered_def)
  have "read_loop list_bufs echo_sys (server_app Echo) (echo_open\<lparr>temporaryBuf := [104, 105]\<rparr>) ?w =
      read_loop list_bufs echo_sys (server_app Echo) echo_answered ?v"
    by (subst read_loop.simps) (simp only: codec echo_decodes(1) echo_delivers bind.bind_lunit option.simps sum.simps prod.case)
  also have "\<dots> = Ret (echo_answered, ?v)"
    by (subst read_loop.simps) (simp only: codec echo_decodes(2) bind.bind_lunit option.simps sum.simps prod.case)
  finally have loop: "read_loop list_bufs echo_sys (server_app Echo)
      (echo_open\<lparr>temporaryBuf := [104, 105]\<rparr>) ?w = Ret (echo_answered, ?v)" .
  have c: "idleTime echo_open = 0" "outBuffer echo_open = []" "conn_fd echo_open = 8"
    "inBuffer echo_answered = []" "temporaryBuf echo_answered = []" "echo_answered\<lparr>inBuffer := []\<rparr> = echo_answered"
    by (simp_all add: echo_open_def echo_new_def echo_answered_def)
  have r: "sys_read echo_sys 8 65535 echo_opened = (Inr [104, 105], ?w)"
    by (simp add: sys_read_def echo_sys_def emit_def)
  have "readEvent list_bufs echo_sys (server_app Echo) echo_open echo_opened = Ret (echo_answered, ?v)"
    using c r loop by (simp add: readEvent_def updateActivityTime_def list_bufs_def del: fun_upd_apply)
  moreover have "conns echo_opened 0 = Some echo_open" "put_conn 0 echo_answered ?v = echo_read"
    by (simp_all add: echo_opened_def put_conn_def echo_read_def)
  ultimately show ?thesis by (simp add: server_handler_def)
qed

definition echo_batch :: "nat \<Rightarrow> task list" where
  "echo_batch = (\<lambda>_. [])(1 := [TaskConnected 0])"

abbreviation echo_step :: "(echo, bytes, bytes, unit) config \<Rightarrow> (echo, bytes, bytes, unit) config \<Rightarrow> bool" where
  "echo_step \<equiv> server_step echo_lib list_bufs echo_sys no_buffers Echo"

lemma echo_steps:
  "echo_step (echo_started, \<lambda>_. []) (echo_accepted, \<lambda>_. [])"
  "echo_step (echo_accepted, \<lambda>_. []) (switch_to 1 echo_accepted, \<lambda>_. [])"
  "echo_step (switch_to 1 echo_accepted, \<lambda>_. []) (echo_taken, echo_batch)"
  "echo_step (echo_taken, echo_batch) (echo_opened, \<lambda>_. [])"
  "echo_step (echo_opened, \<lambda>_. []) (echo_read, \<lambda>_. [])"
proof -
  let ?w1 = "switch_to 1 echo_accepted"
  have w1: "current ?w1 = 1" "loopFunctions ?w1 = [TaskConnected 0]"
    by (simp_all add: switch_to_def load_core_def echo_accepted_def echo_started_def echo_sub_def)
  show "echo_step (echo_started, \<lambda>_. []) (echo_accepted, \<lambda>_. [])"
  proof (rule server_step.event)
    show "eventPool echo_started 5 = Some AcceptorEvent" by (simp add: echo_started_def)
    show "server_deref AcceptorEvent echo_started = Some (acc_event (tcpAccept echo_started))"
      by (simp add: server_deref_def)
    show "HandleEvent (acc_event (tcpAccept echo_started)) EventRead = Some AcceptHandle"
      by (simp add: HandleEvent_def mask_defs echo_started_def)
    show "AcceptorEvent = AcceptorEvent \<longrightarrow> accepts_unused echo_sys echo_started"
      by (auto simp: accepts_unused_def unused_def echo_sys_def echo_started_def core_at_def core_of_def
          echo_main_core_def echo_sub_def echo_multi_def NewEvent_def less_Suc_eq ctls_def)
  qed (rule echo_accepts)
  show "echo_step (echo_accepted, \<lambda>_. []) (?w1, \<lambda>_. [])"
    by (rule server_step.switch) (simp add: echo_accepted_def)
  show "echo_step (?w1, \<lambda>_. []) (echo_taken, echo_batch)"
    using server_step.swap [of "\<lambda>_. []" ?w1] w1 by (simp add: echo_taken_def echo_batch_def)
  have "echo_step (echo_taken, echo_batch) (echo_opened, echo_batch(1 := []))"
    using server_step.execute [of echo_batch echo_taken "TaskConnected 0"
        "[]" echo_lib list_bufs echo_sys Echo echo_opened] w1(1) echo_connects
    by (simp add: echo_taken_def echo_batch_def)
  moreover have "echo_batch(1 := []) = (\<lambda>_. [])" by (simp add: fun_eq_iff echo_batch_def)
  ultimately show "echo_step (echo_taken, echo_batch) (echo_opened, \<lambda>_. [])" by (simp only:)
  show "echo_step (echo_opened, \<lambda>_. []) (echo_read, \<lambda>_. [])"
  proof (rule server_step.event)
    show "eventPool echo_opened 8 = Some (ConnEvent 0)" by (simp add: echo_opened_def)
    show "server_deref (ConnEvent 0) echo_opened = Some (event echo_open)"
      by (simp add: server_deref_def echo_opened_def)
    show "HandleEvent (event echo_open) EventRead = Some (ReadHandler 0)"
      by (simp add: HandleEvent_def echo_open_def echo_new_def mask_defs)
    show "ConnEvent 0 = AcceptorEvent \<longrightarrow> accepts_unused echo_sys echo_opened" by simp
  qed (rule echo_reads)
qed

lemma echo_run:
  "(direct_step echo_lib list_bufs echo_sys no_buffers Echo)\<^sup>*\<^sup>* (echo_started, \<lambda>_. []) (echo_read, \<lambda>_. [])"
proof -
  note D = direct_step_def no_writes_def tasks_at_def core_at_def core_of_def echo_accepted_def
    echo_started_def echo_main_core_def echo_sub_def less_Suc_eq
  let ?D = "direct_step echo_lib list_bufs echo_sys no_buffers Echo"
  have "?D (echo_started, \<lambda>_. []) (echo_accepted, \<lambda>_. [])"
    using echo_steps(1) by (auto simp: D)
  moreover have "?D (echo_accepted, \<lambda>_. []) (switch_to 1 echo_accepted, \<lambda>_. [])"
    using echo_steps(2) by (auto simp: D switch_to_def load_core_def)
  moreover have "?D (switch_to 1 echo_accepted, \<lambda>_. []) (echo_taken, echo_batch)"
    using echo_steps(3) by (auto simp: D echo_taken_def echo_batch_def switch_to_def load_core_def)
  moreover have "?D (echo_taken, echo_batch) (echo_opened, \<lambda>_. [])"
    using echo_steps(4) by (auto simp: D echo_opened_def)
  moreover have "?D (echo_opened, \<lambda>_. []) (echo_read, \<lambda>_. [])"
    using echo_steps(5) by (auto simp: D echo_opened_def echo_read_def)
  ultimately show ?thesis by (meson rtranclp.rtrancl_into_rtrancl rtranclp.rtrancl_refl)
qed

lemma echo_read_fields:
  "conns echo_read 0 = Some echo_answered" "state echo_answered = Connected" "conn_fd echo_answered = 8"
  "outBuffer echo_answered = [105]" "received 8 (trace echo_read) = [104, 105]" "sent 8 (trace echo_read) = [104]"
  by (simp_all add: echo_read_def echo_opened_def echo_accepted_def echo_started_def echo_answered_def
      echo_open_def echo_new_def)

end
