(* ===== verification/EchoServer.thy ===== *)
theory EchoServer
  imports EchoDemo
begin

text \<open>The echo example as a whole: what \<open>main\<close> starts is a server the theorems on whole servers speak of.\<close>

lemma echo_codec: "codec_of (echo_options port n) = BuiltInFrameCodec"
  by (simp add: codec_of_def GetCode_def NewOptions_def fill_defaults_fields echo_options_def
      Network_def Address_def NumLoops_def zero_Options_def)

section \<open>Echoing\<close>

text \<open>A server without connections has nothing to write.\<close>

lemma no_conn_no_writes: "server_inv R S H cd (w, b) \<Longrightarrow> next_conn w = 0 \<Longrightarrow> no_writes (w, b)"
  by (simp add: server_inv_def no_writes_def tasks_placed_def) fastforce

lemma echo_main_direct:
  fixes s :: "('z echo_scheme, 'rb, 'bb, 'l) server"
  assumes w: "trace w = []" and cpus: "0 < numCPU"
    and m: "echo_main N S T numCPU port n f w = Ret s"
  shows "direct_reachable N R S P Echo (echo_options port n) (s, \<lambda>_. [])"
proof -
  obtain s0 :: "('z echo_scheme, 'rb, 'bb, 'l) server" and w1 where s0: "Server_New N S numCPU (echo_options port n) w = (Inr s0, w1)"
    using m by (auto simp: echo_main_def split: prod.splits sum.splits)
  obtain t k where t: "Server_RunEvery T (20 * 10 ^ 9) f s0 = (t, s0\<lparr>kern := k\<rparr>)"
    by (cases "tw_ScheduleFunc T (EveryScheduler_Next (20 * 10 ^ 9)) f (kern s0)")
       (simp add: Server_RunEvery_def)
  have s: "Server_Start (tw_Start T) S (s0\<lparr>kern := k\<rparr>) = Ret s" using m s0 t by (simp add: echo_main_def)
  have cur: "current s0 = 0" "next_conn s0 = 0"
    using s0 by (auto simp: Server_New_def Let_def split: prod.splits sum.splits)
  have ns: "next_conn s = 0"
    using s cur by (auto simp: Server_Start_def Accept_Listen_def EnableReading_def emit_def Let_def
        dest!: Event_update_world split: prod.splits option.splits)
  let ?D = "direct_reachable N R S P Echo (echo_options port n)"
  have inv0: "server_inv R S Echo (codec_of (echo_options port n)) (s0, \<lambda>_. [])"
    using created_inv [OF w cpus s0] .
  have "?D (s0, \<lambda>_. [])" by (rule direct_reachable.created [OF w cpus s0])
  then have "?D (s0\<lparr>kern := k\<rparr>, \<lambda>_. [])"
    by (rule direct_more)
       (rule server_step.env, rule no_conn_no_writes [OF env_inv [OF inv0]], simp add: cur)
  then show ?thesis
  proof (rule direct_more)
    show "server_step N R S P Echo (s0\<lparr>kern := k\<rparr>, \<lambda>_. []) (s, \<lambda>_. [])"
      by (rule server_step.start [OF _ s]) (simp add: cur)
    show "no_writes (s, \<lambda>_. [])"
      using no_conn_no_writes [OF start_inv [OF env_inv [OF inv0] s] ns] .
  qed
qed

lemma Echo_answers: "answering Some (Echo :: ('rb, 'bb, ('z echo_scheme, 'rb, 'bb, 'l) server) handle_event)"
  by (simp add: answering_def Echo_def)

lemma answer_BuiltIn: "answer BuiltInFrameCodec Some = id"
  by (simp add: fun_eq_iff answer_def BuiltInFrameCodec_Encode_def)

text \<open>C2: the echo server echoes: whatever happens after \<open>main\<close> has started it, as long as nothing is
  written from outside, what has been sent on the descriptor of an open connection, followed by
  what is in its out buffer, is exactly what has been received on it.\<close>

theorem echo_echoes:
  fixes s :: "('z echo_scheme, 'rb, 'bb, 'l) server"
  assumes "bufs_ok R cont" and "sys_ok S" and "trace w0 = []" and "0 < numCPU"
    and "echo_main N S T numCPU port n f w0 = Ret s"
    and "(direct_step N R S P Echo)\<^sup>*\<^sup>* (s, \<lambda>_. []) (w, b)"
    and "conns w i = Some c" and "state c \<noteq> Disconnected"
  shows "sent (conn_fd c) (trace w) @ cont (outBuffer c) = received (conn_fd c) (trace w)"
proof -
  have d: "direct_reachable N R S P Echo (echo_options port n) (w, b)"
    using direct_steps [OF assms(6) echo_main_direct [OF assms(3-5)]] .
  show ?thesis
    using server_answers_eager [OF assms(1,2) Echo_ok Echo_answers _ _ d assms(7,8)]
    by (simp add: echo_codec answer_BuiltIn)
qed

theorem echo_echoes_witness: "[104] @ [105] = received 8 (trace echo_read)"
  using echo_echoes [OF list_bufs_ok echo_sys_ok _ _ echo_starts echo_run echo_read_fields(1)]
  by (simp add: echo_read_fields echo_world_def)

end
