(* ===== verification/Kqueue.thy ===== *)
theory Kqueue
  imports Event
begin

unbundle bit_operations_syntax

text \<open>
  \<open>net/multiplex/kqueue.go\<close>, the BSD build of the multiplexer. Where epoll is told a new mask,
  kqueue is told the difference: \<open>kEvents\<close> turns an old and a new mask into filters to add and to
  delete, which are collected in \<open>changes\<close> and handed over by the next \<open>WaitEvent\<close>. The calls of
  \<open>golang.org/x/sys/unix\<close> are the record \<open>kq_sys\<close>. What kqueue(2) documents of a
  change list is the hypothesis \<open>kq_open\<close>.
\<close>

section \<open>The kernel interface\<close>

datatype kfilter = EVFILT_READ | EVFILT_WRITE | EVFILT_USER

definition EV_ADD :: "16 word" where "EV_ADD = 0x1"
definition EV_DELETE :: "16 word" where "EV_DELETE = 0x2"
definition EV_CLEAR :: "16 word" where "EV_CLEAR = 0x20"
definition EV_ERROR :: "16 word" where "EV_ERROR = 0x4000"
definition EV_EOF :: "16 word" where "EV_EOF = 0x8000"
definition NOTE_TRIGGER :: "32 word" where "NOTE_TRIGGER = 0x1000000"

lemmas ev_defs = EV_ADD_def EV_DELETE_def EV_CLEAR_def EV_ERROR_def EV_EOF_def

record Kevent =
  kv_Ident :: "64 word"
  kv_Filter :: kfilter
  kv_Flags :: "16 word"
  kv_Fflags :: "32 word"

text \<open>\<open>kq_kevent fd changes n\<close> reports at most \<open>n\<close> events; \<open>n\<close> is 0 for a nil slice.\<close>

record 'k kq_sys =
  kq_kqueue :: "'k \<Rightarrow> (errno + int) \<times> 'k"
  kq_kevent :: "int \<Rightarrow> Kevent list \<Rightarrow> nat \<Rightarrow> int \<Rightarrow> 'k \<Rightarrow> (errno + Kevent list) \<times> 'k"
  kq_close :: "int \<Rightarrow> 'k \<Rightarrow> 'k"

section \<open>The multiplexer\<close>

record Kqueue =
  kq_fd :: int
  kq_waitEvents_len :: nat
  kq_changes :: "Kevent list"

record 'k kq_world =
  kq_kern :: 'k
  kq_multi :: Kqueue

definition kevent_of :: "int \<Rightarrow> 16 word \<Rightarrow> kfilter \<Rightarrow> Kevent" where
  "kevent_of fd flags filt = \<lparr>kv_Ident = word_of_int fd, kv_Filter = filt, kv_Flags = flags, kv_Fflags = 0\<rparr>"

text \<open>No timeout is \<open>-1\<close> here.\<close>

definition Kqueue_New :: "'k kq_sys \<Rightarrow> 'k \<Rightarrow> (errno + Kqueue) \<times> 'k" where
  "Kqueue_New S k = (case kq_kqueue S k of
     (Inl err, k) \<Rightarrow> (Inl err, k)
   | (Inr fd, k) \<Rightarrow>
       (case kq_kevent S fd [kevent_of 0 (EV_ADD OR EV_CLEAR) EVFILT_USER] 0 (- 1) k of
          (Inl err, k) \<Rightarrow> (Inl err, k)
        | (Inr _, k) \<Rightarrow>
            (Inr \<lparr>kq_fd = fd, kq_waitEvents_len = WaitEventsNumber, kq_changes = []\<rparr>, k)))"

definition Kqueue_Close :: "'k kq_sys \<Rightarrow> ('k, 'z) kq_world_scheme \<Rightarrow> ('k, 'z) kq_world_scheme" where
  "Kqueue_Close S w = w\<lparr>kq_kern := kq_close S (kq_fd (kq_multi w)) (kq_kern w)\<rparr>"

definition kEvents :: "EventType \<Rightarrow> EventType \<Rightarrow> int \<Rightarrow> Kevent list" where
  "kEvents old new fd =
     (if new AND EventRead \<noteq> 0
      then (if old AND EventRead = 0 then [kevent_of fd EV_ADD EVFILT_READ] else [])
      else (if old AND EventRead \<noteq> 0 then [kevent_of fd EV_DELETE EVFILT_READ] else [])) @
     (if new AND EventWrite \<noteq> 0
      then (if old AND EventWrite = 0 then [kevent_of fd EV_ADD EVFILT_WRITE] else [])
      else (if old AND EventWrite \<noteq> 0 then [kevent_of fd EV_DELETE EVFILT_WRITE] else []))"

definition kq_append :: "Kevent list \<Rightarrow> Kqueue \<Rightarrow> Kqueue" where
  "kq_append ks m = m\<lparr>kq_changes := kq_changes m @ ks\<rparr>"

definition Kqueue_AddEvent :: "int \<Rightarrow> EventType \<Rightarrow> EventType \<Rightarrow> Kqueue \<Rightarrow> Kqueue" where
  "Kqueue_AddEvent fd eventState oldEventState m = kq_append (kEvents EventNone eventState fd) m"

definition Kqueue_RemoveEvent :: "int \<Rightarrow> EventType \<Rightarrow> Kqueue \<Rightarrow> Kqueue" where
  "Kqueue_RemoveEvent fd oldEventState m = kq_append (kEvents oldEventState EventNone fd) m"

definition Kqueue_ModifyEvent :: "int \<Rightarrow> EventType \<Rightarrow> EventType \<Rightarrow> Kqueue \<Rightarrow> Kqueue" where
  "Kqueue_ModifyEvent fd eventState oldEventState m = kq_append (kEvents oldEventState eventState fd) m"

text \<open>The mask for one reported event.\<close>

definition ioevent_of_kevent :: "Kevent \<Rightarrow> EventType" where
  "ioevent_of_kevent ke =
     (let r0 = 0;
          r1 = (if kv_Flags ke AND EV_ERROR \<noteq> 0 \<or> kv_Flags ke AND EV_EOF \<noteq> 0 then r0 OR EventErr else r0);
          r2 = (if kv_Filter ke = EVFILT_WRITE then r1 OR EventWrite else r1)
      in if kv_Filter ke = EVFILT_READ then r2 OR EventRead else r2)"

text \<open>The loop over the reported events; the flag is \<open>wake\<close>.\<close>

fun kq_wait_loop ::
  "(int \<Rightarrow> EventType \<Rightarrow> ('k, 'z) kq_world_scheme \<Rightarrow> ('k, 'z) kq_world_scheme go) \<Rightarrow>
     Kevent list \<Rightarrow> bool \<Rightarrow> ('k, 'z) kq_world_scheme \<Rightarrow> (bool \<times> ('k, 'z) kq_world_scheme) go" where
  "kq_wait_loop h [] wake w = Ret (wake, w)"
| "kq_wait_loop h (ke # kes) wake w =
     (let fd = sint (kv_Ident ke)
      in if fd \<noteq> 0 then do {
           w \<leftarrow> h fd (ioevent_of_kevent ke) w;
           kq_wait_loop h kes wake w
         } else kq_wait_loop h kes True w)"

text \<open>
  After \<open>EINTR\<close> the count is \<open>-1\<close>, so there is nothing to handle, but \<open>changes\<close> is cleared; after
  any other error it is kept for the next call.
\<close>

definition Kqueue_WaitEvent ::
  "'k kq_sys \<Rightarrow> (int \<Rightarrow> EventType \<Rightarrow> ('k, 'z) kq_world_scheme \<Rightarrow> ('k, 'z) kq_world_scheme go) \<Rightarrow>
     int \<Rightarrow> ('k, 'z) kq_world_scheme \<Rightarrow> ('k, 'z) kq_world_scheme go" where
  "Kqueue_WaitEvent S h timeMs w =
     (let m = kq_multi w; len = kq_waitEvents_len m
      in case kq_kevent S (kq_fd m) (kq_changes m) len
                  (if timeMs \<ge> 0 then timeMs div 1000 else - (- timeMs div 1000)) (kq_kern w) of
           (Inl err, k) \<Rightarrow>
             (if err \<noteq> EINTR then Ret (w\<lparr>kq_kern := k\<rparr>)
              else Ret (w\<lparr>kq_kern := k, kq_multi := m\<lparr>kq_changes := []\<rparr>\<rparr>))
         | (Inr kes, k) \<Rightarrow> do {
             (wake, w) \<leftarrow> kq_wait_loop h kes False (w\<lparr>kq_kern := k, kq_multi := m\<lparr>kq_changes := []\<rparr>\<rparr>);
             w \<leftarrow> (if wake then h (- 1) 0 w else Ret w);
             Ret (if length kes = len
                  then w\<lparr>kq_multi := (kq_multi w)\<lparr>kq_waitEvents_len := length kes * 2\<rparr>\<rparr> else w)
           })"

definition Kqueue_Wake :: "'k kq_sys \<Rightarrow> ('k, 'z) kq_world_scheme \<Rightarrow> errno option \<times> ('k, 'z) kq_world_scheme" where
  "Kqueue_Wake S w =
     (case kq_kevent S (kq_fd (kq_multi w))
             [(kevent_of 0 0 EVFILT_USER)\<lparr>kv_Fflags := NOTE_TRIGGER\<rparr>] 0 (- 1) (kq_kern w) of
        (Inl err, k) \<Rightarrow> (Some err, w\<lparr>kq_kern := k\<rparr>)
      | (Inr _, k) \<Rightarrow> (None, w\<lparr>kq_kern := k\<rparr>))"

section \<open>Changes applied\<close>

text \<open>
  The kernel takes a change list one by one: \<open>K\<close> is what it does with one change, to a state that
  watches the set \<open>watched\<close> of descriptors with filters; a failing change is reported among the
  events, with \<open>EV_ERROR\<close> as its flags. \<open>kq_open K watched fd\<close> is what kqueue(2) documents for a
  descriptor while it is open: filters can be added, and deleted when they are there.
\<close>

type_synonym filters = "(64 word \<times> kfilter) set"

fun kq_apply1 :: "(Kevent \<Rightarrow> 'f \<Rightarrow> errno option \<times> 'f) \<Rightarrow> Kevent \<Rightarrow> 'f \<times> Kevent list \<Rightarrow> 'f \<times> Kevent list" where
  "kq_apply1 K ke (F, errs) = (case K ke F of
     (None, F) \<Rightarrow> (F, errs)
   | (Some _, F) \<Rightarrow> (F, errs @ [ke\<lparr>kv_Flags := EV_ERROR\<rparr>]))"

definition kq_apply :: "(Kevent \<Rightarrow> 'f \<Rightarrow> errno option \<times> 'f) \<Rightarrow> Kevent list \<Rightarrow> 'f \<times> Kevent list \<Rightarrow> 'f \<times> Kevent list" where
  "kq_apply K kes s = fold (kq_apply1 K) kes s"

definition kq_open :: "(Kevent \<Rightarrow> 'f \<Rightarrow> errno option \<times> 'f) \<Rightarrow> ('f \<Rightarrow> filters) \<Rightarrow> int \<Rightarrow> bool" where
  "kq_open K watched fd \<longleftrightarrow> (\<forall>F. \<forall>filt \<in> {EVFILT_READ, EVFILT_WRITE}.
     (\<exists>F'. K (kevent_of fd EV_ADD filt) F = (None, F') \<and> watched F' = insert (word_of_int fd, filt) (watched F)) \<and>
     ((word_of_int fd, filt) \<in> watched F \<longrightarrow>
       (\<exists>F'. K (kevent_of fd EV_DELETE filt) F = (None, F') \<and> watched F' = watched F - {(word_of_int fd, filt)})))"

lemma kq_apply_append [simp]: "kq_apply K (xs @ ys) s = kq_apply K ys (kq_apply K xs s)"
  by (simp add: kq_apply_def)

definition watches :: "int \<Rightarrow> EventType \<Rightarrow> filters \<Rightarrow> bool" where
  "watches fd want F \<longleftrightarrow>
     ((word_of_int fd, EVFILT_READ) \<in> F \<longleftrightarrow> want AND EventRead \<noteq> 0) \<and>
     ((word_of_int fd, EVFILT_WRITE) \<in> F \<longleftrightarrow> want AND EventWrite \<noteq> 0)"

definition same_filters :: "int \<Rightarrow> filters \<Rightarrow> filters \<Rightarrow> bool" where
  "same_filters fd F F' \<longleftrightarrow> (\<forall>x. fst x \<noteq> word_of_int fd \<or> snd x = EVFILT_USER \<longrightarrow> (x \<in> F' \<longleftrightarrow> x \<in> F))"

text \<open>The difference of two masks turns what one asks for into what the other asks for.\<close>

lemma kEvents_half:
  assumes "kq_open K watched fd" "filt \<in> {EVFILT_READ, EVFILT_WRITE}" "(word_of_int fd, filt) \<in> watched F \<longleftrightarrow> old"
  shows "\<exists>F'. kq_apply K (if new then (if \<not> old then [kevent_of fd EV_ADD filt] else [])
      else (if old then [kevent_of fd EV_DELETE filt] else [])) (F, errs) = (F', errs) \<and>
    watched F' = watched F - {(word_of_int fd, filt)} \<union> (if new then {(word_of_int fd, filt)} else {})"
proof -
  obtain A where A: "K (kevent_of fd EV_ADD filt) F = (None, A)" "watched A = insert (word_of_int fd, filt) (watched F)"
    using assms(1,2) unfolding kq_open_def by meson
  have "old \<Longrightarrow> \<exists>D. K (kevent_of fd EV_DELETE filt) F = (None, D) \<and> watched D = watched F - {(word_of_int fd, filt)}"
    using assms unfolding kq_open_def by meson
  with A assms(3) show ?thesis by (cases old; cases new) (auto simp: kq_apply_def)
qed

lemma kEvents_apply:
  assumes "kq_open K watched fd" "watches fd old (watched F)"
  shows "\<exists>F'. kq_apply K (kEvents old new fd) (F, errs) = (F', errs) \<and> watches fd new (watched F') \<and>
    same_filters fd (watched F) (watched F')"
proof -
  let ?r = "(word_of_int fd :: 64 word, EVFILT_READ)" and ?w = "(word_of_int fd :: 64 word, EVFILT_WRITE)"
  from kEvents_half [OF assms(1), of EVFILT_READ F "old AND EventRead \<noteq> 0" "new AND EventRead \<noteq> 0" errs] assms(2)
  obtain G where G: "kq_apply K (if new AND EventRead \<noteq> 0 then (if \<not> old AND EventRead \<noteq> 0 then [kevent_of fd EV_ADD EVFILT_READ] else [])
      else (if old AND EventRead \<noteq> 0 then [kevent_of fd EV_DELETE EVFILT_READ] else [])) (F, errs) = (G, errs)"
    "watched G = watched F - {?r} \<union> (if new AND EventRead \<noteq> 0 then {?r} else {})"
    by (auto simp: watches_def)
  then have "?w \<in> watched G \<longleftrightarrow> old AND EventWrite \<noteq> 0" using assms(2) by (auto simp: watches_def)
  from kEvents_half [OF assms(1) _ this, of "new AND EventWrite \<noteq> 0" errs]
  obtain H where H: "kq_apply K (if new AND EventWrite \<noteq> 0 then (if \<not> old AND EventWrite \<noteq> 0 then [kevent_of fd EV_ADD EVFILT_WRITE] else [])
      else (if old AND EventWrite \<noteq> 0 then [kevent_of fd EV_DELETE EVFILT_WRITE] else [])) (G, errs) = (H, errs)"
    "watched H = watched G - {?w} \<union> (if new AND EventWrite \<noteq> 0 then {?w} else {})"
    by auto
  have "kq_apply K (kEvents old new fd) (F, errs) = (H, errs)"
    using G(1) H(1) by (simp only: kEvents_def kq_apply_append not_not)
  moreover have "watches fd new (watched H)" using G(2) H(2) by (auto simp: watches_def)
  moreover have "same_filters fd (watched F) (watched H)" using G(2) H(2) by (auto simp: same_filters_def)
  ultimately show ?thesis by blast
qed

text \<open>
  A change of an event's mask as \<open>EnableReading\<close> and the other operations make it, on this
  multiplexer.
\<close>

fun kq_toggle :: "EventType \<times> bool \<Rightarrow> Event \<times> Kqueue \<Rightarrow> Event \<times> Kqueue" where
  "kq_toggle (bits, isEnable) (e, m) =
     (let e = set_mask bits isEnable e
      in (e, Kqueue_ModifyEvent (eventFd e) (events e) (oldEvents e) m))"

lemma same_filters_trans: "same_filters fd F G \<Longrightarrow> same_filters fd G H \<Longrightarrow> same_filters fd F H"
  by (auto simp: same_filters_def)

lemma kq_toggle_apply:
  assumes "kq_open K watched (eventFd e)" "kq_apply K (kq_changes m) s = (F, errs)"
    and "watches (eventFd e) (events e) (watched F)" and "fold kq_toggle ops (e, m) = (e', m')"
  shows "\<exists>F'. kq_apply K (kq_changes m') s = (F', errs) \<and> eventFd e' = eventFd e \<and>
    watches (eventFd e) (events e') (watched F') \<and> same_filters (eventFd e) (watched F) (watched F')"
  using assms
proof (induction ops arbitrary: e m F)
  case Nil
  then show ?case by (auto simp: same_filters_def)
next
  case (Cons op ops)
  obtain bits on where op: "op = (bits, on)" by (cases op)
  let ?e = "set_mask bits on e"
  let ?m = "Kqueue_ModifyEvent (eventFd ?e) (events ?e) (oldEvents ?e) m"
  obtain G where G: "kq_apply K (kEvents (events e) (events ?e) (eventFd e)) (F, errs) = (G, errs)"
    "watches (eventFd e) (events ?e) (watched G)" "same_filters (eventFd e) (watched F) (watched G)"
    using kEvents_apply [OF Cons.prems(1,3)] by blast
  then have "kq_apply K (kq_changes ?m) s = (G, errs)"
    using Cons.prems(2) by (simp add: Kqueue_ModifyEvent_def kq_append_def)
  with Cons.IH [of ?e ?m G] G Cons.prems(1,4) op show ?case by (auto simp: Let_def intro: same_filters_trans)
qed

section \<open>The handler calls of one \<open>WaitEvent\<close>\<close>

fun kq_run_calls ::
  "(int \<Rightarrow> EventType \<Rightarrow> ('k, 'z) kq_world_scheme \<Rightarrow> ('k, 'z) kq_world_scheme go) \<Rightarrow>
     (int \<times> EventType) list \<Rightarrow> ('k, 'z) kq_world_scheme \<Rightarrow> ('k, 'z) kq_world_scheme go" where
  "kq_run_calls h [] w = Ret w"
| "kq_run_calls h ((fd, ev) # cs) w = do { w \<leftarrow> h fd ev w; kq_run_calls h cs w }"

definition kq_calls :: "Kevent list \<Rightarrow> (int \<times> EventType) list" where
  "kq_calls kes =
     map (\<lambda>ke. (sint (kv_Ident ke), ioevent_of_kevent ke)) (filter (\<lambda>ke. kv_Ident ke \<noteq> 0) kes)"

lemma kq_run_calls_append:
  "kq_run_calls h (xs @ ys) w = do { w \<leftarrow> kq_run_calls h xs w; kq_run_calls h ys w }"
  by (induction h xs w rule: kq_run_calls.induct) (auto split: bind_splits)

lemma kq_wait_loop_calls:
  "kq_wait_loop h kes wake w =
     do { w \<leftarrow> kq_run_calls h (kq_calls kes) w; Ret (wake \<or> list_ex (\<lambda>ke. kv_Ident ke = 0) kes, w) }"
proof (induction h kes wake w rule: kq_wait_loop.induct)
  case (2 h ke kes wake w)
  have "sint (kv_Ident ke) = 0 \<longleftrightarrow> kv_Ident ke = 0"
    by (metis signed_0 signed_word_eqI)
  with 2 show ?case by (auto simp: kq_calls_def Let_def split: bind_splits)
qed (simp add: kq_calls_def)

section \<open>Masks\<close>

lemma ioevent_of_kevent_bits:
  "ioevent_of_kevent ke AND EventClose = 0"
  "ioevent_of_kevent ke AND EventErr \<noteq> 0 \<longleftrightarrow> kv_Flags ke AND EV_ERROR \<noteq> 0 \<or> kv_Flags ke AND EV_EOF \<noteq> 0"
  by (cases "kv_Filter ke"; simp add: ioevent_of_kevent_def mask_defs Let_def)+

lemma kevent_error_handler:
  "kv_Flags ke AND EV_ERROR \<noteq> 0 \<or> kv_Flags ke AND EV_EOF \<noteq> 0 \<Longrightarrow>
     HandleEvent e (ioevent_of_kevent ke) = errorHandle e"
  using ioevent_of_kevent_bits [of ke] by (simp add: HandleEvent_def EventNone_def)

end
