(* ===== verification/KqueueClaims.thy ===== *)
theory KqueueClaims
  imports Kqueue
begin

unbundle bit_operations_syntax

text \<open>
  Properties of the kqueue multiplexer: that the collected differences amount to the masks of the
  events, which handler calls one \<open>WaitEvent\<close> makes, and where it behaves unlike epoll.
\<close>

text \<open>A kernel that reports what it is scripted to, and a handler that does nothing.\<close>

definition kq_script :: "Kevent list kq_sys" where
  "kq_script =
     \<lparr>kq_kqueue = (\<lambda>k. (Inr 3, k)), kq_kevent = (\<lambda>fd cs n t k. (Inr (take n k), [])),
      kq_close = (\<lambda>fd k. k)\<rparr>"

definition a_queue :: Kqueue where
  "a_queue = \<lparr>kq_fd = 3, kq_waitEvents_len = WaitEventsNumber, kq_changes = []\<rparr>"

text \<open>C23: the differences amount to the masks: when an event is added and its mask changed any number
  of times while its descriptor is open, the collected changes make the kernel watch exactly what
  the last mask asks for, whatever it watches for other descriptors stays, and no change fails.\<close>

theorem kq_tracks_masks:
  assumes "kq_open K watched (eventFd e)"
    and "kq_apply K (kq_changes m) s = (F, errs)" and "watches (eventFd e) EventNone (watched F)"
    and "fold kq_toggle ops (e, Kqueue_AddEvent (eventFd e) (events e) (oldEvents e) m) = (e', m')"
  shows "\<exists>F'. kq_apply K (kq_changes m') s = (F', errs) \<and> watches (eventFd e) (events e') (watched F') \<and>
    same_filters (eventFd e) (watched F) (watched F')"
proof -
  obtain G where G: "kq_apply K (kEvents EventNone (events e) (eventFd e)) (F, errs) = (G, errs)"
    "watches (eventFd e) (events e) (watched G)" "same_filters (eventFd e) (watched F) (watched G)"
    using kEvents_apply [OF assms(1,3)] by blast
  then have "kq_apply K (kq_changes (Kqueue_AddEvent (eventFd e) (events e) (oldEvents e) m)) s = (G, errs)"
    using assms(2) by (simp add: Kqueue_AddEvent_def kq_append_def)
  from kq_toggle_apply [OF assms(1) this G(2) assms(4)] G(3) show ?thesis by (auto intro: same_filters_trans)
qed

text \<open>A kernel that keeps the set itself, and fails to delete what is not in it.\<close>

definition set_kernel :: "Kevent \<Rightarrow> filters \<Rightarrow> errno option \<times> filters" where
  "set_kernel ke F =
     (let x = (kv_Ident ke, kv_Filter ke)
      in if kv_Flags ke = EV_DELETE then (if x \<in> F then (None, F - {x}) else (Some (Errno 2), F))
         else (None, insert x F))"

lemma set_kernel_open: "kq_open set_kernel (\<lambda>F. F) fd"
  by (auto simp: kq_open_def set_kernel_def kevent_of_def ev_defs Let_def)

theorem kq_tracks_masks_witness:
  "\<exists>F'. kq_apply set_kernel (kq_changes (snd (fold kq_toggle [(EventRead, True), (EventErr, True), (EventWrite, True),
       (EventRead, False)] (NewEvent (ConnEvent 0) 7, Kqueue_AddEvent 7 0 0 a_queue)))) ({(0, EVFILT_USER)}, []) =
     (F', []) \<and> (7, EVFILT_WRITE) \<in> F' \<and> (7, EVFILT_READ) \<notin> F' \<and> (0, EVFILT_USER) \<in> F'"
proof -
  let ?e = "NewEvent (ConnEvent 0) 7"
  let ?ops = "[(EventRead, True), (EventErr, True), (EventWrite, True), (EventRead, False)]"
  obtain e' m' where em: "fold kq_toggle ?ops (?e, Kqueue_AddEvent 7 0 0 a_queue) = (e', m')" by fastforce
  have e: "eventFd ?e = 7" "events ?e = 0" "oldEvents ?e = 0" by (simp_all add: NewEvent_def)
  have "events e' = (((0 OR EventRead) OR EventErr) OR EventWrite) AND NOT EventRead"
    using em by (auto simp: e(2) events_set_mask Let_def)
  then have bits: "events e' AND EventRead = 0" "events e' AND EventWrite \<noteq> 0" by (simp_all add: mask_defs)
  have "watches 7 EventNone {(0, EVFILT_USER)}" by (simp add: watches_def EventNone_def)
  moreover have "kq_apply set_kernel (kq_changes a_queue) ({(0, EVFILT_USER)}, []) = ({(0, EVFILT_USER)}, [])"
    by (simp add: a_queue_def kq_apply_def)
  ultimately obtain F' where "kq_apply set_kernel (kq_changes m') ({(0, EVFILT_USER)}, []) = (F', [])"
    "watches 7 (events e') F'" "same_filters 7 {(0, EVFILT_USER)} F'"
    using kq_tracks_masks [of set_kernel "\<lambda>F. F" ?e a_queue _ _ _ ?ops e' m', unfolded e] em set_kernel_open by blast
  with bits em show ?thesis by (auto simp: watches_def same_filters_def)
qed

text \<open>C24: one \<open>WaitEvent\<close> hands the collected changes to the kernel once and calls the handler once for
  every reported event, in order and with its mask, and once more with \<open>-1\<close> when there was a
  wake-up (an event of identifier 0); the buffer is doubled when it was full.\<close>

theorem kq_wait_calls:
  assumes "kq_kevent S (kq_fd (kq_multi w)) (kq_changes (kq_multi w)) (kq_waitEvents_len (kq_multi w))
      (timeMs div 1000) (kq_kern w) = (Inr kes, k)" and "0 \<le> timeMs"
  shows "Kqueue_WaitEvent S h timeMs w = do {
      v \<leftarrow> kq_run_calls h (kq_calls kes @ (if list_ex (\<lambda>ke. kv_Ident ke = 0) kes then [(- 1, 0)] else []))
             (w\<lparr>kq_kern := k, kq_multi := (kq_multi w)\<lparr>kq_changes := []\<rparr>\<rparr>);
      Ret (if length kes = kq_waitEvents_len (kq_multi w)
           then v\<lparr>kq_multi := (kq_multi v)\<lparr>kq_waitEvents_len := length kes * 2\<rparr>\<rparr> else v)
    }"
  using assms by (auto simp: Kqueue_WaitEvent_def kq_wait_loop_calls kq_run_calls_append Let_def split: bind_splits)

theorem kq_wait_calls_witness:
  "Kqueue_WaitEvent kq_script (\<lambda>fd ev w. if fd = 7 \<and> ev AND EventWrite \<noteq> 0 then None else Ret w) 3000
     \<lparr>kq_kern = [kevent_of 7 0 EVFILT_READ, kevent_of 0 0 EVFILT_USER], kq_multi = a_queue\<rparr> =
   Ret \<lparr>kq_kern = [], kq_multi = a_queue\<rparr>"
  by (subst kq_wait_calls [where k = "[]" and kes = "[kevent_of 7 0 EVFILT_READ, kevent_of 0 0 EVFILT_USER]"])
     (simp_all add: kq_script_def a_queue_def WaitEventsNumber_def kq_calls_def kevent_of_def
        ioevent_of_kevent_def mask_defs ev_defs)

section \<open>A peer that has finished sending\<close>

text \<open>C35: when a peer has sent its last bytes and closed its side, epoll reports readability and the
  read handler runs, but kqueue's \<open>EV_EOF\<close> makes the error handler run, whatever bytes are still to
  be read.\<close>

theorem kq_eof_is_error:
  assumes "kv_Filter ke = EVFILT_READ" and "kv_Flags ke AND EV_EOF \<noteq> 0"
  shows "HandleEvent e (ioevent_of_kevent ke) = errorHandle e \<and>
    ioevent_of_kevent ke AND EventRead \<noteq> 0 \<and>
    HandleEvent e (ioevent_of_epoll (EPOLLIN OR EPOLLRDHUP)) = readHandle e"
proof (intro conjI)
  show "HandleEvent e (ioevent_of_kevent ke) = errorHandle e" using kevent_error_handler assms(2) by blast
  show "ioevent_of_kevent ke AND EventRead \<noteq> 0"
    using assms(1) by (simp add: ioevent_of_kevent_def mask_defs)
  show "HandleEvent e (ioevent_of_epoll (EPOLLIN OR EPOLLRDHUP)) = readHandle e"
    by (simp add: ioevent_of_epoll_def HandleEvent_def mask_defs)
qed

theorem kq_eof_is_error_witness:
  "HandleEvent ((NewEvent (ConnEvent 0) 7)\<lparr>errorHandle := Some (ErrHandler 0), readHandle := Some (ReadHandler 0)\<rparr>)
     (ioevent_of_kevent (kevent_of 7 EV_EOF EVFILT_READ)) = Some (ErrHandler 0)"
  using kq_eof_is_error [of "kevent_of 7 EV_EOF EVFILT_READ"
      "(NewEvent (ConnEvent 0) 7)\<lparr>errorHandle := Some (ErrHandler 0), readHandle := Some (ReadHandler 0)\<rparr>"]
  by (simp add: kevent_of_def ev_defs)

end
