(* ===== verification/Log.thy ===== *)
theory Log
  imports Prelude
begin

text \<open>
  \<open>net/log/log.go\<close>: leveled logging. The package's variables are a \<open>log_state\<close>; a logger is a pair
  of functions on an unknown output state \<open>'w\<close> (the default one calls the standard library's
  \<open>log\<close>). Arguments of type \<open>interface{}\<close> are strings or other values. The other theories leave
  their log calls out: nothing depends on them.
\<close>

section \<open>State\<close>

type_synonym Level = int

definition LevelFatal :: Level where "LevelFatal = 1"
definition LevelError :: Level where "LevelError = 2"
definition LevelWarn :: Level where "LevelWarn = 3"
definition LevelInfo :: Level where "LevelInfo = 4"
definition LevelDebug :: Level where "LevelDebug = 5"

lemmas level_defs = LevelFatal_def LevelError_def LevelWarn_def LevelInfo_def LevelDebug_def

definition Level_String :: "Level \<Rightarrow> string" where
  "Level_String l =
     (if l = LevelFatal then ''[F]'' else if l = LevelError then ''[E]''
      else if l = LevelWarn then ''[W]'' else if l = LevelInfo then ''[I]''
      else if l = LevelDebug then ''[D]'' else [])"

datatype 'v logarg = LogStr string | LogVal 'v

record ('v, 'w) Logger =
  Logger_Log :: "'v logarg list \<Rightarrow> 'w \<Rightarrow> 'w"
  Logger_Logf :: "string \<Rightarrow> 'v logarg list \<Rightarrow> 'w \<Rightarrow> 'w"

record ('v, 'w) log_state =
  log_logger :: "('v, 'w) Logger"
  log_level :: Level
  log_prefix :: string

text \<open>The initial values, then \<open>init\<close> with the value of the environment variable.\<close>

definition initial_log :: "('v, 'w) Logger \<Rightarrow> ('v, 'w) log_state" where
  "initial_log L = \<lparr>log_logger = L, log_level = LevelWarn, log_prefix = ''[zput]''\<rparr>"

definition log_init :: "string \<Rightarrow> ('v, 'w) log_state \<Rightarrow> ('v, 'w) log_state" where
  "log_init GEV_LOG_LEVEL s =
     (if GEV_LOG_LEVEL = ''fatal'' then s\<lparr>log_level := LevelFatal\<rparr>
      else if GEV_LOG_LEVEL = ''error'' then s\<lparr>log_level := LevelError\<rparr>
      else if GEV_LOG_LEVEL = ''warn'' then s\<lparr>log_level := LevelWarn\<rparr>
      else if GEV_LOG_LEVEL = ''info'' then s\<lparr>log_level := LevelInfo\<rparr>
      else if GEV_LOG_LEVEL = ''debug'' then s\<lparr>log_level := LevelDebug\<rparr>
      else s)"

section \<open>Messages\<close>

definition Log_Log :: "('v, 'w) log_state \<Rightarrow> Level \<Rightarrow> 'v logarg list \<Rightarrow> 'w \<Rightarrow> 'w" where
  "Log_Log s l v w =
     (if length (log_prefix s) > 0
      then Logger_Log (log_logger s) ([LogStr (log_prefix s), LogStr '' '', LogStr (Level_String l), LogStr '' ''] @ v) w
      else Logger_Log (log_logger s) v w)"

definition Log_Logf :: "('v, 'w) log_state \<Rightarrow> Level \<Rightarrow> string \<Rightarrow> 'v logarg list \<Rightarrow> 'w \<Rightarrow> 'w" where
  "Log_Logf s l format v w =
     (let format = (if length (log_prefix s) > 0
                    then log_prefix s @ '' '' @ Level_String l @ '' '' @ format else format)
      in Logger_Logf (log_logger s) format v w)"

definition WithLevel :: "('v, 'w) log_state \<Rightarrow> Level \<Rightarrow> 'v logarg list \<Rightarrow> 'w \<Rightarrow> 'w" where
  "WithLevel s l v w = (if l > log_level s then w else Log_Log s l v w)"

definition WithLevelf :: "('v, 'w) log_state \<Rightarrow> Level \<Rightarrow> string \<Rightarrow> 'v logarg list \<Rightarrow> 'w \<Rightarrow> 'w" where
  "WithLevelf s l format v w = (if l > log_level s then w else Log_Logf s l format v w)"

definition Log_Debug :: "('v, 'w) log_state \<Rightarrow> 'v logarg list \<Rightarrow> 'w \<Rightarrow> 'w" where
  "Log_Debug s v w = WithLevel s LevelDebug v w"

definition Log_Debugf :: "('v, 'w) log_state \<Rightarrow> string \<Rightarrow> 'v logarg list \<Rightarrow> 'w \<Rightarrow> 'w" where
  "Log_Debugf s format v w = WithLevelf s LevelDebug format v w"

definition Log_Info :: "('v, 'w) log_state \<Rightarrow> 'v logarg list \<Rightarrow> 'w \<Rightarrow> 'w" where
  "Log_Info s v w = WithLevel s LevelInfo v w"

definition Log_Infof :: "('v, 'w) log_state \<Rightarrow> string \<Rightarrow> 'v logarg list \<Rightarrow> 'w \<Rightarrow> 'w" where
  "Log_Infof s format v w = WithLevelf s LevelInfo format v w"

definition Log_Warn :: "('v, 'w) log_state \<Rightarrow> 'v logarg list \<Rightarrow> 'w \<Rightarrow> 'w" where
  "Log_Warn s v w = WithLevel s LevelWarn v w"

definition Log_Warnf :: "('v, 'w) log_state \<Rightarrow> string \<Rightarrow> 'v logarg list \<Rightarrow> 'w \<Rightarrow> 'w" where
  "Log_Warnf s format v w = WithLevelf s LevelWarn format v w"

definition Log_Error :: "('v, 'w) log_state \<Rightarrow> 'v logarg list \<Rightarrow> 'w \<Rightarrow> 'w" where
  "Log_Error s v w = WithLevel s LevelError v w"

definition Log_Errorf :: "('v, 'w) log_state \<Rightarrow> string \<Rightarrow> 'v logarg list \<Rightarrow> 'w \<Rightarrow> 'w" where
  "Log_Errorf s format v w = WithLevelf s LevelError format v w"

text \<open>\<open>os.Exit\<close> ends the process with its exit code.\<close>

datatype 'w process = Continues 'w | Exits int 'w

definition Log_Fatal :: "('v, 'w) log_state \<Rightarrow> 'v logarg list \<Rightarrow> 'w \<Rightarrow> 'w process" where
  "Log_Fatal s v w = Exits 1 (WithLevel s LevelFatal v w)"

definition Log_Fatalf :: "('v, 'w) log_state \<Rightarrow> string \<Rightarrow> 'v logarg list \<Rightarrow> 'w \<Rightarrow> 'w process" where
  "Log_Fatalf s format v w = Exits 1 (WithLevelf s LevelFatal format v w)"

definition SetLogger :: "('v, 'w) Logger \<Rightarrow> ('v, 'w) log_state \<Rightarrow> ('v, 'w) log_state" where
  "SetLogger l s = s\<lparr>log_logger := l\<rparr>"

definition GetLogger :: "('v, 'w) log_state \<Rightarrow> ('v, 'w) Logger" where
  "GetLogger s = log_logger s"

definition SetLevel :: "Level \<Rightarrow> ('v, 'w) log_state \<Rightarrow> ('v, 'w) log_state" where
  "SetLevel l s = s\<lparr>log_level := l\<rparr>"

definition GetLevel :: "('v, 'w) log_state \<Rightarrow> Level" where
  "GetLevel s = log_level s"

definition SetPrefix :: "string \<Rightarrow> ('v, 'w) log_state \<Rightarrow> ('v, 'w) log_state" where
  "SetPrefix p s = s\<lparr>log_prefix := p\<rparr>"

definition Log_Name :: "string \<Rightarrow> ('v, 'w) log_state \<Rightarrow> ('v, 'w) log_state" where
  "Log_Name name s = s\<lparr>log_prefix := ''['' @ name @ '']''\<rparr>"

lemmas log_defs = Log_Debug_def Log_Debugf_def Log_Info_def Log_Infof_def Log_Warn_def Log_Warnf_def
  Log_Error_def Log_Errorf_def Log_Fatal_def Log_Fatalf_def WithLevel_def WithLevelf_def
  Log_Log_def Log_Logf_def

section \<open>What is logged\<close>

text \<open>A run of calls of the package, by whoever makes them; after \<open>os.Exit\<close> nothing happens any more.\<close>

datatype 'v log_op =
    DoDebug "'v logarg list" | DoDebugf string "'v logarg list" | DoInfo "'v logarg list" | DoInfof string "'v logarg list" | DoWarn "'v logarg list" | DoWarnf string "'v logarg list" | DoError "'v logarg list" | DoErrorf string "'v logarg list" | DoFatal "'v logarg list" | DoFatalf string "'v logarg list"
  | DoSetLevel Level | DoSetPrefix string | DoName string

fun log_step :: "'v log_op \<Rightarrow> ('v, 'w) log_state \<times> 'w process \<Rightarrow> ('v, 'w) log_state \<times> 'w process" where
  "log_step op (s, Exits n w) = (s, Exits n w)"
| "log_step (DoDebug v) (s, Continues w) = (s, Continues (Log_Debug s v w))"
| "log_step (DoDebugf f v) (s, Continues w) = (s, Continues (Log_Debugf s f v w))"
| "log_step (DoInfo v) (s, Continues w) = (s, Continues (Log_Info s v w))"
| "log_step (DoInfof f v) (s, Continues w) = (s, Continues (Log_Infof s f v w))"
| "log_step (DoWarn v) (s, Continues w) = (s, Continues (Log_Warn s v w))"
| "log_step (DoWarnf f v) (s, Continues w) = (s, Continues (Log_Warnf s f v w))"
| "log_step (DoError v) (s, Continues w) = (s, Continues (Log_Error s v w))"
| "log_step (DoErrorf f v) (s, Continues w) = (s, Continues (Log_Errorf s f v w))"
| "log_step (DoFatal v) (s, Continues w) = (s, Log_Fatal s v w)"
| "log_step (DoFatalf f v) (s, Continues w) = (s, Log_Fatalf s f v w)"
| "log_step (DoSetLevel l) (s, Continues w) = (SetLevel l s, Continues w)"
| "log_step (DoSetPrefix p) (s, Continues w) = (SetPrefix p s, Continues w)"
| "log_step (DoName n) (s, Continues w) = (Log_Name n s, Continues w)"

text \<open>What should come out of it: each call says something at a level or not; it is shown when the
  level set last before it is not more severe and the process still lives, with the prefix set last.\<close>

fun said :: "'v log_op \<Rightarrow> (Level \<times> string option \<times> 'v logarg list) option" where
  "said (DoDebug v) = Some (LevelDebug, None, v)"
| "said (DoDebugf f v) = Some (LevelDebug, Some f, v)"
| "said (DoInfo v) = Some (LevelInfo, None, v)"
| "said (DoInfof f v) = Some (LevelInfo, Some f, v)"
| "said (DoWarn v) = Some (LevelWarn, None, v)"
| "said (DoWarnf f v) = Some (LevelWarn, Some f, v)"
| "said (DoError v) = Some (LevelError, None, v)"
| "said (DoErrorf f v) = Some (LevelError, Some f, v)"
| "said (DoFatal v) = Some (LevelFatal, None, v)"
| "said (DoFatalf f v) = Some (LevelFatal, Some f, v)"
| "said _ = None"

definition fatal :: "'v log_op \<Rightarrow> bool" where
  "fatal op \<longleftrightarrow> (case said op of Some (l, _) \<Rightarrow> l = LevelFatal | None \<Rightarrow> False)"

definition level_after :: "Level \<Rightarrow> 'v log_op list \<Rightarrow> Level" where
  "level_after l ops = last (l # concat (map (\<lambda>op. case op of DoSetLevel l \<Rightarrow> [l] | _ \<Rightarrow> []) ops))"

definition prefix_after :: "string \<Rightarrow> 'v log_op list \<Rightarrow> string" where
  "prefix_after p ops = last (p # concat (map (\<lambda>op. case op of DoSetPrefix p \<Rightarrow> [p]
     | DoName n \<Rightarrow> [''['' @ n @ '']''] | _ \<Rightarrow> []) ops))"

datatype 'v logged = Printed "'v logarg list" | Formatted string "'v logarg list"

fun shown :: "string \<Rightarrow> Level \<Rightarrow> string option \<Rightarrow> 'v logarg list \<Rightarrow> 'v logged" where
  "shown p l None v = Printed (if p = [] then v else [LogStr p, LogStr '' '', LogStr (Level_String l), LogStr '' ''] @ v)"
| "shown p l (Some f) v = Formatted (if p = [] then f else p @ '' '' @ Level_String l @ '' '' @ f) v"

definition shown_at :: "('v, 'w) log_state \<Rightarrow> 'v log_op list \<Rightarrow> 'v log_op \<Rightarrow> 'v logged list" where
  "shown_at s before op = (case said op of
     Some (l, f, v) \<Rightarrow> if (\<forall>o' \<in> set before. \<not> fatal o') \<and> l \<le> level_after (log_level s) before
                       then [shown (prefix_after (log_prefix s) before) l f v] else []
   | None \<Rightarrow> [])"

fun give :: "('v, 'w) Logger \<Rightarrow> 'v logged \<Rightarrow> 'w \<Rightarrow> 'w" where
  "give L (Printed v) w = Logger_Log L v w"
| "give L (Formatted f v) w = Logger_Logf L f v w"

lemma after_snoc:
  "level_after l (ops @ [op]) = (case op of DoSetLevel l \<Rightarrow> l | _ \<Rightarrow> level_after l ops)"
  "prefix_after p (ops @ [op]) = (case op of DoSetPrefix p \<Rightarrow> p | DoName n \<Rightarrow> ''['' @ n @ '']''
     | _ \<Rightarrow> prefix_after p ops)"
  by (cases op; simp add: level_after_def prefix_after_def)+

lemma not_fatal: "fatal (DoFatal v)" "fatal (DoFatalf f v)" "\<not> fatal (DoSetLevel l)" "\<not> fatal (DoSetPrefix p)"
  "\<not> fatal (DoName p)" "\<not> fatal (DoDebug v)" "\<not> fatal (DoDebugf f v)" "\<not> fatal (DoInfo v)"
  "\<not> fatal (DoInfof f v)" "\<not> fatal (DoWarn v)" "\<not> fatal (DoWarnf f v)" "\<not> fatal (DoError v)" "\<not> fatal (DoErrorf f v)"
  by (simp_all add: fatal_def level_defs)

lemma log_run:
  "case fold log_step ops (s, Continues w) of
     (t, Continues u) \<Rightarrow> (\<forall>op \<in> set ops. \<not> fatal op) \<and> log_logger t = log_logger s \<and>
        log_level t = level_after (log_level s) ops \<and> log_prefix t = prefix_after (log_prefix s) ops \<and>
        u = fold (give (log_logger s)) (concat (map (\<lambda>n. shown_at s (take n ops) (ops ! n)) [0..<length ops])) w
   | (t, Exits n u) \<Rightarrow> n = 1 \<and> (\<exists>op \<in> set ops. fatal op) \<and>
        u = fold (give (log_logger s)) (concat (map (\<lambda>n. shown_at s (take n ops) (ops ! n)) [0..<length ops])) w"
proof (induction ops rule: rev_induct)
  case Nil
  then show ?case by (simp add: level_after_def prefix_after_def)
next
  case (snoc op ops)
  let ?m = "\<lambda>ops. concat (map (\<lambda>n. shown_at s (take n ops) (ops ! n)) [0..<length ops])"
  obtain t r where f: "fold log_step ops (s, Continues w) = (t, r)" by fastforce
  have "map (\<lambda>n. shown_at s (take n (ops @ [op])) ((ops @ [op]) ! n)) [0..<length ops] =
      map (\<lambda>n. shown_at s (take n ops) (ops ! n)) [0..<length ops]"
    by (rule map_cong) (simp_all add: nth_append)
  moreover have "take (length ops) (ops @ [op]) = ops" by simp
  ultimately have m: "?m (ops @ [op]) = ?m ops @ shown_at s ops op" by (simp del: take_append map_eq_conv)
  show ?case
  proof (cases r)
    case (Exits n u)
    with snoc f have "\<exists>op \<in> set ops. fatal op" by simp
    then have "shown_at s ops op = []" by (auto simp: shown_at_def split: option.splits)
    with snoc f Exits show ?thesis unfolding m by simp
  next
    case (Continues u)
    with snoc f show ?thesis unfolding m
      by (cases op) (simp_all add: after_snoc shown_at_def not_fatal log_defs SetLevel_def SetPrefix_def Log_Name_def)
  qed
qed



end
