(* ===== verification/Spec2Isabelle.thy ===== *)
theory Spec2Isabelle
  imports CodecClaims ConnClaims LoopClaims LifeClaims ServerClaims ServerWhole ServerDelivery ServerOrder
    EchoServer KqueueClaims Log
begin

text \<open>
  A verification development for \<open>zput_net_golang\<close>, a TCP server library in Go built on one event
  loop per goroutine. Paths below are under \<open>src/\<close>.

  \<^bold>\<open>The program.\<close> A server (\<open>net/server/server.go\<close>) has a main loop and several sub loops. The
  acceptor (\<open>net/accept/accept.go\<close>) is an event of the main loop; each accepted descriptor becomes
  a connection (\<open>net/connect/connect.go\<close>), is given to the next sub loop in turn and registers
  itself there by a function put in that loop's queue. A loop (\<open>net/event_loop/\<close>) waits in the
  multiplexer (\<open>net/multiplex/epoll.go\<close>, or \<open>kqueue.go\<close> on BSD), runs one handler per reported
  event, then the queued functions. A connection keeps an in and an out buffer; a codec
  (\<open>net/protocol/codec.go\<close>) cuts what arrives into frames, which go to the application's handler,
  and wraps the handler's answers. Other goroutines act on a loop only through \<open>RunInLoop\<close>, which
  appends to the queue under a lock and wakes the loop through an eventfd.

  \<^bold>\<open>How it is modelled.\<close> Code is translated function by function, under the names of the source; a
  Go panic is \<open>Panic\<close> of the type \<open>'a go\<close>, a Go error a value of a sum or option. State is passed
  explicitly: a \<open>world\<close> is the kernel state and a trace of the system calls and callbacks so far,
  a \<open>loop\<close> is a world with the fields of \<open>EventLoop\<close> and \<open>EventCtrl\<close>, a \<open>server\<close> is a loop (the one
  whose goroutine is running) with the fields of \<open>Server\<close>, the other loops and the heap of
  connections. The trace serves specification: properties about bytes, frames and descriptors
  are stated on it (\<open>received\<close>, \<open>sent\<close>, \<open>delivered\<close>, \<open>submitted\<close>, \<open>closes\<close>, \<open>interest\<close>).
  Closures are named by constructors (\<open>handler\<close>, \<open>task\<close>, \<open>Event.thy\<close>) and given their meaning where
  the state they capture is known (\<open>run_handler\<close>, \<open>run_task\<close>, \<open>server_handler\<close>, \<open>server_task\<close>).

  \<^bold>\<open>Theories.\<close>
  \<^item> \<open>Prelude\<close>, \<open>Binary\<close>: the parts of Go and of \<open>encoding/binary\<close> that are used.
  \<^item> \<open>Codec\<close>: \<open>codec.go\<close> and \<open>errors.go\<close>. \<open>Framing\<close> states what a codec is for, as three locales, each
    extending the one before (progress, insensitivity to later bytes, inversion of an encoder);
    \<open>CodecSpec\<close> states what decoding is on a plain byte stream, with the locale \<open>conn_contract\<close> for
    the buffer a codec reads from; \<open>CodecFraming\<close> interprets the first three on the codecs;
    \<open>CodecEdge\<close> and \<open>CodecClaims\<close> have the properties.
  \<^item> \<open>Kernel\<close> (system calls), \<open>Multiplex\<close> (\<open>epoll.go\<close>, masks of \<open>protocol.go\<close>), \<open>Event\<close>
    (\<open>event.go\<close>, \<open>event_ctrl.go\<close>), \<open>EventLoop\<close> (\<open>event_loop.go\<close>, \<open>bool.go\<close>), \<open>LoopProtocol\<close> and
    \<open>LoopClaims\<close> (a loop, its callers and \<open>Stop\<close> as a step relation), \<open>Lifecycle\<close> and \<open>LifeClaims\<close>
    (an abstraction of that protocol, and \<open>Start\<close> and \<open>Stop\<close> of a server over it).
  \<^item> \<open>SockAddr\<close>, \<open>Connect\<close>: \<open>connect.go\<close>. \<open>ConnStream\<close> interprets \<open>conn_contract\<close> on its two buffers,
    \<open>ConnRead\<close> treats the frame loop, \<open>ConnLemmas\<close> and \<open>ConnOut\<close> the write path and the life cycle,
    \<open>ConnLife\<close> closed connections and the timer, \<open>ConnSystem\<close> one connection in its surroundings as
    a step relation, \<open>Instances\<close> and \<open>Demo\<close> concrete runs; the properties are in \<open>ConnClaims\<close> and here.
  \<^item> \<open>Options\<close> (\<open>options.go\<close>), \<open>Accept\<close> (\<open>accept.go\<close>), \<open>Sync\<close> (\<open>sync.go\<close>, \<open>schedule.go\<close>), \<open>Server\<close>
    (\<open>server.go\<close>, \<open>reference.go\<close>), \<open>ServerLemmas\<close> and \<open>ServerClaims\<close> (single operations).
  \<^item> The whole server: \<open>Locality\<close>, \<open>ConnAlone\<close>, \<open>ConnRest\<close>, \<open>ServerViews\<close> (what an operation of one
    connection, or of one that is disconnected, leaves alone, with the locale \<open>loop_view\<close> interpreted on servers), \<open>ServerSystem\<close> (the step
    relation and its invariant), \<open>ServerSteps\<close>, \<open>ServerAccept\<close>, \<open>ServerTheorem\<close> (every step keeps it),
    \<open>ServerDemo\<close> (a run), \<open>ServerWhole\<close> (the properties).
  \<^item> What a server does over time: \<open>Effects\<close> (locales for classes of effects, which say what each
    operation may add to the trace), \<open>ServerPass\<close> (one round of \<open>Run\<close> as a sequence of steps),
    \<open>ServerDelivery\<close> (what such a round does for a connection the kernel reports), \<open>ServerOrder\<close> (the
    order of the callbacks), \<open>ServerAnswers\<close> (what is sent as a function of what is received).
  \<^item> \<open>Echo\<close>, \<open>EchoDemo\<close>, \<open>EchoServer\<close> (\<open>example/echo/echo.go\<close>): the example, a run of it, and what it
    does, from the theorems on servers.
  \<^item> \<open>Kqueue\<close>, \<open>KqueueClaims\<close> (\<open>kqueue.go\<close>), \<open>Log\<close> (\<open>net/log/log.go\<close>): these stand beside the rest,
    which uses the epoll build.

  \<^bold>\<open>What is shown.\<close> For a connection and then for every connection of a whole server, under every
  interleaving: the frames handed over are those of the bytes received, the bytes submitted are
  those sent followed by the out buffer, descriptors and pool entries correspond and are not mixed
  up, a connection ends once (its descriptor closed, the application told, its buffers returned),
  output does not stall, a handler or queued function never panics if the codec is well
  configured, \<open>ConnectCallback\<close> is the first the application hears of a connection, and comes
  once. A round of a loop returns and is a sequence of these steps, so that what is proved of steps
  holds of \<open>Run\<close>; in a round of a sub loop an accepted connection is announced, a readable one has
  its bytes read and delivered, a writable one its bytes sent. A server whose handler only answers
  sends the encoded answers to the frames it received; the echo example sends what it received.
  For a loop: functions run once and in order, no wake-up is lost, passes serve the queue, \<open>Stop\<close> ends all
  loops once they run. For the codecs: decoding refines a function on streams, inverts encoding
  on the messages the format can carry, and does not depend on segmentation. The remaining
  properties treat the timer, addresses, dispatch, the distribution of connections, kqueue, logging
  and cases where the code does not do what it should.

  \<^bold>\<open>Loops and bounds.\<close> The frame loop of \<open>readEvent\<close> and the loop of \<open>Run\<close> may run for ever and are
  \<open>partial_function (option)\<close>; there not returning is the same value as a panic, so that
  \<open>readEvent_returns\<close>, \<open>server_never_panics\<close> and \<open>loop_pass\<close> (for one round of \<open>Run\<close>) show both
  termination and the absence of panics.
  No fuel is used. Go's \<open>int\<close> is an integer with the wrap-around written out where arithmetic on
  input can overflow; lengths in headers, flags and clocks are words of their width.

  \<^bold>\<open>What is assumed.\<close> Code outside the repository is an argument: the system calls (\<open>sys\<close>, \<open>kq_sys\<close>),
  the ring buffer and byte buffer (\<open>bufs\<close>), \<open>net.Listen\<close> and reuseport (\<open>netlib\<close>), the timing
  wheel, the application's handler (\<open>handle_event\<close>) and loggers. \<open>bufs_ok\<close> says that a ring buffer
  is a byte queue, \<open>sys_ok\<close> that \<open>read\<close> and \<open>write\<close> stay within the length they were given,
  \<open>eventfd_ok\<close> that writing the eventfd succeeds, \<open>handle_ok\<close> that a callback changes only the
  application's own state and acts on the library through the public methods of its connection,
  which are carried out in order when it returns. \<open>server_answers\<close> and \<open>echo_echoes\<close> are about
  servers to which nothing else writes (no queued \<open>WriteInSelfLoop\<close>). On whole servers \<open>accept\<close> returns descriptors
  not used before: the code is not safe when a closed number is used again (see
  \<open>late_write_to_closed\<close>), and \<open>runtime.NumCPU\<close> is at least 1; for a
  whole round of the main loop, which may accept several times, this is \<open>accepts_fresh\<close>. Interleavings are of whole
  operations: handlers, queued functions and public methods are single steps, in \<open>LoopProtocol\<close>
  the parts of \<open>Run\<close> and \<open>Stop\<close> that are separated by a lock or an atomic access. A data race
  within such an operation (the code has some: \<open>connectPool\<close> is not locked) is not modelled.

  \<^bold>\<open>Not modelled.\<close> The benchmarks are clients and servers for comparing libraries, mostly of other
  libraries. \<open>net/server/reactor_unix.go\<close> is commented out in full, \<open>net/multiplex/multiplex.go\<close> is
  empty. The tests are not part of the program. Log calls outside \<open>Log\<close> and the profiler of the
  echo example are output only.
\<close>

unbundle bit_operations_syntax

section \<open>A connection from creation on\<close>

text \<open>With a line, delimiter or length field codec, in every reachable state of a connection
  the frames handed to the application are exactly the frames of the bytes received, and the
  in buffer is the undecoded rest, however the stream was cut into segments.\<close>

theorem reachable_frames:
  assumes "bufs_ok R cont" and "app_ok A" and "incremental cd" and "codec_wf cd"
    and "conn_reachable R S A cd (c, w)"
  shows "frames (frame_of cd) (received (conn_fd c) (trace w)) =
           (delivered (self c) (trace w), cont (inBuffer c))"
  using assms by (rule conn_reachable_frames)

theorem reachable_frames_witness:
  "\<exists>(c :: (bytes, bytes) conn) (w :: script loop).
     conn_reachable list_bufs script_sys echo_app LineBasedFrameCodec (c, w) \<and>
     received 7 (trace w) = [104, 10, 105] \<and>
     delivered 0 (trace w) = [[104]] \<and> inBuffer c = [105]"
proof -
  obtain c w where cw: "conn_reachable list_bufs script_sys echo_app LineBasedFrameCodec
      (c, w :: script loop)" "conn_fd c = 7" "self c = 0" "received 7 (trace w) = [104, 10, 105]"
    using demo_reads [OF codec_wf_safe, of LineBasedFrameCodec "[104, 10, 105]"] by auto
  have "frame_of LineBasedFrameCodec [104, 10, 105] = Some ([104], 2)"
    "frame_of LineBasedFrameCodec [105] = None"
    by (simp_all add: frame_of_def delim_next_def CRLFByte_def Let_def)
  then have fr: "frames (frame_of LineBasedFrameCodec) [104, 10, 105] = ([[104]], [105])"
    by (simp add: codec.frames_eqs)
  have "delivered 0 (trace w) = [[104]]" "inBuffer c = [105]"
    using reachable_frames [OF list_bufs_ok echo_app_ok _ _ cw(1)] cw fr by simp_all
  with cw show ?thesis by blast
qed

text \<open>The bytes handed to \<open>write\<close> so far are, in order, the bytes the kernel has taken
  followed by those in the out buffer, in every reachable state of an open connection.\<close>

theorem reachable_output_fifo:
  assumes "bufs_ok R cont" and "sys_ok S" and "app_ok A"
    and "conn_reachable R S A cd (c, w)" and "state c \<noteq> Disconnected"
  shows "submitted (self c) (trace w) = sent (conn_fd c) (trace w) @ cont (outBuffer c)"
  using conn_reachable_sound [OF assms(1-4)] assms(5) by (simp add: sound_def fifo_def)

theorem reachable_output_fifo_witness:
  "submitted 0 (trace (snd (demo_part LineBasedFrameCodec))) =
     sent 7 (trace (snd (demo_part LineBasedFrameCodec))) @ [2, 3] \<and>
   sent 7 (trace (snd (demo_part LineBasedFrameCodec))) = [1]"
  using reachable_output_fifo [OF list_bufs_ok script_sys_ok echo_app_ok
      demo_part_reachable [of LineBasedFrameCodec, unfolded demo_part_eq]]
  by (simp add: demo_part_eq a_conn_def)

text \<open>The descriptor of a connection is closed at most once, exactly when the connection is
  disconnected, and the loop's pool maps it to the connection exactly until then.\<close>

theorem reachable_closed_once:
  assumes "bufs_ok R cont" and "sys_ok S" and "app_ok A" and "conn_reachable R S A cd (c, w)"
  shows "closes (conn_fd c) (trace w) = (if state c = Disconnected then 1 else 0) \<and>
         eventPool w (conn_fd c) = (if state c = Disconnected then None else Some (ConnEvent (self c)))"
  using conn_reachable_sound [OF assms] by (simp add: sound_def linked_def)

theorem reachable_closed_once_witness:
  "closes 7 (trace (snd (demo_part LineBasedFrameCodec))) = 0 \<and>
   eventPool (snd (demo_part LineBasedFrameCodec)) 7 = Some (ConnEvent 0)"
  using reachable_closed_once [OF list_bufs_ok script_sys_ok echo_app_ok
      demo_part_reachable [of LineBasedFrameCodec, unfolded demo_part_eq]]
  by (simp add: demo_part_eq a_conn_def)

text \<open>As long as no \<open>epoll_ctl\<close> call fails, output cannot stall: while an open connection
  has bytes the kernel has not taken, the kernel's interest list asks for write events.\<close>

theorem reachable_no_stall:
  assumes "bufs_ok R cont" and "sys_ok S" and "app_ok A"
    and "conn_reachable R S A cd (c, w)" and "state c \<noteq> Disconnected"
    and "submitted (self c) (trace w) \<noteq> sent (conn_fd c) (trace w)"
    and "\<not> ctl_failed (conn_fd c) (trace w)"
  shows "\<exists>ev. interest (conn_fd c) (trace w) = Some ev \<and> ev AND EPOLLOUT \<noteq> 0"
proof -
  have snd: "sound cont c w" using conn_reachable_sound [OF assms(1-4)] by simp
  with assms(5,6) have "cont (outBuffer c) \<noteq> []" by (auto simp: sound_def fifo_def)
  with snd assms(5) have "IsWriting (event c)" by (simp add: sound_def pushes_def)
  then have "GetEpollEventsFromIOEvent (events (event c)) AND EPOLLOUT \<noteq> 0"
    by (simp add: IsWriting_bit epoll_tests bit_epoll_of_event)
  with snd assms(5,7) show ?thesis by (auto simp: sound_def linked_def)
qed

theorem reachable_no_stall_witness:
  "\<exists>ev. interest 7 (trace (snd (demo_part LineBasedFrameCodec))) = Some ev \<and> ev AND EPOLLOUT \<noteq> 0"
  using reachable_no_stall [OF list_bufs_ok script_sys_ok echo_app_ok
      demo_part_reachable [of LineBasedFrameCodec, unfolded demo_part_eq]]
  by (simp add: demo_part_eq a_conn_def ctl_failed_def)

text \<open>What a peer encoded message by message arrives message by message: once the encoded
  bytes have been received, in whatever segments, the application has got exactly the messages.\<close>

theorem reachable_messages:
  assumes "bufs_ok R cont" and "app_ok A" and "codec_wf cd" and "incremental cd"
    and "conn_reachable R S A cd (c, w)"
    and "\<forall>m \<in> set ms. survives cd m"
    and "encode_all (ICodec_Encode cd) ms = Some (received (conn_fd c) (trace w))"
  shows "delivered (self c) (trace w) = ms \<and> cont (inBuffer c) = []"
proof -
  obtain bs where "encode_all (ICodec_Encode cd) ms = Some bs"
    "\<forall>rest. frames (frame_of cd) (bs @ rest) =
       (case frames (frame_of cd) rest of (fs, r) \<Rightarrow> (ms @ fs, r))"
    using survives_frames [OF assms(6)] by blast
  with assms(7) have "frames (frame_of cd) (received (conn_fd c) (trace w)) = (ms, [])"
    by (metis append_Nil2 case_prod_conv frames_Nil option.inject)
  with conn_reachable_frames [OF assms(1,2,4,3,5)] show ?thesis by simp
qed

theorem reachable_messages_witness:
  "\<exists>(c :: (bytes, bytes) conn) (w :: script loop).
     conn_reachable list_bufs script_sys echo_app LineBasedFrameCodec (c, w) \<and>
     delivered 0 (trace w) = [[104], [], [105]]"
proof -
  let ?ms = "[[104], [], [105]] :: bytes list"
  obtain c w where cw: "conn_reachable list_bufs script_sys echo_app LineBasedFrameCodec
      (c, w :: script loop)" "conn_fd c = 7" "self c = 0" "received 7 (trace w) = [104, 10, 10, 105, 10]"
    using demo_reads [OF codec_wf_safe, of LineBasedFrameCodec "[104, 10, 10, 105, 10]"] by auto
  have "encode_all (ICodec_Encode LineBasedFrameCodec) ?ms = Some (received (conn_fd c) (trace w))"
    by (simp add: cw LineBasedFrameCodec_Encode_def CRLFByte_def)
  from reachable_messages [OF list_bufs_ok echo_app_ok _ _ cw(1) _ this] cw(1,3)
  show ?thesis by (auto simp: line_ok_def CRLFByte_def)
qed

end
